(* ===== verification/ZPrelude.thy ===== *)
theory ZPrelude
  imports Main "HOL-Library.Word" "HOL-Library.Char_ord" "HOL-Library.List_Lexorder"
begin

text \<open>
  Shared by every component: the machine-integer types of the code, failures as values, the
  sequencing of fallible state transformers, decimal output as \<^verbatim>\<open>operator<<\<close> prints it, the
  C-locale character classes, and the generic lemmas the component proofs use.
\<close>

section \<open>Types\<close>

type_synonym u32 = "32 word"
type_synonym u64 = "64 word"
type_synonym i32 = "32 word"

text \<open>
  How a call can fail to return normally. The exceptions the code throws carry their message.
  \<open>StackOverflow\<close> is the end of a call chain deeper than the stack that is left,
  \<open>NullDeref\<close> the use of a null pointer, \<open>UseAfterFree\<close> the use of a destroyed object,
  \<open>ThreadExit\<close> the end of the calling thread in the middle of a call.
\<close>

datatype err =
    StackOverflow
  | NullDeref
  | UseAfterFree
  | ThreadExit
  | InvalidArgument string
  | LogicError string
  | RuntimeError string
  | ForeignException string

type_synonym 'a res = "err + 'a"

section \<open>Collections of facts\<close>

named_theorems res_simps \<open>evaluation of fallible state transformers\<close>
named_theorems wf_rules \<open>preservation of a component's invariant by its operations\<close>
named_theorems frame_simps \<open>what an operation leaves alone\<close>

section \<open>Sequencing fallible state transformers\<close>

fun rbind :: "'a res \<Rightarrow> ('a \<Rightarrow> 'b res) \<Rightarrow> 'b res" where
  "rbind (Inl e) f = Inl e"
| "rbind (Inr x) f = f x"

fun fold_res :: "('a \<Rightarrow> 's \<Rightarrow> 's res) \<Rightarrow> 'a list \<Rightarrow> 's \<Rightarrow> 's res" where
  "fold_res f [] s = Inr s"
| "fold_res f (x # xs) s = rbind (f x s) (fold_res f xs)"

declare rbind.simps [res_simps]

lemma rbind_Inr_iff [res_simps]: "rbind r f = Inr y \<longleftrightarrow> (\<exists>x. r = Inr x \<and> f x = Inr y)"
  by (cases r) auto

lemma rbind_Inl_iff:
  "rbind r f = Inl e \<longleftrightarrow> r = Inl e \<or> (\<exists>x. r = Inr x \<and> f x = Inl e)"
  by (cases r) auto

lemma rbind_InrE:
  assumes "rbind r f = Inr y"
  obtains x where "r = Inr x" and "f x = Inr y"
  using assms by (cases r) auto

text \<open>Partial correctness of a loop: a property every body keeps holds at the end.\<close>

lemma fold_res_inv:
  assumes "fold_res f xs s = Inr s'" and "P s"
    and "\<And>x t t'. x \<in> set xs \<Longrightarrow> P t \<Longrightarrow> f x t = Inr t' \<Longrightarrow> P t'"
  shows "P s'"
  using assms
proof (induction xs arbitrary: s)
  case Nil
  then show ?case by simp
next
  case (Cons x xs)
  from Cons.prems(1) obtain t where t: "f x s = Inr t" "fold_res f xs t = Inr s'"
    by (auto elim: rbind_InrE)
  have "P t" using Cons.prems(2,3) t(1) by auto
  with t(2) show ?case using Cons.IH Cons.prems(3) by auto
qed

text \<open>Total correctness: where every body returns and keeps the property, so does the loop.\<close>

lemma fold_res_total:
  assumes "P s"
    and "\<And>x t. x \<in> set xs \<Longrightarrow> P t \<Longrightarrow> \<exists>t'. f x t = Inr t' \<and> P t'"
  shows "\<exists>s'. fold_res f xs s = Inr s' \<and> P s'"
  using assms
proof (induction xs arbitrary: s)
  case Nil
  then show ?case by simp
next
  case (Cons x xs)
  from Cons.prems obtain t where t: "f x s = Inr t" "P t" by auto
  moreover have "\<exists>s'. fold_res f xs t = Inr s' \<and> P s'"
    using t(2) Cons.prems(2) by (intro Cons.IH) auto
  ultimately show ?case by auto
qed

text \<open>The error of a loop is the error of one of its bodies, in a state the property holds in.\<close>

lemma fold_res_errorD:
  assumes "fold_res f xs s = Inl e" and "P s"
    and "\<And>x t t'. x \<in> set xs \<Longrightarrow> P t \<Longrightarrow> f x t = Inr t' \<Longrightarrow> P t'"
  shows "\<exists>x \<in> set xs. \<exists>t. P t \<and> f x t = Inl e"
  using assms
proof (induction xs arbitrary: s)
  case Nil
  then show ?case by simp
next
  case (Cons x xs)
  show ?case
  proof (cases "f x s")
    case (Inl e')
    with Cons.prems show ?thesis by auto
  next
    case (Inr t)
    with Cons.prems have "fold_res f xs t = Inl e" "P t" by auto
    then show ?thesis using Cons.IH [of t] Cons.prems(3) by auto
  qed
qed

lemma fold_res_append:
  "fold_res f (xs @ ys) s = rbind (fold_res f xs s) (fold_res f ys)"
proof (induction xs arbitrary: s)
  case Nil
  show ?case by simp
next
  case (Cons x xs)
  then show ?case by (cases "f x s") auto
qed

lemma fold_res_map: "fold_res f (map g xs) s = fold_res (\<lambda>x. f (g x)) xs s"
proof (induction xs arbitrary: s)
  case Nil
  show ?case by simp
next
  case (Cons x xs)
  then show ?case by (cases "f (g x) s") auto
qed

lemma fold_res_cong_state:
  assumes "\<And>x t. x \<in> set xs \<Longrightarrow> f x t = Inr (g x t)"
  shows "fold_res f xs s = Inr (fold g xs s)"
  using assms by (induction xs arbitrary: s) auto

lemma fold_res_first_error:
  assumes "f x s = Inl e"
  shows "fold_res f (x # xs) s = Inl e"
  using assms by simp

section \<open>Characters of the C locale and substrings\<close>

definition ord_of :: "char \<Rightarrow> nat" where
  "ord_of c = of_char c"

definition isupper :: "char \<Rightarrow> bool" where
  "isupper c \<longleftrightarrow> 65 \<le> ord_of c \<and> ord_of c \<le> 90"

definition islower :: "char \<Rightarrow> bool" where
  "islower c \<longleftrightarrow> 97 \<le> ord_of c \<and> ord_of c \<le> 122"

definition isalpha :: "char \<Rightarrow> bool" where
  "isalpha c \<longleftrightarrow> isupper c \<or> islower c"

definition isdigit :: "char \<Rightarrow> bool" where
  "isdigit c \<longleftrightarrow> 48 \<le> ord_of c \<and> ord_of c \<le> 57"

definition tolower :: "char \<Rightarrow> char" where
  "tolower c = (if isupper c then char_of (ord_of c + 32) else c)"

lemma ord_of_char_of: "n < 256 \<Longrightarrow> ord_of (char_of n) = n"
  by (simp add: ord_of_def)

lemma ord_of_tolower: "ord_of (tolower c) = (if isupper c then ord_of c + 32 else ord_of c)"
  by (auto simp: tolower_def isupper_def ord_of_char_of)

lemma tolower_not_upper [simp]: "\<not> isupper (tolower c)"
  by (auto simp: isupper_def ord_of_tolower)

lemma tolower_id: "\<not> isupper c \<Longrightarrow> tolower c = c"
  by (simp add: tolower_def)

definition substr :: "string \<Rightarrow> nat \<Rightarrow> nat \<Rightarrow> string" where
  "substr s pos n = take n (drop pos s)"

section \<open>Decimal output\<close>

fun show_nat :: "nat \<Rightarrow> string" where
  "show_nat n = (if n < 10 then [char_of (48 + n)]
                 else show_nat (n div 10) @ [char_of (48 + n mod 10)])"

declare show_nat.simps [simp del]

definition show_int :: "int \<Rightarrow> string" where
  "show_int i = (if i < 0 then ''-'' @ show_nat (nat (- i)) else show_nat (nat i))"

definition show_u32 :: "u32 \<Rightarrow> string" where
  "show_u32 w = show_nat (unat w)"

definition show_i32 :: "i32 \<Rightarrow> string" where
  "show_i32 w = show_int (sint w)"

definition pad2 :: "nat \<Rightarrow> string" where
  "pad2 n = (if n < 10 then ''0'' @ show_nat n else show_nat n)"

fun read_nat :: "nat \<Rightarrow> string \<Rightarrow> nat" where
  "read_nat acc [] = acc"
| "read_nat acc (c # cs) = read_nat (10 * acc + (ord_of c - 48)) cs"

lemma read_nat_append: "read_nat acc (xs @ ys) = read_nat (read_nat acc xs) ys"
  by (induction xs arbitrary: acc) auto

lemma read_show_nat: "read_nat 0 (show_nat n) = n"
proof (induction n rule: show_nat.induct)
  case (1 n)
  show ?case
  proof (cases "n < 10")
    case True
    then show ?thesis by (subst show_nat.simps) (simp add: ord_of_char_of)
  next
    case False
    have "n mod 10 < 10" by simp
    with False 1 show ?thesis
      by (subst show_nat.simps) (simp add: ord_of_char_of read_nat_append)
  qed
qed

lemma show_nat_inject: "show_nat m = show_nat n \<longleftrightarrow> m = n"
  by (metis read_show_nat)

lemma show_u32_inject: "show_u32 v = show_u32 w \<longleftrightarrow> v = w"
  by (metis show_u32_def show_nat_inject word_eq_iff_unsigned)

lemma length_show_nat1: "n < 10 \<Longrightarrow> length (show_nat n) = 1"
  by (subst show_nat.simps) simp

lemma length_show_nat_step: "10 \<le> n \<Longrightarrow> length (show_nat n) = Suc (length (show_nat (n div 10)))"
  by (subst show_nat.simps) simp

lemma length_pad2: "n < 100 \<Longrightarrow> length (pad2 n) = 2"
  by (auto simp: pad2_def length_show_nat1 length_show_nat_step)

lemma length_show_nat4:
  assumes "1000 \<le> n" and "n < 10000"
  shows "length (show_nat n) = 4"
proof -
  have "10 \<le> n" "10 \<le> n div 10" "10 \<le> n div 10 div 10" "n div 10 div 10 div 10 < 10"
    using assms by simp_all
  then show ?thesis by (simp only: length_show_nat_step length_show_nat1)
qed

lemma length_show_nat_le: "n < 10 ^ k \<Longrightarrow> 0 < k \<Longrightarrow> length (show_nat n) \<le> k"
proof (induction k arbitrary: n)
  case 0
  then show ?case by simp
next
  case (Suc k)
  show ?case
  proof (cases "n < 10")
    case True
    then show ?thesis by (simp add: length_show_nat1)
  next
    case False
    then have "n div 10 < 10 ^ k" "0 < k" using Suc.prems by (auto intro: gr0I)
    with Suc.IH False show ?thesis by (simp add: length_show_nat_step)
  qed
qed

text \<open>A 32-bit integer, and one a little above, takes eleven characters at most.\<close>

lemma length_show_int_le:
  assumes "- (10 ^ 10) < i" and "i < 10 ^ 10"
  shows "length (show_int i) \<le> 11"
proof -
  have "nat (- i) < 10 ^ 10" "nat i < 10 ^ 10" using assms by simp_all
  then have "length (show_nat (nat (- i))) \<le> 10" "length (show_nat (nat i)) \<le> 10"
    by (simp_all only: length_show_nat_le zero_less_numeral)
  then show ?thesis by (simp add: show_int_def)
qed

section \<open>Lists\<close>

lemma takeWhile_dropWhile_hd:
  assumes "dropWhile P xs = y # ys"
  shows "xs = takeWhile P xs @ y # ys" and "\<not> P y"
proof -
  show "xs = takeWhile P xs @ y # ys" using assms by (metis takeWhile_dropWhile_id)
  show "\<not> P y" using assms by (metis dropWhile_eq_Cons_conv)
qed

lemma dropWhile_shorter: "dropWhile P xs = y # ys \<Longrightarrow> length ys < length xs"
  by (metis length_dropWhile_le length_Cons Suc_le_eq)

lemma drop_Suc_nth: "i < length xs \<Longrightarrow> drop i xs = xs ! i # drop (Suc i) xs"
  by (simp add: Cons_nth_drop_Suc)

lemma nth_append_fresh [simp]: "(xs @ [x]) ! length xs = x"
  by simp

end
