(* ===== verification/Util.thy ===== *)
theory Util
  imports ZPrelude
begin

text \<open>
  \<^verbatim>\<open>server/util.h\<close> and \<^verbatim>\<open>server/util.cpp\<close>: lower-casing and the fiber id the log lines
  carry. \<^verbatim>\<open>GetThreadId\<close> is a system call; its value is part of the environment of the
  components that use it.
\<close>

definition to_lower :: "string \<Rightarrow> string" where
  "to_lower str = map tolower str"

text \<open>\<^verbatim>\<open>util.cpp\<close> answers 0 for every caller, whatever fiber is running.\<close>

definition GetFiberId :: u32 where
  "GetFiberId = 0"

lemma length_to_lower [simp]: "length (to_lower s) = length s"
  by (simp add: to_lower_def)

lemma to_lower_append: "to_lower (s @ t) = to_lower s @ to_lower t"
  by (simp add: to_lower_def)

lemma to_lower_no_upper: "c \<in> set (to_lower s) \<Longrightarrow> \<not> isupper c"
  by (auto simp: to_lower_def)

lemma to_lower_fixed: "(\<And>c. c \<in> set s \<Longrightarrow> \<not> isupper c) \<Longrightarrow> to_lower s = s"
  by (simp add: to_lower_def tolower_id map_idI)

lemma to_lower_idem: "to_lower (to_lower s) = to_lower s"
  by (rule to_lower_fixed) (rule to_lower_no_upper)

end
