(* ===== verification/LogLevel.thy ===== *)
theory LogLevel
  imports Util
begin

text \<open>
  \<^verbatim>\<open>class LogLevel\<close> of \<^verbatim>\<open>server/log.h\<close>: the levels in their numeric order, their printed
  names and the parser of the (lower-case) names in configuration files.
\<close>

datatype level = UNKNOW | DEBUG | INFO | WARN | ERROR | FATAL

fun level_num :: "level \<Rightarrow> nat" where
  "level_num UNKNOW = 0"
| "level_num DEBUG = 1"
| "level_num INFO = 2"
| "level_num WARN = 3"
| "level_num ERROR = 4"
| "level_num FATAL = 5"

lemma level_num_inject: "level_num a = level_num b \<longleftrightarrow> a = b"
  by (cases a; cases b) auto

text \<open>The comparisons of the code compare the enumerators' numbers.\<close>

instantiation level :: linorder
begin

definition less_eq_level :: "level \<Rightarrow> level \<Rightarrow> bool" where
  "a \<le> b \<longleftrightarrow> level_num a \<le> level_num b"

definition less_level :: "level \<Rightarrow> level \<Rightarrow> bool" where
  "a < b \<longleftrightarrow> level_num a < level_num b"

instance
  by standard (auto simp: less_eq_level_def less_level_def level_num_inject)

end

definition ToString :: "level \<Rightarrow> string" where
  "ToString l = (case l of
      DEBUG \<Rightarrow> ''DEBUG''
    | INFO \<Rightarrow> ''INFO''
    | WARN \<Rightarrow> ''WARN''
    | ERROR \<Rightarrow> ''ERROR''
    | FATAL \<Rightarrow> ''FATAL''
    | UNKNOW \<Rightarrow> ''UNKNOWN'')"

definition FromString :: "string \<Rightarrow> level" where
  "FromString str =
     (if str = ''debug'' then DEBUG
      else if str = ''info'' then INFO
      else if str = ''warn'' then WARN
      else if str = ''error'' then ERROR
      else if str = ''fatal'' then FATAL
      else UNKNOW)"

lemma UNKNOW_least [simp]: "UNKNOW \<le> l"
  by (simp add: less_eq_level_def)

lemma FATAL_greatest [simp]: "l \<le> FATAL"
  by (cases l) (simp_all add: less_eq_level_def)

lemma level_le_code: "a \<le> b \<longleftrightarrow> level_num a \<le> level_num b" for a b :: level
  by (simp add: less_eq_level_def)

lemma level_less_code: "a < b \<longleftrightarrow> level_num a < level_num b" for a b :: level
  by (simp add: less_level_def)

lemmas level_order = level_le_code level_less_code

lemma to_lower_ToString:
  "to_lower (ToString l) = (case l of DEBUG \<Rightarrow> ''debug'' | INFO \<Rightarrow> ''info'' | WARN \<Rightarrow> ''warn''
     | ERROR \<Rightarrow> ''error'' | FATAL \<Rightarrow> ''fatal'' | UNKNOW \<Rightarrow> ''unknown'')"
  by (induct l) code_simp+

text \<open>
  C1 (LogLevel). Printing a level, lower-casing it and parsing it back gives the level again,
  for all six levels, and the parser accepts exactly the lower-cased names of the five real
  levels: a name it maps to a real level prints back as itself.
\<close>

theorem level_roundtrip:
  "FromString (to_lower (ToString l)) = l \<and>
   (FromString s = UNKNOW \<or> to_lower (ToString (FromString s)) = s)"
  by (cases l) (simp_all add: to_lower_ToString FromString_def)

end
