(* ===== verification/LogEvent.thy ===== *)
theory LogEvent
  imports LogLevel
begin

text \<open>
  \<^verbatim>\<open>class LogEvent\<close> of \<^verbatim>\<open>server/log.h\<close>: one log statement in the making, with the place it
  comes from and the stream its text is collected in. File names are the non-null string
  literals of \<^verbatim>\<open>__FILE__\<close>.
\<close>

record event =
  ev_file :: string
  ev_line :: i32
  ev_elapse :: u32
  ev_threadId :: u32
  ev_fiberId :: u32
  ev_time :: u64
  ev_ss :: string
  ev_level :: level

text \<open>The constructor does not use its \<open>content\<close> argument.\<close>

definition LogEvent ::
  "string \<Rightarrow> i32 \<Rightarrow> u32 \<Rightarrow> u32 \<Rightarrow> u32 \<Rightarrow> u64 \<Rightarrow> string \<Rightarrow> level \<Rightarrow> event" where
  "LogEvent file line elapse threadId fiberId tm content lv =
     \<lparr>ev_file = file, ev_line = line, ev_elapse = elapse, ev_threadId = threadId,
      ev_fiberId = fiberId, ev_time = tm, ev_ss = [], ev_level = lv\<rparr>"

text \<open>\<^verbatim>\<open>getSS() << str\<close>.\<close>

definition stream_out :: "string \<Rightarrow> event \<Rightarrow> event" where
  "stream_out str ev = ev\<lparr>ev_ss := ev_ss ev @ str\<rparr>"

definition getContent :: "event \<Rightarrow> string" where
  "getContent ev = ev_ss ev"

lemma getContent_LogEvent: "getContent (LogEvent f l e t fb tm c lv) = []"
  by (simp add: getContent_def LogEvent_def)

lemma getContent_stream_out [simp]: "getContent (stream_out s ev) = getContent ev @ s"
  by (simp add: getContent_def stream_out_def)

lemma stream_out_fields [simp]:
  "ev_file (stream_out s ev) = ev_file ev"
  "ev_line (stream_out s ev) = ev_line ev"
  "ev_elapse (stream_out s ev) = ev_elapse ev"
  "ev_threadId (stream_out s ev) = ev_threadId ev"
  "ev_fiberId (stream_out s ev) = ev_fiberId ev"
  "ev_time (stream_out s ev) = ev_time ev"
  "ev_level (stream_out s ev) = ev_level ev"
  by (simp_all add: stream_out_def)

end
