(* ===== verification/LogFormatter.thy ===== *)
theory LogFormatter
  imports LogEvent
begin

text \<open>
  \<^verbatim>\<open>class LogFormatter\<close> and its format items (\<^verbatim>\<open>server/log.h\<close>, \<^verbatim>\<open>server/log.cpp\<close>): the parser
  of the pattern language (\<^verbatim>\<open>init\<close>), written with the code's indices, and the printer. A list
  function over the rest of the pattern, with no index, serves as the specification of the
  parser; patterns built from pieces give its round trip.
\<close>

section \<open>Time\<close>

text \<open>
  \<^verbatim>\<open>struct tm\<close>, the fields the default format uses; the month counts from 0, the year is the
  calendar year (1900 more than the field of the structure) and may be negative, since an event
  time above the largest \<^verbatim>\<open>time_t\<close> wraps. A year is printed as glibc does it, without leading zeros.
\<close>

record tm =
  tm_year :: int
  tm_mon :: nat
  tm_mday :: nat
  tm_hour :: nat
  tm_min :: nat
  tm_sec :: nat

text \<open>
  What the formatter takes from outside: the time zone (\<^verbatim>\<open>localtime_r\<close>, which leaves an
  indeterminate \<^verbatim>\<open>tm\<close> when it fails, so nothing is assumed of its result), the locale-dependent
  conversions of \<^verbatim>\<open>strftime\<close> (used only for formats with a conversion other than the six
  numeric ones below), and the bytes an uninitialised 64-byte buffer happens to hold.
\<close>

record time_env =
  e_localtime :: "u64 \<Rightarrow> tm"
  e_strftime :: "string \<Rightarrow> tm \<Rightarrow> string"
  e_stale :: string

definition simple_convs :: string where
  "simple_convs = ''YmdHMS%''"

fun simple_fmt :: "string \<Rightarrow> bool" where
  "simple_fmt [] = True"
| "simple_fmt (c # cs) =
     (if c \<noteq> CHR ''%'' then simple_fmt cs
      else (case cs of [] \<Rightarrow> False | d # ds \<Rightarrow> d \<in> set simple_convs \<and> simple_fmt ds))"

definition strftime_conv :: "char \<Rightarrow> tm \<Rightarrow> string" where
  "strftime_conv c t =
     (if c = CHR ''Y'' then show_int (tm_year t)
      else if c = CHR ''m'' then pad2 (tm_mon t + 1)
      else if c = CHR ''d'' then pad2 (tm_mday t)
      else if c = CHR ''H'' then pad2 (tm_hour t)
      else if c = CHR ''M'' then pad2 (tm_min t)
      else if c = CHR ''S'' then pad2 (tm_sec t)
      else [c])"

fun strftime_simple :: "string \<Rightarrow> tm \<Rightarrow> string" where
  "strftime_simple [] t = []"
| "strftime_simple (c # cs) t =
     (if c \<noteq> CHR ''%'' then c # strftime_simple cs t
      else (case cs of [] \<Rightarrow> [c] | d # ds \<Rightarrow> strftime_conv d t @ strftime_simple ds t))"

text \<open>
  \<^verbatim>\<open>char buf[64]; strftime(buf, sizeof(buf), ...); os << buf\<close>: a result that does not fit with
  its terminating zero leaves the buffer indeterminate.
\<close>

definition time_text :: "'a time_env_scheme \<Rightarrow> string \<Rightarrow> tm \<Rightarrow> string" where
  "time_text E fmt t =
     (let r = (if simple_fmt fmt then strftime_simple fmt t else e_strftime E fmt t)
      in if length r + 1 \<le> 64 then r else e_stale E)"

definition default_time_format :: string where
  "default_time_format = ''%Y-%m-%d %H:%M:%S''"

section \<open>Format items\<close>

datatype format_item =
    MessageFormatItem
  | LevelFormatItem
  | ElapsedFormatItem
  | NameFormatItem
  | ThreadIdFormatItem
  | FiberIdFormatItem
  | TimeFormatItem string
  | FilenameFormatItem
  | LineFormatItem
  | StringFormatItem string
  | NewLineFormatItem
  | TabFormatItem

text \<open>The constructor of \<^verbatim>\<open>TimeFormatItem\<close>: an empty format is the default one.\<close>

definition mk_TimeFormatItem :: "string \<Rightarrow> format_item" where
  "mk_TimeFormatItem fmt = TimeFormatItem (if fmt = [] then default_time_format else fmt)"

text \<open>The \<^verbatim>\<open>format\<close> methods; \<open>name\<close> is the logger's name, \<open>lv\<close> the level passed along.\<close>

fun item_format :: "'a time_env_scheme \<Rightarrow> string \<Rightarrow> level \<Rightarrow> event \<Rightarrow> format_item \<Rightarrow> string" where
  "item_format E name lv ev MessageFormatItem = getContent ev"
| "item_format E name lv ev LevelFormatItem = ToString lv"
| "item_format E name lv ev ElapsedFormatItem = show_u32 (ev_elapse ev)"
| "item_format E name lv ev NameFormatItem = name"
| "item_format E name lv ev ThreadIdFormatItem = show_u32 (ev_threadId ev)"
| "item_format E name lv ev FiberIdFormatItem = show_u32 (ev_fiberId ev)"
| "item_format E name lv ev (TimeFormatItem fmt) = time_text E fmt (e_localtime E (ev_time ev))"
| "item_format E name lv ev FilenameFormatItem = ev_file ev"
| "item_format E name lv ev LineFormatItem = show_i32 (ev_line ev)"
| "item_format E name lv ev (StringFormatItem str) = str"
| "item_format E name lv ev NewLineFormatItem = ''\<newline>''"
| "item_format E name lv ev TabFormatItem = [CHR 0x09]"

text \<open>The table \<^verbatim>\<open>s_format_items\<close>: field name to item constructor.\<close>

definition s_format_items :: "string \<Rightarrow> (string \<Rightarrow> format_item) option" where
  "s_format_items key =
     (if key = ''m'' then Some (\<lambda>fmt. MessageFormatItem)
      else if key = ''p'' then Some (\<lambda>fmt. LevelFormatItem)
      else if key = ''r'' then Some (\<lambda>fmt. ElapsedFormatItem)
      else if key = ''c'' then Some (\<lambda>fmt. NameFormatItem)
      else if key = ''t'' then Some (\<lambda>fmt. ThreadIdFormatItem)
      else if key = ''n'' then Some (\<lambda>fmt. NewLineFormatItem)
      else if key = ''d'' then Some mk_TimeFormatItem
      else if key = ''f'' then Some (\<lambda>fmt. FilenameFormatItem)
      else if key = ''l'' then Some (\<lambda>fmt. LineFormatItem)
      else if key = ''T'' then Some (\<lambda>fmt. TabFormatItem)
      else if key = ''F'' then Some (\<lambda>fmt. FiberIdFormatItem)
      else None)"

section \<open>The pattern parser\<close>

text \<open>The triples (text or field name, format argument, kind) of the first pass.\<close>

type_synonym token = "string \<times> string \<times> nat"

text \<open>
  The inner loop: from position \<open>j\<close> behind the \<^verbatim>\<open>%\<close> at \<open>i\<close>, with \<open>fmt_status\<close>,
  \<open>fmt_begin\<close> and \<open>field_str\<close>; the result is (\<open>j\<close>, \<open>fmt_status\<close>, \<open>field_str\<close>, \<open>fmt\<close>) at
  its end. Opening a brace does not advance \<open>j\<close>.
\<close>

function scan_field ::
  "string \<Rightarrow> nat \<Rightarrow> nat \<Rightarrow> nat \<Rightarrow> nat \<Rightarrow> string \<Rightarrow> nat \<times> nat \<times> string \<times> string" where
  "scan_field p i j fmt_status fmt_begin field_str =
     (if j < length p then
        if fmt_status = 0 \<and> \<not> isalpha (p ! j) \<and> p ! j \<noteq> CHR ''{'' \<and> p ! j \<noteq> CHR ''}'' then
          (j - 1, fmt_status, substr p (i + 1) (j - i - 1), [])
        else if fmt_status = 0 \<and> p ! j = CHR ''{'' then
          scan_field p i j 1 (j + 1) (substr p (i + 1) (j - i - 1))
        else if fmt_status = 1 \<and> p ! j = CHR ''}'' then
          (j, 2, field_str, substr p fmt_begin (j - fmt_begin))
        else scan_field p i (j + 1) fmt_status fmt_begin field_str
      else (j, fmt_status, field_str, []))"
  by pat_completeness auto
termination
  by (relation "measures [\<lambda>(p, i, j, st, fb, fs). length p - j, \<lambda>(p, i, j, st, fb, fs). 1 - st]")
    auto

declare scan_field.simps [simp del]

lemma scan_field_ge:
  "i < j \<Longrightarrow> i \<le> fst (scan_field p i j st fb fs)"
proof (induction p i j st fb fs rule: scan_field.induct)
  case (1 p i j st fb fs)
  then show ?case by (subst scan_field.simps) auto
qed

lemma scan_field_geD: "scan_field p i (Suc i) st fb fs = (j, rest) \<Longrightarrow> i \<le> j"
  using scan_field_ge [of i "Suc i" p st fb fs] by simp

text \<open>
  The outer loop, from position \<open>i\<close> with the literal text collected so far; the last component
  collects the diagnostics written to the standard output. Literal text that is still pending
  when the pattern ends is not pushed.
\<close>

function init_loop ::
  "string \<Rightarrow> nat \<Rightarrow> string \<Rightarrow> token list \<Rightarrow> string list \<Rightarrow> token list \<times> string list" where
  "init_loop p i literal_str vec diag =
     (if i < length p then
        if p ! i \<noteq> CHR ''%'' then
          init_loop p (i + 1) (literal_str @ [p ! i]) vec diag
        else if i + 1 < length p \<and> p ! (i + 1) = CHR ''%'' then
          init_loop p (i + 1) (literal_str @ ''%'') vec diag
        else
          (case scan_field p i (i + 1) 0 0 [] of
             (j, fmt_status, field0, fmt) \<Rightarrow>
               let field_str = (if j = length p \<and> j - i - 1 > 0
                                then substr p (i + 1) (j - i - 1) else field0);
                   vec' = (if literal_str \<noteq> [] then vec @ [(literal_str, [], 0)] else vec)
               in if fmt_status = 1 then
                    init_loop p (j + 1) [] (vec' @ [(''<<pattern_error>>'', fmt, 0)])
                      (diag @ [''pattern parse error: '' @ p @ '' - '' @ drop i p @ ''\<newline>''])
                  else init_loop p (j + 1) [] (vec' @ [(field_str, fmt, 1)]) diag)
      else (vec, diag))"
  by pat_completeness auto
termination
  by (relation "measure (\<lambda>(p, i, l, v, d). length p - i)")
    (auto dest!: sym [of _ "scan_field _ _ _ _ _ _"] scan_field_geD)

declare init_loop.simps [simp del]

definition parse_pattern :: "string \<Rightarrow> token list \<times> string list" where
  "parse_pattern p = init_loop p 0 [] [] []"

text \<open>The second pass: one item per triple.\<close>

definition item_of_token :: "token \<Rightarrow> format_item" where
  "item_of_token t = (case t of (str, fmt, typ) \<Rightarrow>
     if typ = 0 then StringFormatItem str
     else (case s_format_items str of
             None \<Rightarrow> StringFormatItem (''<<error_format %'' @ str @ ''>>'')
           | Some mk \<Rightarrow> mk fmt))"

section \<open>The formatter object\<close>

text \<open>The default argument of the constructors of \<^verbatim>\<open>Logger\<close> and of \<^verbatim>\<open>createLogger\<close>.\<close>

definition default_pattern :: string where
  "default_pattern = ''%d{%Y-%m-%d %H:%M:%S}%T%t%T%F%T[%p]%T[%c]%T%f:%l%T%m''"

record formatter =
  f_pattern :: string
  f_items :: "format_item list"

text \<open>
  \<^verbatim>\<open>init\<close> appends the items of the pattern to \<^verbatim>\<open>m_items\<close>; the second component is what it
  prints on the standard output.
\<close>

definition formatter_init :: "formatter \<Rightarrow> formatter \<times> string list" where
  "formatter_init f =
     (case parse_pattern (f_pattern f) of
        (vec, diag) \<Rightarrow> (f\<lparr>f_items := f_items f @ map item_of_token vec\<rparr>, diag))"

definition LogFormatter :: "string \<Rightarrow> formatter \<times> string list" where
  "LogFormatter pattern = formatter_init \<lparr>f_pattern = pattern, f_items = []\<rparr>"

definition setPattern :: "string \<Rightarrow> formatter \<Rightarrow> formatter \<times> string list" where
  "setPattern pattern f = formatter_init (f\<lparr>f_pattern := pattern\<rparr>)"

definition formatter_format :: "'a time_env_scheme \<Rightarrow> formatter \<Rightarrow> string \<Rightarrow> level \<Rightarrow> event \<Rightarrow> string" where
  "formatter_format E f name lv ev = concat (map (item_format E name lv ev) (f_items f))"

end
