(* ===== verification/OrderedMap.thy ===== *)
theory OrderedMap
  imports ZPrelude
begin

text \<open>
  The standard containers the code keeps its state in: \<^verbatim>\<open>std::map\<close> (the loggers, the registered
  configuration variables, the listeners) as an association list in key order, which is also the
  order a range-for over it visits, and \<^verbatim>\<open>std::set\<close> with a user-defined \<^verbatim>\<open>operator<\<close> as the list
  of its elements in that order. The interface the clients rely on is a locale; the laws are
  proved once for the model.
\<close>

section \<open>std::map\<close>

type_synonym ('k, 'v) smap = "('k \<times> 'v) list"

text \<open>\<^verbatim>\<open>m[k] = v\<close>: overwrite the entry of the key, or insert one at its place.\<close>

fun smap_set :: "'k::linorder \<Rightarrow> 'v \<Rightarrow> ('k, 'v) smap \<Rightarrow> ('k, 'v) smap" where
  "smap_set k v [] = [(k, v)]"
| "smap_set k v (e # m) =
     (if k = fst e then (k, v) # m
      else if fst e < k then e # smap_set k v m
      else (k, v) # e # m)"

text \<open>\<^verbatim>\<open>m.erase(k)\<close>, \<^verbatim>\<open>m.find(k)\<close>.\<close>

fun smap_erase :: "'k \<Rightarrow> ('k, 'v) smap \<Rightarrow> ('k, 'v) smap" where
  "smap_erase k [] = []"
| "smap_erase k (e # m) = (if fst e = k then m else e # smap_erase k m)"

fun smap_find :: "('k, 'v) smap \<Rightarrow> 'k \<Rightarrow> 'v option" where
  "smap_find [] k = None"
| "smap_find (e # m) k = (if fst e = k then Some (snd e) else smap_find m k)"

definition smap_ok :: "('k::linorder, 'v) smap \<Rightarrow> bool" where
  "smap_ok m \<longleftrightarrow> sorted_wrt (<) (map fst m)"

lemma smap_find_eq_map_of: "smap_find m k = map_of m k"
  by (induction m) auto

lemma smap_find_None: "smap_find m k = None \<longleftrightarrow> k \<notin> fst ` set m"
  by (simp add: smap_find_eq_map_of map_of_eq_None_iff)

lemma smap_find_in: "smap_find m k = Some v \<Longrightarrow> (k, v) \<in> set m"
  by (simp add: smap_find_eq_map_of map_of_SomeD)

lemma smap_keys_set: "fst ` set (smap_set k v m) = insert k (fst ` set m)"
  by (induction m) auto

lemma smap_set_elem: "(k', w) \<in> set (smap_set k v m) \<Longrightarrow> (k', w) = (k, v) \<or> (k', w) \<in> set m"
  by (induction m) (auto split: if_splits)

lemma smap_erase_subset: "set (smap_erase k m) \<subseteq> set m"
  by (induction m) auto

lemma smap_find_set: "smap_find (smap_set k v m) j = (if j = k then Some v else smap_find m j)"
  by (induction m) auto

lemma smap_find_erase:
  "smap_ok m \<Longrightarrow> smap_find (smap_erase k m) j = (if j = k then None else smap_find m j)"
proof (induction m)
  case Nil
  show ?case by simp
next
  case (Cons e m)
  then have "smap_ok m" and "fst e \<notin> fst ` set m"
    by (auto simp: smap_ok_def)
  with Cons.IH show ?case by (auto simp: smap_find_None [THEN iffD2])
qed

lemma smap_ok_Nil: "smap_ok []"
  by (simp add: smap_ok_def)

lemma smap_ok_set: "smap_ok m \<Longrightarrow> smap_ok (smap_set k v m)"
proof (induction m)
  case Nil
  show ?case by (simp add: smap_ok_def)
next
  case (Cons e m)
  then have ok: "smap_ok m" and above: "\<forall>j \<in> fst ` set m. fst e < j"
    by (auto simp: smap_ok_def)
  from Cons.IH ok have "smap_ok (smap_set k v m)" by simp
  moreover have "fst e < k \<Longrightarrow> \<forall>j \<in> fst ` set (smap_set k v m). fst e < j"
    using above by (auto simp only: smap_keys_set)
  ultimately show ?case using ok above
    by (force simp: smap_ok_def)
qed

lemma smap_ok_erase: "smap_ok m \<Longrightarrow> smap_ok (smap_erase k m)"
proof (induction m)
  case Nil
  show ?case by (simp add: smap_ok_Nil)
next
  case (Cons e m)
  then show ?case
    using smap_erase_subset [of k m] by (auto simp: smap_ok_def)
qed

lemma smap_keys_distinct: "smap_ok m \<Longrightarrow> distinct (map fst m)"
  by (simp add: smap_ok_def strict_sorted_iff)

lemma smap_find_of_in: "smap_ok m \<Longrightarrow> (k, v) \<in> set m \<Longrightarrow> smap_find m k = Some v"
  by (simp add: smap_find_eq_map_of smap_keys_distinct)

section \<open>The map interface\<close>

locale std_map =
  fixes lookup :: "'m \<Rightarrow> 'k \<Rightarrow> 'v option"
    and assign :: "'k \<Rightarrow> 'v \<Rightarrow> 'm \<Rightarrow> 'm"
    and erase :: "'k \<Rightarrow> 'm \<Rightarrow> 'm"
    and emp :: 'm
    and inv :: "'m \<Rightarrow> bool"
  assumes lookup_emp: "lookup emp k = None"
    and lookup_assign: "inv m \<Longrightarrow> lookup (assign k v m) j = (if j = k then Some v else lookup m j)"
    and lookup_erase: "inv m \<Longrightarrow> lookup (erase k m) j = (if j = k then None else lookup m j)"
    and inv_emp: "inv emp"
    and inv_assign: "inv m \<Longrightarrow> inv (assign k v m)"
    and inv_erase: "inv m \<Longrightarrow> inv (erase k m)"
begin

lemmas map_laws = lookup_emp lookup_assign lookup_erase inv_emp inv_assign inv_erase

lemma dom_assign: "inv m \<Longrightarrow> dom (lookup (assign k v m)) = insert k (dom (lookup m))"
  by (auto simp: lookup_assign split: if_splits)

lemma dom_erase: "inv m \<Longrightarrow> dom (lookup (erase k m)) = dom (lookup m) - {k}"
  by (auto simp: lookup_erase split: if_splits)

lemma assign_fold_inv: "inv m \<Longrightarrow> inv (fold (\<lambda>(k, v). assign k v) es m)"
  by (induction es arbitrary: m) (auto simp: inv_assign)

text \<open>Filling a map from a list of pairs: the last pair of a key wins.\<close>

lemma lookup_fold_assign:
  "inv m \<Longrightarrow> lookup (fold (\<lambda>(k, v). assign k v) es m) j =
     (case map_of (rev es) j of None \<Rightarrow> lookup m j | Some v \<Rightarrow> Some v)"
proof (induction es arbitrary: m)
  case Nil
  then show ?case by simp
next
  case (Cons e es)
  obtain k v where e: "e = (k, v)" by (cases e)
  have "lookup (fold (\<lambda>(k, v). assign k v) (e # es) m) j =
        (case map_of (rev es) j of None \<Rightarrow> lookup (assign k v m) j | Some v \<Rightarrow> Some v)"
    using Cons e by (simp add: inv_assign)
  then show ?case
    using Cons.prems e by (auto simp: lookup_assign map_add_def split: option.splits)
qed

lemma erase_fold_inv: "inv m \<Longrightarrow> inv (fold erase ks m)"
  by (induction ks arbitrary: m) (auto simp: inv_erase)

lemma lookup_fold_erase:
  "inv m \<Longrightarrow> lookup (fold erase ks m) j = (if j \<in> set ks then None else lookup m j)"
  by (induction ks arbitrary: m) (auto simp: lookup_erase inv_erase)

end

interpretation smap: std_map smap_find smap_set smap_erase "[]" smap_ok
  by unfold_locales
    (simp_all add: smap_find_set smap_find_erase smap_ok_set smap_ok_erase smap_ok_Nil)

section \<open>std::set under a strict weak order\<close>

text \<open>
  \<^verbatim>\<open>s.insert(x)\<close>: nothing happens when the set already has an element equivalent to \<open>x\<close>
  (neither is less than the other), else \<open>x\<close> goes to its place.
\<close>

fun sset_insert :: "('a \<Rightarrow> 'a \<Rightarrow> bool) \<Rightarrow> 'a \<Rightarrow> 'a list \<Rightarrow> 'a list" where
  "sset_insert lt x [] = [x]"
| "sset_insert lt x (y # ys) =
     (if lt y x then y # sset_insert lt x ys
      else if lt x y then x # y # ys
      else y # ys)"

locale weak_order =
  fixes lt :: "'a \<Rightarrow> 'a \<Rightarrow> bool"
  assumes irrefl: "\<not> lt x x"
    and trans: "lt x y \<Longrightarrow> lt y z \<Longrightarrow> lt x z"
    and neg_trans: "\<not> lt x y \<Longrightarrow> \<not> lt y z \<Longrightarrow> \<not> lt x z"
begin

definition equiv :: "'a \<Rightarrow> 'a \<Rightarrow> bool" where
  "equiv x y \<longleftrightarrow> \<not> lt x y \<and> \<not> lt y x"

lemma insert_subset: "set (sset_insert lt x ys) \<subseteq> insert x (set ys)"
  by (induction ys) auto

lemma insert_keeps: "set ys \<subseteq> set (sset_insert lt x ys)"
  by (induction ys) auto

lemma insert_sorted: "sorted_wrt lt ys \<Longrightarrow> sorted_wrt lt (sset_insert lt x ys)"
proof (induction ys)
  case Nil
  show ?case by simp
next
  case (Cons y ys)
  then show ?case
    using insert_subset [of x ys] by (auto intro: trans)
qed

text \<open>After an insertion the set holds exactly one element equivalent to the inserted one.\<close>

lemma insert_has_equiv: "\<exists>y \<in> set (sset_insert lt x ys). equiv x y"
  by (induction ys) (auto simp: equiv_def irrefl)

lemma sorted_equiv_unique:
  assumes "sorted_wrt lt ys" and "y \<in> set ys" and "z \<in> set ys" and "equiv y z"
  shows "y = z"
  using assms
proof (induction ys)
  case Nil
  then show ?case by simp
next
  case (Cons a ys)
  then show ?case by (auto simp: equiv_def)
qed

text \<open>An element equivalent to one already there is dropped: the first one wins.\<close>

lemma insert_present:
  assumes "sorted_wrt lt ys" and "y \<in> set ys" and "equiv x y"
  shows "sset_insert lt x ys = ys"
  using assms
proof (induction ys)
  case Nil
  then show ?case by simp
next
  case (Cons a ys)
  show ?case
  proof (cases "y = a")
    case True
    with Cons.prems(3) show ?thesis by (simp add: equiv_def)
  next
    case False
    with Cons.prems have y: "y \<in> set ys" "lt a y" by auto
    have "lt a x"
      using y(2) Cons.prems(3) neg_trans [of a x y] by (auto simp: equiv_def)
    with Cons y(1) show ?thesis by simp
  qed
qed

lemma fold_insert_sorted: "sorted_wrt lt ys \<Longrightarrow> sorted_wrt lt (fold (sset_insert lt) xs ys)"
  by (induction xs arbitrary: ys) (auto simp: insert_sorted)

text \<open>Inserting the elements of a set in its own order gives it back.\<close>

lemma insert_above: "\<forall>y \<in> set ys. lt y x \<Longrightarrow> sset_insert lt x ys = ys @ [x]"
  by (induction ys) auto

lemma fold_insert_rebuild:
  "sorted_wrt lt (ys @ xs) \<Longrightarrow> fold (sset_insert lt) xs ys = ys @ xs"
proof (induction xs arbitrary: ys)
  case Nil
  then show ?case by simp
next
  case (Cons x xs)
  have "sset_insert lt x ys = ys @ [x]"
    using Cons.prems by (intro insert_above) (auto simp: sorted_wrt_append)
  moreover have "sorted_wrt lt ((ys @ [x]) @ xs)" using Cons.prems by simp
  ultimately show ?case using Cons.IH [of "ys @ [x]"] by simp
qed

end

end
