(* ===== verification/LogSystem.thy ===== *)
theory LogSystem
  imports LogFormatter OrderedMap
begin

text \<open>
  Loggers and appenders (\<^verbatim>\<open>server/log.h\<close>, \<^verbatim>\<open>server/log.cpp\<close>). Loggers and appenders are shared
  objects, so they live in a store and are referred to by their index in it; a formatter is
  kept by value, a null pointer being \<open>None\<close>: the library replaces the pointer and never changes an
  installed formatter. (A client could, by \<^verbatim>\<open>setPattern\<close> on what \<^verbatim>\<open>getFormatter\<close> returns; this is not
  modelled.) An appender that nobody refers to any more stays in the store; its destructor, which
  closes the file, is left out. What the program does to the outside is the trace \<open>s_out\<close>.
\<close>

section \<open>The outside world\<close>

datatype effect =
    Cout string
  | FOpen string
  | FClose string
  | FWrite string string
  | FFlush string

text \<open>
  The environment: the thread id, the clock, whether a file can be opened and written (all may
  depend on what has happened so far), the \<^verbatim>\<open>__FILE__\<close> of the sources that log, and the reference count
  of a logger, which one log line prints.
\<close>

record env = time_env +
  e_tid :: u32
  e_clock :: "effect list \<Rightarrow> u64"
  e_can_open :: "effect list \<Rightarrow> string \<Rightarrow> bool"
  e_can_write :: "effect list \<Rightarrow> string \<Rightarrow> bool"
  e_log_cpp :: string
  e_config_h :: string
  e_config_cpp :: string
  e_use_count :: "effect list \<Rightarrow> nat \<Rightarrow> nat"

section \<open>State\<close>

text \<open>\<^verbatim>\<open>std::ofstream\<close>: the file it has open, and its failure bits.\<close>

record fstream =
  st_open :: "string option"
  st_fail :: bool

datatype akind = StdoutKind | FileKind string fstream

record appender =
  a_level :: level
  a_formatter :: "formatter option"
  a_custom :: bool
  a_kind :: akind

record logger =
  l_name :: string
  l_level :: level
  l_appenders :: "nat list"
  l_formatter :: formatter
  l_root :: "nat option"

record sys =
  s_loggers :: "logger list"
  s_appenders :: "appender list"
  s_map :: "(string, nat) smap"
  s_root :: nat
  s_out :: "effect list"

definition emit :: "effect list \<Rightarrow> sys \<Rightarrow> sys" where
  "emit es s = s\<lparr>s_out := s_out s @ es\<rparr>"

definition upd_appender :: "nat \<Rightarrow> (appender \<Rightarrow> appender) \<Rightarrow> sys \<Rightarrow> sys" where
  "upd_appender a f s = s\<lparr>s_appenders := (s_appenders s)[a := f (s_appenders s ! a)]\<rparr>"

definition upd_logger :: "nat \<Rightarrow> (logger \<Rightarrow> logger) \<Rightarrow> sys \<Rightarrow> sys" where
  "upd_logger l f s = s\<lparr>s_loggers := (s_loggers s)[l := f (s_loggers s ! l)]\<rparr>"

section \<open>Appenders\<close>

definition LogAppender :: "akind \<Rightarrow> appender" where
  "LogAppender k = \<lparr>a_level = DEBUG, a_formatter = None, a_custom = False, a_kind = k\<rparr>"

definition closed_stream :: fstream where
  "closed_stream = \<lparr>st_open = None, st_fail = False\<rparr>"

definition StdoutLogAppender :: appender where
  "StdoutLogAppender = LogAppender StdoutKind"

definition FileLogAppender :: "string \<Rightarrow> appender" where
  "FileLogAppender filepath = LogAppender (FileKind filepath closed_stream)"

definition new_appender :: "appender \<Rightarrow> sys \<Rightarrow> nat \<times> sys" where
  "new_appender ap s = (length (s_appenders s), s\<lparr>s_appenders := s_appenders s @ [ap]\<rparr>)"

definition getAppenderType :: "appender \<Rightarrow> string" where
  "getAppenderType ap = (case a_kind ap of StdoutKind \<Rightarrow> ''stdout'' | FileKind _ _ \<Rightarrow> ''file'')"

definition getFilepath :: "appender \<Rightarrow> string option" where
  "getFilepath ap = (case a_kind ap of StdoutKind \<Rightarrow> None | FileKind path _ \<Rightarrow> Some path)"

text \<open>\<^verbatim>\<open>setFilepath\<close> changes the name only; a stream that is open stays on its file.\<close>

definition setFilepath :: "string \<Rightarrow> appender \<Rightarrow> appender" where
  "setFilepath path ap =
     (case a_kind ap of StdoutKind \<Rightarrow> ap | FileKind _ st \<Rightarrow> ap\<lparr>a_kind := FileKind path st\<rparr>)"

definition is_open :: "appender \<Rightarrow> bool" where
  "is_open ap = (case a_kind ap of StdoutKind \<Rightarrow> False | FileKind _ st \<Rightarrow> st_open st \<noteq> None)"

text \<open>
  \<^verbatim>\<open>ofstream::close\<close> fails on a stream that is not open; \<^verbatim>\<open>ofstream::open\<close> fails on one that
  is, truncates the file where it succeeds, and clears the failure bits then.
\<close>

definition stream_close :: "fstream \<Rightarrow> fstream \<times> effect list" where
  "stream_close st = (case st_open st of
      None \<Rightarrow> (st\<lparr>st_fail := True\<rparr>, [])
    | Some p \<Rightarrow> (st\<lparr>st_open := None\<rparr>, [FClose p]))"

definition stream_open :: "env \<Rightarrow> effect list \<Rightarrow> string \<Rightarrow> fstream \<Rightarrow> fstream \<times> effect list" where
  "stream_open E h path st =
     (if st_open st = None \<and> e_can_open E h path
      then (\<lparr>st_open = Some path, st_fail = False\<rparr>, [FOpen path])
      else (st\<lparr>st_fail := True\<rparr>, []))"

definition stream_write :: "env \<Rightarrow> effect list \<Rightarrow> string \<Rightarrow> fstream \<Rightarrow> fstream \<times> effect list" where
  "stream_write E h txt st =
     (case st_open st of
        None \<Rightarrow> (st\<lparr>st_fail := True\<rparr>, [])
      | Some p \<Rightarrow>
          if st_fail st then (st, [])
          else if e_can_write E h p then (st, [FWrite p txt, FFlush p])
          else (st\<lparr>st_fail := True\<rparr>, []))"

text \<open>\<^verbatim>\<open>FileLogAppender::reopen\<close>, on the path and the stream; the last component is its result.\<close>

definition reopen_stream :: "env \<Rightarrow> effect list \<Rightarrow> string \<Rightarrow> fstream \<Rightarrow> fstream \<times> effect list \<times> bool" where
  "reopen_stream E h path st =
     (let (st1, e1) = (if \<not> st_fail st then stream_close st else (st, []));
          (st2, e2) = stream_open E (h @ e1) path st1
      in (st2, e1 @ e2, \<not> st_fail st2))"

definition reopen :: "env \<Rightarrow> nat \<Rightarrow> sys \<Rightarrow> sys \<times> bool" where
  "reopen E a s =
     (case a_kind (s_appenders s ! a) of
        StdoutKind \<Rightarrow> (s, True)
      | FileKind path st \<Rightarrow>
          (case reopen_stream E (s_out s) path st of
             (st', es, ok) \<Rightarrow> (emit es (upd_appender a (\<lambda>ap. ap\<lparr>a_kind := FileKind path st'\<rparr>) s), ok)))"

definition file_write :: "env \<Rightarrow> nat \<Rightarrow> string \<Rightarrow> sys \<Rightarrow> sys" where
  "file_write E a txt s =
     (case a_kind (s_appenders s ! a) of
        StdoutKind \<Rightarrow> s
      | FileKind path st \<Rightarrow>
          (case stream_write E (s_out s) txt st of
             (st', es) \<Rightarrow> emit es (upd_appender a (\<lambda>ap. ap\<lparr>a_kind := FileKind path st'\<rparr>) s)))"

text \<open>The setters of the appender objects, on the store; \<open>None\<close> is a null formatter.\<close>

definition appender_setFormatter :: "nat \<Rightarrow> formatter option \<Rightarrow> sys \<Rightarrow> sys" where
  "appender_setFormatter a val s = upd_appender a (\<lambda>ap. ap\<lparr>a_formatter := val\<rparr>) s"

definition appender_setLevel :: "nat \<Rightarrow> level \<Rightarrow> sys \<Rightarrow> sys" where
  "appender_setLevel a lv s = upd_appender a (\<lambda>ap. ap\<lparr>a_level := lv\<rparr>) s"

definition setHasCustomFormatter :: "nat \<Rightarrow> bool \<Rightarrow> sys \<Rightarrow> sys" where
  "setHasCustomFormatter a flag s = upd_appender a (\<lambda>ap. ap\<lparr>a_custom := flag\<rparr>) s"

text \<open>
  The virtual \<^verbatim>\<open>log\<close>: \<open>report\<close> is the statement \<^verbatim>\<open>ZNS_LOG_ERROR(ZNS_LOG_ROOT()) << msg\<close>, which
  logs to the root logger and so may come back here; \<open>l\<close> is the logger passed along. Using a
  null formatter is an error of its own.
\<close>

definition Stdout_log :: "env \<Rightarrow> level \<Rightarrow> event \<Rightarrow> nat \<Rightarrow> nat \<Rightarrow> sys \<Rightarrow> sys res" where
  "Stdout_log E lv ev l a s =
     (let ap = s_appenders s ! a
      in if a_level ap \<le> lv then
           (case a_formatter ap of
              None \<Rightarrow> Inl NullDeref
            | Some f \<Rightarrow> Inr (emit [Cout (formatter_format E f (l_name (s_loggers s ! l)) lv ev)] s))
         else Inr s)"

definition File_log ::
  "(string \<Rightarrow> sys \<Rightarrow> sys res) \<Rightarrow> env \<Rightarrow> level \<Rightarrow> event \<Rightarrow> nat \<Rightarrow> nat \<Rightarrow> sys \<Rightarrow> sys res" where
  "File_log report E lv ev l a s =
     (let ap = s_appenders s ! a
      in if a_level ap \<le> lv then
           (let s1 = (if is_open ap then s else fst (reopen E a s))
            in if is_open (s_appenders s1 ! a) then
                 (case a_formatter (s_appenders s1 ! a) of
                    None \<Rightarrow> Inl NullDeref
                  | Some f \<Rightarrow>
                      Inr (file_write E a (formatter_format E f (l_name (s_loggers s1 ! l)) lv ev) s1))
               else report (''Failed to open log file: '' @ (case getFilepath ap of None \<Rightarrow> [] | Some p \<Rightarrow> p)) s1)
         else Inr s)"

definition Appender_log ::
  "(string \<Rightarrow> sys \<Rightarrow> sys res) \<Rightarrow> env \<Rightarrow> level \<Rightarrow> event \<Rightarrow> nat \<Rightarrow> nat \<Rightarrow> sys \<Rightarrow> sys res" where
  "Appender_log report E lv ev l a s =
     (case a_kind (s_appenders s ! a) of
        StdoutKind \<Rightarrow> Stdout_log E lv ev l a s
      | FileKind _ _ \<Rightarrow> File_log report E lv ev l a s)"

section \<open>Loggers\<close>

text \<open>
  The macro \<^verbatim>\<open>ZNS_LOG_LEVEL(logger, level) << txt\<close>: the event is made and, when the temporary
  \<^verbatim>\<open>LogEventWrap\<close> is destroyed, ended with a newline and passed to \<^verbatim>\<open>Logger::log\<close>
  (\<open>do_log\<close>).
\<close>

definition LogEventWrap_done :: "(nat \<Rightarrow> level \<Rightarrow> event \<Rightarrow> sys \<Rightarrow> sys res) \<Rightarrow> nat \<Rightarrow> event \<Rightarrow> sys \<Rightarrow> sys res" where
  "LogEventWrap_done do_log l ev s =
     (let ev' = stream_out ''\<newline>'' ev in do_log l (ev_level ev') ev' s)"

definition ZNS_LOG ::
  "(nat \<Rightarrow> level \<Rightarrow> event \<Rightarrow> sys \<Rightarrow> sys res) \<Rightarrow> env \<Rightarrow> nat \<Rightarrow> level \<Rightarrow> string \<Rightarrow> i32 \<Rightarrow> string \<Rightarrow> sys \<Rightarrow> sys res"
where
  "ZNS_LOG do_log E l lv file line txt s =
     (if l_level (s_loggers s ! l) \<le> lv
      then LogEventWrap_done do_log l
             (stream_out txt (LogEvent file line 0 (e_tid E) GetFiberId (e_clock E (s_out s)) [] lv)) s
      else Inr s)"

text \<open>The finished event of such a statement.\<close>

definition zns_event :: "env \<Rightarrow> level \<Rightarrow> string \<Rightarrow> i32 \<Rightarrow> string \<Rightarrow> sys \<Rightarrow> event" where
  "zns_event E lv file line txt s =
     stream_out ''\<newline>''
       (stream_out txt (LogEvent file line 0 (e_tid E) GetFiberId (e_clock E (s_out s)) [] lv))"

lemma ZNS_LOG_eq:
  "ZNS_LOG do_log E l lv file line txt s =
     (if l_level (s_loggers s ! l) \<le> lv then do_log l lv (zns_event E lv file line txt s) s else Inr s)"
  by (simp add: ZNS_LOG_def LogEventWrap_done_def zns_event_def Let_def LogEvent_def)

text \<open>
  \<^verbatim>\<open>Logger::log\<close>. The first argument is how many nested calls of it the stack still has room
  for: an appender that cannot open its file logs to the root logger from inside the call.
\<close>

primrec Logger_log :: "nat \<Rightarrow> env \<Rightarrow> nat \<Rightarrow> level \<Rightarrow> event \<Rightarrow> sys \<Rightarrow> sys res" where
  "Logger_log 0 E = (\<lambda>l lv ev s. Inl StackOverflow)"
| "Logger_log (Suc d) E = (\<lambda>l lv ev s.
     if l_level (s_loggers s ! l) \<le> lv
     then fold_res
            (Appender_log
              (\<lambda>msg t. ZNS_LOG (Logger_log d E) E (s_root t) ERROR (e_log_cpp E) 296 msg t)
              E lv ev l)
            (l_appenders (s_loggers s ! l)) s
     else Inr s)"

definition report_root :: "nat \<Rightarrow> env \<Rightarrow> string \<Rightarrow> sys \<Rightarrow> sys res" where
  "report_root d E msg t = ZNS_LOG (Logger_log d E) E (s_root t) ERROR (e_log_cpp E) 296 msg t"

lemma Logger_log_Suc:
  "Logger_log (Suc d) E l lv ev s =
     (if l_level (s_loggers s ! l) \<le> lv
      then fold_res (Appender_log (report_root d E) E lv ev l) (l_appenders (s_loggers s ! l)) s
      else Inr s)"
  by (simp add: report_root_def [abs_def])

declare Logger_log.simps(2) [simp del]

definition Logger_debug :: "nat \<Rightarrow> env \<Rightarrow> nat \<Rightarrow> event \<Rightarrow> sys \<Rightarrow> sys res" where
  "Logger_debug d E l ev s = Logger_log d E l DEBUG ev s"

definition Logger_info :: "nat \<Rightarrow> env \<Rightarrow> nat \<Rightarrow> event \<Rightarrow> sys \<Rightarrow> sys res" where
  "Logger_info d E l ev s = Logger_log d E l INFO ev s"

definition Logger_warn :: "nat \<Rightarrow> env \<Rightarrow> nat \<Rightarrow> event \<Rightarrow> sys \<Rightarrow> sys res" where
  "Logger_warn d E l ev s = Logger_log d E l WARN ev s"

definition Logger_error :: "nat \<Rightarrow> env \<Rightarrow> nat \<Rightarrow> event \<Rightarrow> sys \<Rightarrow> sys res" where
  "Logger_error d E l ev s = Logger_log d E l ERROR ev s"

definition Logger_fatal :: "nat \<Rightarrow> env \<Rightarrow> nat \<Rightarrow> event \<Rightarrow> sys \<Rightarrow> sys res" where
  "Logger_fatal d E l ev s = Logger_log d E l FATAL ev s"

definition addAppender :: "nat \<Rightarrow> nat \<Rightarrow> sys \<Rightarrow> sys" where
  "addAppender l a s =
     (let s1 = (if a_formatter (s_appenders s ! a) = None
                then upd_appender a (\<lambda>ap. ap\<lparr>a_formatter := Some (l_formatter (s_loggers s ! l))\<rparr>) s
                else s)
      in upd_logger l (\<lambda>lg. lg\<lparr>l_appenders := l_appenders lg @ [a]\<rparr>) s1)"

definition delAppender :: "nat \<Rightarrow> nat \<Rightarrow> sys \<Rightarrow> sys" where
  "delAppender l a s = upd_logger l (\<lambda>lg. lg\<lparr>l_appenders := remove1 a (l_appenders lg)\<rparr>) s"

definition clearAppenders :: "nat \<Rightarrow> sys \<Rightarrow> sys" where
  "clearAppenders l s = upd_logger l (\<lambda>lg. lg\<lparr>l_appenders := []\<rparr>) s"

text \<open>
  \<^verbatim>\<open>Logger::setName\<close> renames the object; the key the manager has it under stays what it was.
\<close>

definition setName :: "nat \<Rightarrow> string \<Rightarrow> sys \<Rightarrow> sys" where
  "setName l name s = upd_logger l (\<lambda>lg. lg\<lparr>l_name := name\<rparr>) s"

definition setLevel :: "nat \<Rightarrow> level \<Rightarrow> sys \<Rightarrow> sys" where
  "setLevel l lv s = upd_logger l (\<lambda>lg. lg\<lparr>l_level := lv\<rparr>) s"

text \<open>A new formatter prints its diagnostics on the standard output while it is made.\<close>

definition new_formatter :: "string \<Rightarrow> sys \<Rightarrow> formatter \<times> sys" where
  "new_formatter pattern s =
     (case LogFormatter pattern of (f, diag) \<Rightarrow> (f, emit (map Cout diag) s))"

definition setFormatter :: "nat \<Rightarrow> string \<Rightarrow> sys \<Rightarrow> sys" where
  "setFormatter l pattern s =
     (case new_formatter pattern s of
        (f, s1) \<Rightarrow> upd_logger l (\<lambda>lg. lg\<lparr>l_formatter := f\<rparr>) s1)"

text \<open>The two constructors of \<^verbatim>\<open>Logger\<close>.\<close>

definition new_logger :: "string \<Rightarrow> level \<Rightarrow> string \<Rightarrow> sys \<Rightarrow> nat \<times> sys" where
  "new_logger name lv pattern s =
     (case new_formatter pattern s of
        (f, s1) \<Rightarrow>
          (length (s_loggers s1),
           s1\<lparr>s_loggers := s_loggers s1 @
              [\<lparr>l_name = name, l_level = lv, l_appenders = [], l_formatter = f, l_root = None\<rparr>]\<rparr>))"

definition attach_new :: "nat \<Rightarrow> appender \<Rightarrow> sys \<Rightarrow> sys" where
  "attach_new l ap s = (case new_appender ap s of (a, s1) \<Rightarrow> addAppender l a s1)"

definition new_logger_with ::
  "string \<Rightarrow> level \<Rightarrow> string \<Rightarrow> string list \<Rightarrow> string \<Rightarrow> sys \<Rightarrow> nat \<times> sys" where
  "new_logger_with name lv pattern appenders outputPath s =
     (case new_logger name lv pattern s of
        (l, s1) \<Rightarrow>
          (l, fold (\<lambda>appender t.
                 if appender = ''stdout'' then attach_new l StdoutLogAppender t
                 else if appender = ''file'' then attach_new l (FileLogAppender outputPath) t
                 else t) appenders s1))"

end
