(* ===== verification/LogDefine.thy ===== *)
theory LogDefine
  imports LogLevel OrderedMap
begin

text \<open>
  The configuration records of \<^verbatim>\<open>server/log.h\<close> and their user-defined comparisons, which
  \<^verbatim>\<open>std::set<LogDefine>\<close> and the change test of the configuration variable rely on.
\<close>

record LogAppenderDefine =
  lad_type :: string
  lad_path :: string
  lad_level :: level
  lad_formatter :: string

text \<open>A default-constructed definition, with the type filled in.\<close>

definition new_LogAppenderDefine :: "string \<Rightarrow> LogAppenderDefine" where
  "new_LogAppenderDefine type =
     \<lparr>lad_type = type, lad_path = [], lad_level = UNKNOW, lad_formatter = []\<rparr>"

text \<open>\<^verbatim>\<open>operator==\<close> of the appender definitions looks at the type and the path only.\<close>

definition lad_eq :: "LogAppenderDefine \<Rightarrow> LogAppenderDefine \<Rightarrow> bool" where
  "lad_eq x y \<longleftrightarrow> lad_type x = lad_type y \<and> lad_path x = lad_path y"

definition hasCustomLevel :: "LogAppenderDefine \<Rightarrow> bool" where
  "hasCustomLevel x \<longleftrightarrow> lad_level x \<noteq> UNKNOW"

definition hasCustomFormatter :: "LogAppenderDefine \<Rightarrow> bool" where
  "hasCustomFormatter x \<longleftrightarrow> lad_formatter x \<noteq> []"

record LogDefine =
  ld_name :: string
  ld_level :: level
  ld_formatter :: string
  ld_appender :: "LogAppenderDefine list"

definition ld_eq :: "LogDefine \<Rightarrow> LogDefine \<Rightarrow> bool" where
  "ld_eq x y \<longleftrightarrow> ld_name x = ld_name y \<and> ld_level x = ld_level y
     \<and> ld_formatter x = ld_formatter y \<and> list_all2 lad_eq (ld_appender x) (ld_appender y)"

definition ld_neq :: "LogDefine \<Rightarrow> LogDefine \<Rightarrow> bool" where
  "ld_neq x y \<longleftrightarrow> \<not> ld_eq x y"

definition ld_less :: "LogDefine \<Rightarrow> LogDefine \<Rightarrow> bool" where
  "ld_less x y \<longleftrightarrow> ld_name x < ld_name y"

definition getAppenders :: "LogDefine \<Rightarrow> string list" where
  "getAppenders x = map lad_type (ld_appender x)"

definition getOutputPath :: "LogDefine \<Rightarrow> string" where
  "getOutputPath x =
     (case find (\<lambda>a. lad_type a = ''file'') (ld_appender x) of
        None \<Rightarrow> [] | Some a \<Rightarrow> lad_path a)"

text \<open>\<^verbatim>\<open>operator==\<close> of \<^verbatim>\<open>std::set<LogDefine>\<close>: same size, equal element by element.\<close>

definition ld_set_eq :: "LogDefine list \<Rightarrow> LogDefine list \<Rightarrow> bool" where
  "ld_set_eq xs ys \<longleftrightarrow> list_all2 ld_eq xs ys"

section \<open>The orders are orders\<close>

interpretation ld_set: weak_order ld_less
  by unfold_locales (auto simp: ld_less_def)

lemma ld_equiv_iff: "ld_set.equiv x y \<longleftrightarrow> ld_name x = ld_name y"
  by (auto simp: ld_set.equiv_def ld_less_def)

lemma lad_eq_equivp: "lad_eq x x" "lad_eq x y \<Longrightarrow> lad_eq y x" "lad_eq x y \<Longrightarrow> lad_eq y z \<Longrightarrow> lad_eq x z"
  by (auto simp: lad_eq_def)

lemma ld_eq_refl: "ld_eq x x"
  by (simp add: ld_eq_def list_all2_refl lad_eq_def)

lemma ld_eq_sym: "ld_eq x y \<Longrightarrow> ld_eq y x"
  by (auto simp: ld_eq_def list_all2_conv_all_nth lad_eq_def)

lemma ld_sorted_names: "sorted_wrt ld_less xs \<Longrightarrow> distinct (map ld_name xs)"
  by (induction xs) (auto simp: ld_less_def)

text \<open>
  C5 (LogDefine). Inserting definitions into the set keeps it ordered by name with one
  definition per name, and the first definition of a name wins: the later one is dropped
  whatever it says.
\<close>

theorem ld_set_first_wins:
  assumes "sorted_wrt ld_less xs"
  shows "sorted_wrt ld_less (sset_insert ld_less d xs)
     \<and> distinct (map ld_name (sset_insert ld_less d xs))
     \<and> (ld_name d \<in> ld_name ` set xs \<longrightarrow> sset_insert ld_less d xs = xs)
     \<and> (ld_name d \<notin> ld_name ` set xs \<longrightarrow> d \<in> set (sset_insert ld_less d xs))"
proof -
  have sorted: "sorted_wrt ld_less (sset_insert ld_less d xs)"
    by (rule ld_set.insert_sorted [OF assms])
  moreover have "sset_insert ld_less d xs = xs" if "ld_name d \<in> ld_name ` set xs"
    using that ld_set.insert_present [OF assms] by (auto simp: ld_equiv_iff)
  moreover have "d \<in> set (sset_insert ld_less d xs)" if new: "ld_name d \<notin> ld_name ` set xs"
  proof -
    obtain y where y: "y \<in> set (sset_insert ld_less d xs)" "ld_name d = ld_name y"
      using ld_set.insert_has_equiv [of d xs] by (auto simp: ld_equiv_iff)
    with ld_set.insert_subset [of d xs] new show ?thesis by auto
  qed
  ultimately show ?thesis using ld_sorted_names by blast
qed

theorem ld_set_first_wins_witness:
  "sset_insert ld_less \<lparr>ld_name = ''a'', ld_level = FATAL, ld_formatter = [], ld_appender = []\<rparr>
     [\<lparr>ld_name = ''a'', ld_level = DEBUG, ld_formatter = ''%m'', ld_appender = []\<rparr>]
   = [\<lparr>ld_name = ''a'', ld_level = DEBUG, ld_formatter = ''%m'', ld_appender = []\<rparr>]"
proof -
  have "sorted_wrt ld_less [\<lparr>ld_name = ''a'', ld_level = DEBUG, ld_formatter = ''%m'', ld_appender = []\<rparr>]"
    by simp
  from ld_set_first_wins [OF this,
      of "\<lparr>ld_name = ''a'', ld_level = FATAL, ld_formatter = [], ld_appender = []\<rparr>"]
  show ?thesis by simp
qed

end
