(* ===== verification/LoggerManager.thy ===== *)
theory LoggerManager
  imports LogSystem LogDefine
begin

text \<open>
  \<^verbatim>\<open>class LoggerManager\<close> (\<^verbatim>\<open>server/log.h\<close>, \<^verbatim>\<open>server/log.cpp\<close>) and the listener that
  \<^verbatim>\<open>LogInit\<close> attaches to the configuration variable \<^verbatim>\<open>loggers\<close>. The manager's members are the
  fields \<open>s_map\<close> and \<open>s_root\<close> of the state. The operations that write log lines of their own go
  through \<open>Logger_log\<close> and may fail as it does.
\<close>

text \<open>A log statement of \<^verbatim>\<open>log.cpp\<close> itself, on the root logger.\<close>

definition mgr_log :: "nat \<Rightarrow> env \<Rightarrow> level \<Rightarrow> i32 \<Rightarrow> string \<Rightarrow> sys \<Rightarrow> sys res" where
  "mgr_log d E lv line txt s = ZNS_LOG (Logger_log d E) E (s_root s) lv (e_log_cpp E) line txt s"

definition empty_sys :: sys where
  "empty_sys = \<lparr>s_loggers = [], s_appenders = [], s_map = [], s_root = 0, s_out = []\<rparr>"

text \<open>The constructor.\<close>

definition LoggerManager :: "sys \<Rightarrow> sys" where
  "LoggerManager s =
     (case new_logger ''root'' DEBUG default_pattern s of
        (l, s1) \<Rightarrow>
          let s2 = attach_new l StdoutLogAppender s1
          in s2\<lparr>s_root := l, s_map := smap_set (l_name (s_loggers s2 ! l)) l (s_map s2)\<rparr>)"

definition boot :: sys where
  "boot = LoggerManager empty_sys"

definition getLogger :: "string \<Rightarrow> sys \<Rightarrow> nat \<times> sys" where
  "getLogger name s =
     (case smap_find (s_map s) name of
        Some l \<Rightarrow> (l, s)
      | None \<Rightarrow>
          (case new_logger name DEBUG default_pattern s of
             (l, s1) \<Rightarrow>
               let s2 = upd_logger l (\<lambda>lg. lg\<lparr>l_root := Some (s_root s1)\<rparr>) s1
               in (l, s2\<lparr>s_map := smap_set name l (s_map s2)\<rparr>)))"

text \<open>The appender part of \<^verbatim>\<open>updateLogger\<close>, for one entry of the list.\<close>

definition has_type :: "string \<Rightarrow> nat \<Rightarrow> sys \<Rightarrow> bool" where
  "has_type ty l s \<longleftrightarrow>
     list_ex (\<lambda>a. getAppenderType (s_appenders s ! a) = ty) (l_appenders (s_loggers s ! l))"

definition repath :: "string \<Rightarrow> nat \<Rightarrow> bool \<times> sys \<Rightarrow> bool \<times> sys" where
  "repath outputPath a ct =
     (case ct of (changed, t) \<Rightarrow>
        (case getFilepath (s_appenders t ! a) of
           None \<Rightarrow> (changed, t)
         | Some p \<Rightarrow>
             if p \<noteq> outputPath then (True, upd_appender a (setFilepath outputPath) t)
             else (changed, t)))"

definition update_appender_entry :: "nat \<Rightarrow> string \<Rightarrow> string \<Rightarrow> bool \<times> sys \<Rightarrow> bool \<times> sys" where
  "update_appender_entry l outputPath appender ct =
     (case ct of (changed, t) \<Rightarrow>
        if appender = ''stdout'' then
          (if \<not> has_type ''stdout'' l t then (True, attach_new l StdoutLogAppender t)
           else (changed, t))
        else if appender = ''file'' then
          (case fold (repath outputPath) (l_appenders (s_loggers t ! l)) (changed, t) of
             (changed', t') \<Rightarrow>
               if \<not> has_type ''file'' l t then (True, attach_new l (FileLogAppender outputPath) t')
               else (changed', t'))
        else (changed, t))"

text \<open>The new formatter of an appender in \<^verbatim>\<open>updateLogger\<close> and in \<^verbatim>\<open>createLogger\<close>.\<close>

definition reformat_appender :: "string \<Rightarrow> nat \<Rightarrow> sys \<Rightarrow> sys" where
  "reformat_appender pattern a t =
     (case new_formatter pattern t of
        (f, t1) \<Rightarrow> upd_appender a (\<lambda>ap. ap\<lparr>a_formatter := Some f\<rparr>) t1)"

text \<open>The level part and the pattern part of \<^verbatim>\<open>updateLogger\<close>, with the flag \<^verbatim>\<open>isChanged\<close>.\<close>

definition update_level :: "nat \<Rightarrow> level \<Rightarrow> bool \<times> sys \<Rightarrow> bool \<times> sys" where
  "update_level l lv ct =
     (case ct of (changed, t) \<Rightarrow>
        if lv \<noteq> l_level (s_loggers t ! l) then (True, setLevel l lv t) else (changed, t))"

definition update_pattern :: "nat \<Rightarrow> string \<Rightarrow> bool \<times> sys \<Rightarrow> bool \<times> sys" where
  "update_pattern l pattern ct =
     (case ct of (changed, t) \<Rightarrow>
        if pattern \<noteq> f_pattern (l_formatter (s_loggers t ! l)) then
          (True,
           fold (\<lambda>a u. reformat_appender pattern a
                         (upd_appender a (\<lambda>ap. ap\<lparr>a_custom := False\<rparr>) u))
             (l_appenders (s_loggers t ! l)) (setFormatter l pattern t))
        else (changed, t))"

definition updateLogger ::
  "string \<Rightarrow> level \<Rightarrow> string \<Rightarrow> string list \<Rightarrow> string \<Rightarrow> sys \<Rightarrow> bool \<times> sys" where
  "updateLogger name lv pattern appenders outputPath s =
     (case smap_find (s_map s) name of
        None \<Rightarrow> (False, s)
      | Some l0 \<Rightarrow>
          (case getLogger (l_name (s_loggers s ! l0)) s of
             (l, s1) \<Rightarrow>
               fold (update_appender_entry l outputPath) appenders
                 (update_pattern l pattern (update_level l lv (False, s1)))))"

definition createLogger ::
  "nat \<Rightarrow> env \<Rightarrow> string \<Rightarrow> level \<Rightarrow> string \<Rightarrow> string list \<Rightarrow> string \<Rightarrow> sys \<Rightarrow> (nat \<times> sys) res" where
  "createLogger d E name lv pattern appenders outputPath s =
     (case smap_find (s_map s) name of
        Some l \<Rightarrow>
          rbind (mgr_log d E INFO 543
                   (''LoggerManager::createLogger: logger '' @ name @ '' already exists'') s)
            (\<lambda>s1. case updateLogger name lv pattern appenders outputPath s1 of
               (changed, s2) \<Rightarrow>
                 if changed then
                   rbind (mgr_log d E INFO 545
                            (''LoggerManager::createLogger: logger '' @ name @ '' has been updated'') s2)
                     (\<lambda>s3. Inr (l, s3))
                 else Inr (l, s2))
      | None \<Rightarrow>
          (case new_logger_with name lv pattern appenders outputPath s of
             (l, s1) \<Rightarrow>
               let s2 = fold (\<lambda>a t. reformat_appender pattern a
                                      (upd_appender a (\<lambda>ap. ap\<lparr>a_level := lv\<rparr>) t))
                          (l_appenders (s_loggers s1 ! l)) s1
               in Inr (l, s2\<lparr>s_map := smap_set name l (s_map s2)\<rparr>)))"

text \<open>\<^verbatim>\<open>updateAppender\<close>: one appender definition, then the loop over them.\<close>

definition define_appender :: "nat \<Rightarrow> LogDefine \<Rightarrow> LogAppenderDefine \<Rightarrow> sys \<Rightarrow> sys" where
  "define_appender l ld def s =
     (case (if lad_type def = ''file'' then Some (FileLogAppender (lad_path def))
            else if lad_type def = ''stdout'' then Some StdoutLogAppender
            else None) of
        None \<Rightarrow> s
      | Some ap \<Rightarrow>
          let ap1 = ap\<lparr>a_level := (if hasCustomLevel def then lad_level def else ld_level ld)\<rparr>;
              (ap2, s1) =
                (if hasCustomFormatter def then
                   (case new_formatter (lad_formatter def) s of
                      (f, t) \<Rightarrow> (ap1\<lparr>a_formatter := Some f, a_custom := True\<rparr>, t))
                 else (ap1\<lparr>a_formatter := Some (l_formatter (s_loggers s ! l)), a_custom := False\<rparr>, s))
          in attach_new l ap2 s1)"

definition updateAppender :: "nat \<Rightarrow> LogDefine \<Rightarrow> sys \<Rightarrow> sys" where
  "updateAppender l ld s = fold (define_appender l ld) (ld_appender ld) (clearAppenders l s)"

definition configureLogger :: "LogDefine \<Rightarrow> sys \<Rightarrow> sys" where
  "configureLogger ld s =
     (case smap_find (s_map s) (ld_name ld) of
        Some l \<Rightarrow> updateAppender l ld (setFormatter l (ld_formatter ld) (setLevel l (ld_level ld) s))
      | None \<Rightarrow>
          (case new_logger (ld_name ld) (ld_level ld) (ld_formatter ld) s of
             (l, s1) \<Rightarrow>
               updateAppender l ld (s1\<lparr>s_map := smap_set (ld_name ld) l (s_map s1)\<rparr>)))"

definition removeLogger :: "nat \<Rightarrow> env \<Rightarrow> string \<Rightarrow> sys \<Rightarrow> sys res" where
  "removeLogger d E name s =
     (case smap_find (s_map s) name of
        Some l \<Rightarrow>
          rbind (mgr_log d E INFO 620 (''LoggerManager::removeLogger: removing logger '' @ name) s)
            (\<lambda>s1. rbind (mgr_log d E INFO 624
                (''LoggerManager::removeLogger: logger '' @ name @ '' use_count: '' @
                 show_nat (e_use_count E (s_out s1) l)) s1)
               (\<lambda>s2. Inr (s2\<lparr>s_map := smap_erase name (s_map s2)\<rparr>)))
      | None \<Rightarrow>
          mgr_log d E WARN 632
            (''LoggerManager::removeLogger: logger '' @ name @ '' not found'') s)"

text \<open>
  The listener of \<^verbatim>\<open>LogInit\<close>: remove the loggers the new value does not name (the loop runs
  over a copy of the map), then configure the ones it names.
\<close>

definition drop_unnamed :: "nat \<Rightarrow> env \<Rightarrow> LogDefine list \<Rightarrow> string \<times> nat \<Rightarrow> sys \<Rightarrow> sys res" where
  "drop_unnamed d E new_value i t =
     (if fst i \<in> ld_name ` set new_value then Inr t
      else rbind (mgr_log d E INFO 744 (''LogInit::LogInit: remove logger '' @ fst i) t)
             (removeLogger d E (fst i)))"

definition LogInit_listener :: "nat \<Rightarrow> env \<Rightarrow> LogDefine list \<Rightarrow> LogDefine list \<Rightarrow> sys \<Rightarrow> sys res" where
  "LogInit_listener d E new_value old_value s =
     rbind (fold_res (drop_unnamed d E new_value) (s_map s) s)
       (\<lambda>t. Inr (fold configureLogger new_value t))"

text \<open>
  The definition of one logger that \<^verbatim>\<open>toYamlString\<close> computes: the level of an appender is
  always written down, its formatter only when it is its own.
\<close>

definition describe_appender :: "appender \<Rightarrow> LogAppenderDefine" where
  "describe_appender ap =
     \<lparr>lad_type = getAppenderType ap,
      lad_path = (if getAppenderType ap = ''file''
                  then (case getFilepath ap of None \<Rightarrow> [] | Some p \<Rightarrow> p) else []),
      lad_level = a_level ap,
      lad_formatter = (if a_custom ap
                       then (case a_formatter ap of None \<Rightarrow> [] | Some f \<Rightarrow> f_pattern f) else [])\<rparr>"

definition describe_logger :: "sys \<Rightarrow> string \<times> nat \<Rightarrow> LogDefine" where
  "describe_logger s i =
     (let lg = s_loggers s ! snd i
      in \<lparr>ld_name = fst i, ld_level = l_level lg, ld_formatter = f_pattern (l_formatter lg),
          ld_appender = map (\<lambda>a. describe_appender (s_appenders s ! a)) (l_appenders lg)\<rparr>)"

definition describe_all :: "sys \<Rightarrow> LogDefine list" where
  "describe_all s = map (describe_logger s) (s_map s)"

end
