(* ===== verification/PatternSpec.thy ===== *)
theory PatternSpec
  imports LogFormatter
begin

text \<open>
  The specification of the pattern parser: a function over the rest of the pattern that has no
  index and no status variable, the proof that \<^verbatim>\<open>LogFormatter::init\<close> computes it, and the
  round trip of patterns written from pieces.
\<close>

section \<open>The specification\<close>

definition name_char :: "char \<Rightarrow> bool" where
  "name_char c \<longleftrightarrow> isalpha c \<or> c = CHR ''}''"

definition not_brace :: "char \<Rightarrow> bool" where
  "not_brace c \<longleftrightarrow> c \<noteq> CHR ''}''"

definition flush_lit :: "string \<Rightarrow> token list" where
  "flush_lit lit = (if lit = [] then [] else [(lit, [], 0)])"

text \<open>
  What follows a percent sign: a field name, then either the end, a braced argument (closed or
  not), or a character that belongs to the text after the field. The rest is \<open>None\<close> where the
  pattern ends.
\<close>

definition spec_field :: "string \<Rightarrow> token \<times> string option" where
  "spec_field cs =
     (let name = takeWhile name_char cs
      in case dropWhile name_char cs of
           [] \<Rightarrow> ((name, [], 1), None)
         | d # ds \<Rightarrow>
             if d = CHR ''{'' then
               (case dropWhile not_brace ds of
                  [] \<Rightarrow> ((''<<pattern_error>>'', [], 0), None)
                | _ # rest \<Rightarrow> ((name, takeWhile not_brace ds, 1), Some rest))
             else ((name, [], 1), Some (d # ds)))"

lemma spec_field_shorter: "spec_field cs = (t, Some rest) \<Longrightarrow> length rest \<le> length cs"
  unfolding spec_field_def Let_def
  by (auto split: list.splits if_splits dest!: dropWhile_shorter simp: length_dropWhile_le)

function spec_tokens :: "string \<Rightarrow> string \<Rightarrow> token list" where
  "spec_tokens lit [] = []"
| "spec_tokens lit (c # cs) =
     (if c \<noteq> CHR ''%'' then spec_tokens (lit @ [c]) cs
      else if cs \<noteq> [] \<and> hd cs = CHR ''%'' then spec_tokens (lit @ ''%'') cs
      else (case spec_field cs of
              (t, None) \<Rightarrow> flush_lit lit @ [t]
            | (t, Some rest) \<Rightarrow> flush_lit lit @ t # spec_tokens [] rest))"
  by pat_completeness auto
termination
  by (relation "measure (\<lambda>(lit, cs). length cs)")
    (auto dest!: sym [of _ "spec_field _"] spec_field_shorter)

section \<open>The loops compute the specification\<close>

lemma drop_Cons_iff: "drop j p = x # xs \<longleftrightarrow> j < length p \<and> p ! j = x \<and> drop (Suc j) p = xs"
  by (metis Cons_nth_drop_Suc drop_all list.discI list.inject not_le)

lemma drop_Nil_len: "j \<le> length p \<Longrightarrow> drop j p = [] \<Longrightarrow> j = length p"
  by simp

text \<open>Inside the braces: up to the closing one, or to the end.\<close>

lemma scan_braces:
  assumes "j \<le> length p"
  shows "scan_field p i j 1 fb fs =
    (let k = j + length (takeWhile not_brace (drop j p))
     in if k < length p then (k, 2, fs, substr p fb (k - fb)) else (length p, 1, fs, []))"
  using assms
proof (induction "drop j p" arbitrary: j)
  case Nil
  then have "j = length p" by simp
  then show ?case by (subst scan_field.simps) (simp add: Let_def)
next
  case (Cons x xs)
  from Cons.hyps(2) have j: "j < length p" "p ! j = x" "drop (Suc j) p = xs"
    by (metis drop_Cons_iff)+
  show ?case
  proof (cases "x = CHR ''}''")
    case True
    with j Cons.hyps(2) [symmetric] show ?thesis
      by (subst scan_field.simps) (simp add: not_brace_def)
  next
    case False
    have "scan_field p i j 1 fb fs = scan_field p i (Suc j) 1 fb fs"
      using j False by (subst scan_field.simps) simp
    then show ?thesis
      using Cons.hyps(1) [of "Suc j"] Cons.hyps(2) [symmetric] j False
      by (simp add: not_brace_def Let_def)
  qed
qed

text \<open>The field name: up to the first character that is neither a letter nor a closing brace.\<close>

lemma scan_name:
  assumes "j \<le> length p"
  shows "scan_field p i j 0 fb fs =
    (let k = j + length (takeWhile name_char (drop j p))
     in if k < length p then
          (if p ! k = CHR ''{'' then scan_field p i k 1 (k + 1) (substr p (i + 1) (k - i - 1))
           else (k - 1, 0, substr p (i + 1) (k - i - 1), []))
        else (length p, 0, fs, []))"
  using assms
proof (induction "drop j p" arbitrary: j)
  case Nil
  then have "j = length p" by simp
  then show ?case by (subst scan_field.simps) (simp add: Let_def)
next
  case (Cons x xs)
  from Cons.hyps(2) have j: "j < length p" "p ! j = x" "drop (Suc j) p = xs"
    by (metis drop_Cons_iff)+
  show ?case
  proof (cases "name_char x")
    case True
    then have "x \<noteq> CHR ''{''" by (auto simp: name_char_def isalpha_def isupper_def islower_def ord_of_def)
    then have "scan_field p i j 0 fb fs = scan_field p i (Suc j) 0 fb fs"
      using j True by (subst scan_field.simps) (auto simp: name_char_def)
    then show ?thesis
      using Cons.hyps(1) [of "Suc j"] Cons.hyps(2) [symmetric] j True
      by (simp add: Let_def)
  next
    case False
    then show ?thesis
      using j Cons.hyps(2) [symmetric] by (subst scan_field.simps) (simp add: name_char_def)
  qed
qed

text \<open>One field, from the percent sign at \<open>i\<close>: the token pushed and where the parser goes on.\<close>

definition field_result :: "string \<Rightarrow> nat \<Rightarrow> token \<times> nat" where
  "field_result p i =
     (case scan_field p i (i + 1) 0 0 [] of (j, st, field0, fmt) \<Rightarrow>
        let field_str = (if j = length p \<and> j - i - 1 > 0 then substr p (i + 1) (j - i - 1) else field0)
        in (if st = 1 then (''<<pattern_error>>'', fmt, 0) else (field_str, fmt, 1), j + 1))"

lemma substr_after: "k \<le> length p \<Longrightarrow> i < k \<Longrightarrow> takeWhile P (drop (i + 1) p) = xs \<Longrightarrow>
    k = i + 1 + length xs \<Longrightarrow> substr p (i + 1) (k - i - 1) = xs"
  by (metis Nat.add_diff_assoc2 add_diff_cancel_left' diff_diff_left le_add1 le_add_diff_inverse
      substr_def takeWhile_eq_take)

lemma field_result_spec:
  assumes "i < length p"
  shows "case spec_field (drop (i + 1) p) of
           (t, None) \<Rightarrow> field_result p i = (t, length p + 1)
         | (t, Some rest) \<Rightarrow> fst (field_result p i) = t
             \<and> snd (field_result p i) \<le> length p \<and> drop (snd (field_result p i)) p = rest"
proof -
  define cs where "cs = drop (i + 1) p"
  define name where "name = takeWhile name_char cs"
  define k where "k = i + 1 + length name"
  have rest: "dropWhile name_char cs = drop k p"
    by (simp add: cs_def name_def k_def dropWhile_eq_drop add.commute add.left_commute)
  have k_le: "k \<le> length p"
    using assms length_takeWhile_le [of name_char cs] by (simp add: k_def name_def cs_def)
  have name_str: "substr p (i + 1) (k - i - 1) = name"
    by (simp add: k_def substr_def name_def cs_def takeWhile_eq_take [symmetric])
  have scan: "scan_field p i (i + 1) 0 0 [] =
     (if k < length p then
        (if p ! k = CHR ''{'' then scan_field p i k 1 (k + 1) name else (k - 1, 0, name, []))
      else (length p, 0, [], []))"
    using scan_name [of "i + 1" p i 0 "[]"] assms name_str
    by (simp add: Let_def k_def name_def cs_def)
  consider (eof) "k = length p" | (brace) "k < length p" "p ! k = CHR ''{''"
    | (other) "k < length p" "p ! k \<noteq> CHR ''{''"
    using k_le by linarith
  then show ?thesis
  proof cases
    case eof
    then have dw: "dropWhile name_char cs = []" using rest by simp
    have "spec_field cs = ((name, [], 1), None)"
      unfolding spec_field_def dw name_def by simp
    moreover have "field_result p i = ((name, [], 1), length p + 1)"
      using scan eof name_str k_def by (cases name) (auto simp: field_result_def)
    ultimately show ?thesis by (simp add: cs_def)
  next
    case other
    then have "spec_field cs = ((name, [], 1), Some (drop k p))"
      using rest by (simp add: spec_field_def name_def drop_Suc_nth [of k p])
    moreover have "field_result p i = ((name, [], 1), k)"
      using scan other k_def by (simp add: field_result_def)
    ultimately show ?thesis using k_le by (simp add: cs_def)
  next
    case brace
    define ds where "ds = drop (k + 1) p"
    define m where "m = k + 1 + length (takeWhile not_brace ds)"
    have ds_eq: "drop k p = CHR ''{'' # ds"
      using brace by (simp add: ds_def drop_Suc_nth)
    have m_le: "m \<le> length p"
      using brace length_takeWhile_le [of not_brace ds] by (simp add: m_def ds_def)
    have after: "dropWhile not_brace ds = drop m p"
      by (simp add: ds_def m_def dropWhile_eq_drop add.commute add.left_commute)
    have args: "substr p (k + 1) (m - (k + 1)) = takeWhile not_brace ds"
      by (simp add: m_def substr_def ds_def takeWhile_eq_take [symmetric])
    have "k + length (takeWhile not_brace (drop k p)) = m"
      by (simp add: ds_eq m_def not_brace_def)
    then have scan1: "scan_field p i k 1 (k + 1) name =
        (if m < length p then (m, 2, name, takeWhile not_brace ds) else (length p, 1, name, []))"
      using scan_braces [of k p i "k + 1" name] brace(1) args by (simp add: Let_def)
    show ?thesis
    proof (cases "m < length p")
      case True
      then have "spec_field cs = ((name, takeWhile not_brace ds, 1), Some (drop (m + 1) p))"
        using rest ds_eq after by (simp add: spec_field_def name_def drop_Suc_nth [of m p])
      moreover have "field_result p i = ((name, takeWhile not_brace ds, 1), m + 1)"
        using scan scan1 brace True by (simp add: field_result_def)
      ultimately show ?thesis using True by (simp add: cs_def)
    next
      case False
      then have dw: "dropWhile not_brace ds = []" using after m_le by simp
      have "spec_field cs = ((''<<pattern_error>>'', [], 0), None)"
        unfolding spec_field_def rest ds_eq list.case dw by (simp add: Let_def)
      moreover have "field_result p i = ((''<<pattern_error>>'', [], 0), length p + 1)"
        using scan scan1 brace False by (simp add: field_result_def)
      ultimately show ?thesis by (simp add: cs_def)
    qed
  qed
qed

text \<open>The step of the outer loop at a percent sign, in terms of \<open>field_result\<close>.\<close>

lemma init_loop_field:
  assumes "i < length p" and "p ! i = CHR ''%''"
    and "\<not> (i + 1 < length p \<and> p ! (i + 1) = CHR ''%'')"
  shows "\<exists>diag'. init_loop p i lit vec diag =
    init_loop p (snd (field_result p i)) [] (vec @ flush_lit lit @ [fst (field_result p i)]) diag'"
proof -
  obtain j st f0 fmt where scan: "scan_field p i (i + 1) 0 0 [] = (j, st, f0, fmt)"
    by (metis prod_cases4)
  show ?thesis
    using assms scan
    by (subst init_loop.simps) (auto simp: field_result_def Let_def flush_lit_def)
qed

lemma init_loop_end: "length p \<le> i \<Longrightarrow> init_loop p i lit vec diag = (vec, diag)"
  by (subst init_loop.simps) simp

lemma init_loop_spec:
  assumes "i \<le> length p"
  shows "fst (init_loop p i lit vec diag) = vec @ spec_tokens lit (drop i p)"
  using assms
proof (induction lit "drop i p" arbitrary: i vec diag rule: spec_tokens.induct)
  case (1 lit)
  then show ?case by (simp add: init_loop_end)
next
  case (2 lit c cs)
  from 2(4) have i: "i < length p" "p ! i = c" "drop (Suc i) p = cs"
    by (metis drop_Cons_iff)+
  have dbl: "cs \<noteq> [] \<and> hd cs = CHR ''%'' \<longleftrightarrow> i + 1 < length p \<and> p ! (i + 1) = CHR ''%''"
    using i by (metis Suc_eq_plus1 drop_eq_Nil hd_drop_conv_nth not_le)
  consider (lit) "c \<noteq> CHR ''%''" | (double) "c = CHR ''%''" "cs \<noteq> [] \<and> hd cs = CHR ''%''"
    | (field) "c = CHR ''%''" "\<not> (cs \<noteq> [] \<and> hd cs = CHR ''%'')" by blast
  then show ?case
  proof cases
    case lit
    have "fst (init_loop p (Suc i) (lit @ [c]) vec diag) = vec @ spec_tokens (lit @ [c]) cs"
      using 2(1) [OF lit i(3) [symmetric]] i(1,3) by simp
    moreover have "init_loop p i lit vec diag = init_loop p (Suc i) (lit @ [c]) vec diag"
      using lit i(1,2) by (subst init_loop.simps) simp
    ultimately show ?thesis unfolding 2(4) [symmetric] using lit by simp
  next
    case double
    have "fst (init_loop p (Suc i) (lit @ ''%'') vec diag) = vec @ spec_tokens (lit @ ''%'') cs"
      using 2(2) [OF _ double(2) i(3) [symmetric]] double(1) i(1,3) by simp
    moreover have "init_loop p i lit vec diag = init_loop p (Suc i) (lit @ ''%'') vec diag"
      using double dbl i(1,2) by (subst init_loop.simps) simp
    ultimately show ?thesis unfolding 2(4) [symmetric] using double by simp
  next
    case field
    then obtain diag' where step: "init_loop p i lit vec diag =
        init_loop p (snd (field_result p i)) [] (vec @ flush_lit lit @ [fst (field_result p i)]) diag'"
      using init_loop_field [of i p lit vec diag] i dbl by auto
    have fr: "case spec_field cs of
           (t, None) \<Rightarrow> field_result p i = (t, length p + 1)
         | (t, Some rest) \<Rightarrow> fst (field_result p i) = t
             \<and> snd (field_result p i) \<le> length p \<and> drop (snd (field_result p i)) p = rest"
      using field_result_spec [OF i(1)] i(3) by simp
    obtain t r where sf: "spec_field cs = (t, r)" by (cases "spec_field cs")
    show ?thesis
    proof (cases r)
      case None
      with fr sf step field have "fst (init_loop p i lit vec diag) = vec @ flush_lit lit @ [t]"
        by (simp add: init_loop_end)
      with None sf field show ?thesis unfolding 2(4) [symmetric] by auto
    next
      case (Some rest)
      with fr sf have j: "fst (field_result p i) = t" "snd (field_result p i) \<le> length p"
        "rest = drop (snd (field_result p i)) p" by auto
      then have "fst (init_loop p i lit vec diag) =
          vec @ flush_lit lit @ t # spec_tokens [] rest"
        using step 2(3) [OF _ field(2) sf [symmetric], of "snd (field_result p i)"] field(1) Some
        by simp
      with Some sf field show ?thesis unfolding 2(4) [symmetric] by auto
    qed
  qed
qed

lemma parse_pattern_spec: "fst (parse_pattern p) = spec_tokens [] p"
  using init_loop_spec [of 0 p "[]" "[]" "[]"] by (simp add: parse_pattern_def)

section \<open>Patterns written from pieces\<close>

datatype piece = Lit string | Fld string | FldArg string string

fun render_piece :: "piece \<Rightarrow> string" where
  "render_piece (Lit s) = s"
| "render_piece (Fld n) = CHR ''%'' # n"
| "render_piece (FldArg n a) = CHR ''%'' # n @ CHR ''{'' # a @ ''}''"

definition render :: "piece list \<Rightarrow> string" where
  "render ps = concat (map render_piece ps)"

fun is_lit :: "piece \<Rightarrow> bool" where
  "is_lit (Lit s) = True"
| "is_lit p = False"

fun piece_ok :: "piece \<Rightarrow> bool" where
  "piece_ok (Lit s) \<longleftrightarrow> s \<noteq> [] \<and> CHR ''%'' \<notin> set s"
| "piece_ok (Fld n) \<longleftrightarrow> n \<noteq> [] \<and> list_all isalpha n"
| "piece_ok (FldArg n a) \<longleftrightarrow> list_all isalpha n \<and> list_all not_brace a"

text \<open>
  Two texts in a row are one text; a text right after a bare field must start with a character
  that cannot belong to the field.
\<close>

fun follows_ok :: "piece \<Rightarrow> piece \<Rightarrow> bool" where
  "follows_ok (Lit s) q \<longleftrightarrow> \<not> is_lit q"
| "follows_ok (Fld n) (Lit s) \<longleftrightarrow> s \<noteq> [] \<and> \<not> name_char (hd s) \<and> hd s \<noteq> CHR ''{''"
| "follows_ok (Fld n) q \<longleftrightarrow> True"
| "follows_ok (FldArg n a) q \<longleftrightarrow> True"

fun pieces_ok :: "piece list \<Rightarrow> bool" where
  "pieces_ok [] = True"
| "pieces_ok (p # ps) \<longleftrightarrow>
     piece_ok p \<and> (case ps of [] \<Rightarrow> True | q # qs \<Rightarrow> follows_ok p q) \<and> pieces_ok ps"

fun token_of :: "piece \<Rightarrow> token" where
  "token_of (Lit s) = (s, [], 0)"
| "token_of (Fld n) = (n, [], 1)"
| "token_of (FldArg n a) = (n, a, 1)"

text \<open>What the parser keeps of the pieces: all but a text at the very end.\<close>

fun kept :: "piece list \<Rightarrow> piece list" where
  "kept [] = []"
| "kept (p # ps) = (if ps = [] \<and> is_lit p then [] else p # kept ps)"

lemma kept_eq: "kept ps = (if ps \<noteq> [] \<and> is_lit (last ps) then butlast ps else ps)"
  by (induction ps) auto

lemma alpha_name_char: "isalpha c \<Longrightarrow> name_char c"
  by (simp add: name_char_def)

lemma special_not_name [simp]: "\<not> name_char (CHR ''%'')" "\<not> name_char (CHR ''{'')"
  by (simp_all add: name_char_def isalpha_def isupper_def islower_def ord_of_def)

lemma not_brace_close [simp]: "\<not> not_brace (CHR ''}'')"
  by (simp add: not_brace_def)

lemma takeWhile_all_append:
  "list_all P n \<Longrightarrow> takeWhile P (n @ r) = n @ takeWhile P r"
  "list_all P n \<Longrightarrow> dropWhile P (n @ r) = dropWhile P r"
  by (induction n) auto

lemma names_all: "list_all isalpha n \<Longrightarrow> list_all name_char n"
  by (auto simp: list_all_iff alpha_name_char)

lemma spec_field_plain:
  assumes "list_all isalpha n" and "r = [] \<or> \<not> name_char (hd r) \<and> hd r \<noteq> CHR ''{''"
  shows "spec_field (n @ r) = ((n, [], 1), if r = [] then None else Some r)"
proof (cases r)
  case Nil
  have tw: "takeWhile name_char n = n" and dw: "dropWhile name_char n = []"
    using takeWhile_all_append [OF names_all [OF assms(1)], of "[]"] by simp_all
  show ?thesis unfolding spec_field_def Nil append_Nil2 tw dw by simp
next
  case (Cons d ds)
  with assms show ?thesis
    by (simp add: spec_field_def takeWhile_all_append names_all)
qed

lemma spec_field_braced:
  assumes "list_all isalpha n" and "list_all not_brace a"
  shows "spec_field (n @ CHR ''{'' # a @ CHR ''}'' # r) = ((n, a, 1), Some r)"
  using assms by (simp add: spec_field_def takeWhile_all_append names_all)

lemma spec_tokens_text:
  "CHR ''%'' \<notin> set s \<Longrightarrow> spec_tokens lit (s @ cs) = spec_tokens (lit @ s) cs"
  by (induction s arbitrary: lit) auto

lemma render_follows:
  assumes "pieces_ok (Fld n # ps)"
  shows "render ps = [] \<longleftrightarrow> ps = []"
    and "ps = [] \<or> \<not> name_char (hd (render ps)) \<and> hd (render ps) \<noteq> CHR ''{''"
  using assms by (cases ps; cases "hd ps"; auto simp: render_def)+

lemma alpha_hd_not_percent: "list_all isalpha n \<Longrightarrow> n \<noteq> [] \<Longrightarrow> hd n \<noteq> CHR ''%''"
  by (cases n) (auto simp: isalpha_def isupper_def islower_def ord_of_def)

lemma spec_tokens_pieces:
  assumes "pieces_ok ps" and "lit = [] \<or> ps = [] \<or> \<not> is_lit (hd ps)"
  shows "spec_tokens lit (render ps) =
     (if ps = [] then [] else flush_lit lit @ map token_of (kept ps))"
  using assms
proof (induction ps arbitrary: lit)
  case Nil
  show ?case by (simp add: render_def)
next
  case (Cons p ps)
  have ok: "pieces_ok ps" using Cons.prems(1) by simp
  show ?case
  proof (cases p)
    case (Lit s)
    with Cons.prems have s: "lit = []" "s \<noteq> []" "CHR ''%'' \<notin> set s" by auto
    have "ps = [] \<or> \<not> is_lit (hd ps)" using Cons.prems(1) Lit by (cases ps) auto
    then have "spec_tokens s (render ps) =
        (if ps = [] then [] else flush_lit s @ map token_of (kept ps))"
      using Cons.IH [OF ok, of s] by auto
    with s Lit show ?thesis
      by (simp add: render_def spec_tokens_text flush_lit_def)
  next
    case (Fld n)
    have n: "n \<noteq> []" "list_all isalpha n" using Cons.prems(1) Fld by auto
    have nh: "hd (n @ render ps) \<noteq> CHR ''%''" using n alpha_hd_not_percent by simp
    have "spec_field (n @ render ps) = ((n, [], 1), if ps = [] then None else Some (render ps))"
      using spec_field_plain [OF n(2), of "render ps"] render_follows [of n ps] Cons.prems(1) Fld
      by auto
    with nh n Fld Cons.IH [OF ok, of "[]"] show ?thesis
      by (simp add: render_def flush_lit_def)
  next
    case (FldArg n a)
    then have n: "list_all isalpha n" "list_all not_brace a" using Cons.prems(1) by auto
    have nh: "hd (n @ CHR ''{'' # a @ CHR ''}'' # render ps) \<noteq> CHR ''%''"
      using n alpha_hd_not_percent [of n] by (cases n) auto
    have "spec_tokens [] (render ps) = map token_of (kept ps)"
      using Cons.IH [OF ok, of "[]"] by (auto simp: flush_lit_def)
    with nh FldArg spec_field_braced [OF n, of "render ps"] show ?thesis
      by (simp add: render_def)
  qed
qed

lemma parse_render: "pieces_ok ps \<Longrightarrow> fst (parse_pattern (render ps)) = map token_of (kept ps)"
  by (simp add: parse_pattern_spec spec_tokens_pieces flush_lit_def)

section \<open>Formatting\<close>

lemma s_format_items_Some_simple:
  "item_of_token (str, fmt, Suc 0) =
     (case s_format_items str of None \<Rightarrow> StringFormatItem (''<<error_format %'' @ str @ ''>>'')
      | Some mk \<Rightarrow> mk fmt)"
  by (simp add: item_of_token_def)

lemma LogFormatter_fields [simp]:
  "f_pattern (fst (LogFormatter p)) = p"
  "f_items (fst (LogFormatter p)) = map item_of_token (fst (parse_pattern p))"
  by (simp_all add: LogFormatter_def formatter_init_def split: prod.splits)

lemma setPattern_fields [simp]:
  "f_pattern (fst (setPattern p f)) = p"
  "f_items (fst (setPattern p f)) = f_items f @ map item_of_token (fst (parse_pattern p))"
  by (simp_all add: setPattern_def formatter_init_def split: prod.splits)

text \<open>What a piece stands for in the line of an event.\<close>

definition piece_text :: "'a time_env_scheme \<Rightarrow> string \<Rightarrow> level \<Rightarrow> event \<Rightarrow> piece \<Rightarrow> string" where
  "piece_text E name lv ev p = item_format E name lv ev (item_of_token (token_of p))"

lemma formatter_format_pieces:
  "pieces_ok ps \<Longrightarrow> formatter_format E (fst (LogFormatter (render ps))) name lv ev =
     concat (map (piece_text E name lv ev) (kept ps))"
  by (simp add: formatter_format_def parse_render piece_text_def [abs_def] comp_def)

lemma default_pattern_tokens:
  "fst (parse_pattern default_pattern) =
     [(''d'', ''%Y-%m-%d %H:%M:%S'', 1), (''T'', [], 1), (''t'', [], 1), (''T'', [], 1),
      (''F'', [], 1), (''T'', [], 1), (''['', [], 0), (''p'', [], 1), ('']'', [], 0),
      (''T'', [], 1), (''['', [], 0), (''c'', [], 1), ('']'', [], 0), (''T'', [], 1),
      (''f'', [], 1), ('':'', [], 0), (''l'', [], 1), (''T'', [], 1), (''m'', [], 1)]"
  unfolding parse_pattern_spec by code_simp

section \<open>Properties\<close>

text \<open>
  C2 (LogFormatter::init). The index-driven two-loop parser computes the specification on every
  pattern: same tokens in the same order, whatever the pattern is (unknown fields, unclosed
  braces, a percent sign at the end included). In particular it always returns.
\<close>

theorem init_refines_spec: "fst (parse_pattern p) = spec_tokens [] p"
  by (rule parse_pattern_spec)

text \<open>
  C3 (LogFormatter). A pattern written from well-formed pieces parses back to these pieces, in
  order, and a formatted event is the concatenation of what they stand for; but when the last
  piece is a text, that text is lost, in the parse and in every line. A pattern that ends with a
  field loses nothing.
\<close>

theorem pattern_roundtrip:
  assumes "pieces_ok ps"
  shows "fst (parse_pattern (render ps)) = map token_of (kept ps) \<and>
    formatter_format E (fst (LogFormatter (render ps))) name lv ev =
      concat (map (piece_text E name lv ev) (kept ps)) \<and>
    kept ps = (if ps \<noteq> [] \<and> is_lit (last ps) then butlast ps else ps)"
  using assms kept_eq by (simp add: parse_render formatter_format_pieces)

definition sample_pieces :: "piece list" where
  "sample_pieces =
     [FldArg ''d'' ''%Y-%m-%d %H:%M:%S'', Fld ''T'', Lit ''['', Fld ''p'', Lit '']'', Fld ''T'', Fld ''m'']"

theorem pattern_roundtrip_witness:
  "pieces_ok sample_pieces \<and> kept sample_pieces = sample_pieces \<and>
   fst (parse_pattern (render sample_pieces)) =
     [(''d'', ''%Y-%m-%d %H:%M:%S'', 1), (''T'', [], 1), (''['', [], 0), (''p'', [], 1),
      ('']'', [], 0), (''T'', [], 1), (''m'', [], 1)]"
proof -
  have ok: "pieces_ok sample_pieces" by code_simp
  have kept: "map token_of (kept sample_pieces) =
     [(''d'', ''%Y-%m-%d %H:%M:%S'', 1), (''T'', [], 1), (''['', [], 0), (''p'', [], 1),
      ('']'', [], 0), (''T'', [], 1), (''m'', [], 1)]"
    by code_simp
  have "fst (parse_pattern (render sample_pieces)) = map token_of (kept sample_pieces)"
    using pattern_roundtrip [OF ok] by blast
  moreover have "kept sample_pieces = sample_pieces"
    using pattern_roundtrip [OF ok] by (simp add: sample_pieces_def)
  ultimately show ?thesis using ok kept by simp
qed

text \<open>
  The default pattern of \<^verbatim>\<open>Logger\<close> and \<^verbatim>\<open>createLogger\<close> makes the
  line the code means it to make: date, thread, fiber, level, logger, file and line, message,
  separated by tabs.
\<close>

theorem default_line:
  "formatter_format E (fst (LogFormatter default_pattern)) name lv ev =
     time_text E default_time_format (e_localtime E (ev_time ev)) @ [CHR 0x09] @
     show_u32 (ev_threadId ev) @ [CHR 0x09] @ show_u32 (ev_fiberId ev) @ [CHR 0x09] @
     ''['' @ ToString lv @ '']'' @ [CHR 0x09] @ ''['' @ name @ '']'' @ [CHR 0x09] @
     ev_file ev @ '':'' @ show_i32 (ev_line ev) @ [CHR 0x09] @ getContent ev"
  by (simp add: formatter_format_def default_pattern_tokens item_of_token_def s_format_items_def
      mk_TimeFormatItem_def default_time_format_def)

text \<open>
  \<^verbatim>\<open>LogFormatter::init\<close>: a text that no field follows is dropped: a pattern without a percent
  sign formats every event to the empty string, and the text behind the last field of a
  pattern does not appear.
\<close>

theorem trailing_text_dropped:
  assumes "CHR ''%'' \<notin> set s"
  shows "formatter_format E (fst (LogFormatter s)) name lv ev = [] \<and>
    (pieces_ok (ps @ [Lit s]) \<longrightarrow>
      formatter_format E (fst (LogFormatter (render (ps @ [Lit s])))) name lv ev =
      concat (map (piece_text E name lv ev) ps))"
proof
  show "formatter_format E (fst (LogFormatter s)) name lv ev = []"
    using spec_tokens_text [OF assms, of "[]" "[]"]
    by (simp add: formatter_format_def parse_pattern_spec)
  have "pieces_ok (ps @ [Lit s]) \<Longrightarrow> kept (ps @ [Lit s]) = ps"
    by (induction ps) auto
  then show "pieces_ok (ps @ [Lit s]) \<longrightarrow>
      formatter_format E (fst (LogFormatter (render (ps @ [Lit s])))) name lv ev =
      concat (map (piece_text E name lv ev) ps)"
    using formatter_format_pieces by metis
qed

theorem trailing_text_dropped_witness:
  "formatter_format \<lparr>e_localtime = \<lambda>_. \<lparr>tm_year = 2024, tm_mon = 0, tm_mday = 1, tm_hour = 0,
     tm_min = 0, tm_sec = 0\<rparr>, e_strftime = \<lambda>f t. [], e_stale = []\<rparr>
     (fst (LogFormatter ''[%p] done'')) ''root'' INFO (LogEvent ''a.cpp'' 1 0 0 0 0 [] INFO)
   = ''[INFO''" (is "formatter_format ?E _ _ _ ?ev = _")
proof -
  have plain: "CHR ''%'' \<notin> set ''] done''" by simp
  have ok: "pieces_ok ([Lit ''['', Fld ''p''] @ [Lit ''] done''])" by code_simp
  have shape: "render ([Lit ''['', Fld ''p''] @ [Lit ''] done'']) = ''[%p] done''"
    by (simp add: render_def)
  have "formatter_format ?E (fst (LogFormatter ''[%p] done'')) ''root'' INFO ?ev =
      concat (map (piece_text ?E ''root'' INFO ?ev) [Lit ''['', Fld ''p''])"
    using trailing_text_dropped [OF plain, of ?E "''root''" INFO ?ev "[Lit ''['', Fld ''p'']"] ok
    unfolding shape by blast
  also have "\<dots> = ''[INFO''"
    by (simp add: piece_text_def item_of_token_def s_format_items_def ToString_def)
  finally show ?thesis .
qed

text \<open>
  \<^verbatim>\<open>LogFormatter::init\<close>: a doubled percent sign does not stand for one percent sign: the first
  of the two prints a percent sign, and the second one still starts a field.
\<close>

theorem doubled_percent_starts_field:
  assumes "pieces_ok (Fld n # ps)"
  shows "fst (parse_pattern (CHR ''%'' # render (Fld n # ps))) =
         (''%'', [], 0) # map token_of (kept (Fld n # ps))"
proof -
  have "spec_tokens ''%'' (render (Fld n # ps)) =
      flush_lit ''%'' @ map token_of (kept (Fld n # ps))"
    using spec_tokens_pieces [OF assms, of "''%''"] by simp
  then show ?thesis
    by (simp add: parse_pattern_spec flush_lit_def render_def)
qed

theorem doubled_percent_starts_field_witness:
  "fst (parse_pattern ''%%m'') = [(''%'', [], 0), (''m'', [], 1)]"
proof -
  have ok: "pieces_ok [Fld ''m'']" by code_simp
  show ?thesis
    using doubled_percent_starts_field [OF ok] by (simp add: render_def)
qed

text \<open>
  \<^verbatim>\<open>LogFormatter::setPattern\<close>: a new pattern does not replace the items of the old one: the
  line of a formatter whose pattern was set again is the old line followed by the new one.
\<close>

theorem setPattern_keeps_old_items:
  "formatter_format E (fst (setPattern q (fst (LogFormatter p)))) name lv ev =
     formatter_format E (fst (LogFormatter p)) name lv ev @
     formatter_format E (fst (LogFormatter q)) name lv ev"
  by (simp add: formatter_format_def)

text \<open>
  The calendar times \<^verbatim>\<open>localtime_r\<close> can give: the month, day, hour, minute and second in their
  ranges, and any year that fits the 32-bit field, which counts from 1900.
\<close>

definition tm_ok :: "tm \<Rightarrow> bool" where
  "tm_ok t \<longleftrightarrow> 1900 - 2 ^ 31 \<le> tm_year t \<and> tm_year t < 1900 + 2 ^ 31 \<and> tm_mon t < 12
     \<and> tm_mday t < 32 \<and> tm_hour t < 24 \<and> tm_min t < 60 \<and> tm_sec t \<le> 60"

lemma default_time_simple:
  "simple_fmt default_time_format"
  "strftime_simple default_time_format t = show_int (tm_year t) @ ''-'' @ pad2 (tm_mon t + 1) @
     ''-'' @ pad2 (tm_mday t) @ '' '' @ pad2 (tm_hour t) @ '':'' @ pad2 (tm_min t) @ '':'' @
     pad2 (tm_sec t)"
  by (simp_all add: default_time_format_def simple_convs_def strftime_conv_def)

text \<open>
  C4 (TimeFormatItem). With the default time format every calendar time \<^verbatim>\<open>localtime_r\<close> can give,
  whatever its 32-bit year, fits the 64-byte buffer: what is printed is the formatted time, never
  stale bytes. It takes 26 characters at most, and nineteen for a year of four digits. (Where
  \<^verbatim>\<open>localtime_r\<close> fails the code formats an indeterminate \<^verbatim>\<open>tm\<close>, and nothing is claimed.)
\<close>

theorem default_time_fits:
  assumes "tm_ok t"
  shows "time_text E default_time_format t = strftime_simple default_time_format t \<and>
    length (time_text E default_time_format t) \<le> 26 \<and>
    (1000 \<le> tm_year t \<and> tm_year t < 10000 \<longrightarrow>
       length (time_text E default_time_format t) = 19)"
proof -
  have len: "length (strftime_simple default_time_format t) = length (show_int (tm_year t)) + 15"
    using assms by (simp add: default_time_simple length_pad2 tm_ok_def)
  moreover have "length (show_int (tm_year t)) \<le> 11"
    using assms by (intro length_show_int_le) (simp_all add: tm_ok_def)
  moreover have "length (show_int (tm_year t)) = 4"
    if "1000 \<le> tm_year t \<and> tm_year t < 10000"
  proof -
    have "1000 \<le> nat (tm_year t)" "nat (tm_year t) < 10000" using that by arith+
    then show ?thesis using that by (simp add: show_int_def length_show_nat4)
  qed
  ultimately show ?thesis by (auto simp add: time_text_def default_time_simple(1))
qed

theorem default_time_fits_witness:
  "time_text \<lparr>e_localtime = \<lambda>_. undefined, e_strftime = \<lambda>f t. [], e_stale = ''?''\<rparr>
     default_time_format
     \<lparr>tm_year = 2147485547, tm_mon = 11, tm_mday = 31, tm_hour = 23, tm_min = 59, tm_sec = 59\<rparr>
   = ''2147485547-12-31 23:59:59''"
proof -
  let ?t = "\<lparr>tm_year = 2147485547, tm_mon = 11, tm_mday = 31, tm_hour = 23, tm_min = 59,
      tm_sec = 59\<rparr>"
  have ok: "tm_ok ?t" by (simp add: tm_ok_def)
  have "strftime_simple default_time_format ?t = ''2147485547-12-31 23:59:59''"
    by (simp add: default_time_simple show_int_def show_nat.simps pad2_def char_of_def
        bit_0)
  with default_time_fits [OF ok, THEN conjunct1] show ?thesis by (rule trans)
qed

end
