(* ===== verification/LogSpec.thy ===== *)
theory LogSpec
  imports LogSystem PatternSpec
begin

text \<open>
  What logging promises: it touches nothing but the streams and the output (frame), it needs no
  formatter that is missing (well-formed states), which lines appear where, when it returns, and
  when it recurses until the stack is used up.
\<close>

section \<open>The skeleton of a state\<close>

text \<open>The state with the streams and the output erased: what logging must leave alone.\<close>

definition strip :: "appender \<Rightarrow> appender" where
  "strip ap = (case a_kind ap of StdoutKind \<Rightarrow> ap
     | FileKind path _ \<Rightarrow> ap\<lparr>a_kind := FileKind path closed_stream\<rparr>)"

definition skel :: "sys \<Rightarrow> logger list \<times> appender list \<times> (string, nat) smap \<times> nat" where
  "skel s = (s_loggers s, map strip (s_appenders s), s_map s, s_root s)"

definition log_frame :: "sys \<Rightarrow> sys \<Rightarrow> bool" where
  "log_frame s s' \<longleftrightarrow> skel s' = skel s \<and> (\<exists>es. s_out s' = s_out s @ es)"

lemma log_frame_refl [simp]: "log_frame s s"
  by (simp add: log_frame_def)

lemma log_frame_trans: "log_frame s t \<Longrightarrow> log_frame t u \<Longrightarrow> log_frame s u"
  by (auto simp: log_frame_def)

lemma skel_fields:
  assumes "skel s' = skel s"
  shows "s_loggers s' = s_loggers s" "s_map s' = s_map s" "s_root s' = s_root s"
    "length (s_appenders s') = length (s_appenders s)"
    "map strip (s_appenders s') = map strip (s_appenders s)"
  using assms by (auto simp: skel_def dest: arg_cong [of _ _ length])

lemma strip_fields [simp]:
  "a_level (strip ap) = a_level ap" "a_formatter (strip ap) = a_formatter ap"
  "a_custom (strip ap) = a_custom ap" "getFilepath (strip ap) = getFilepath ap"
  "getAppenderType (strip ap) = getAppenderType ap"
  by (simp_all add: strip_def getFilepath_def getAppenderType_def split: akind.splits)

lemma skel_strip_nth:
  assumes "skel s' = skel s" and "a < length (s_appenders s)"
  shows "strip (s_appenders s' ! a) = strip (s_appenders s ! a)"
  using assms by (metis skel_fields(4,5) nth_map)

lemma skel_appender_fields:
  assumes "skel s' = skel s" and "a < length (s_appenders s)"
  shows "a_level (s_appenders s' ! a) = a_level (s_appenders s ! a)"
    "a_formatter (s_appenders s' ! a) = a_formatter (s_appenders s ! a)"
    "a_custom (s_appenders s' ! a) = a_custom (s_appenders s ! a)"
    "getFilepath (s_appenders s' ! a) = getFilepath (s_appenders s ! a)"
    "getAppenderType (s_appenders s' ! a) = getAppenderType (s_appenders s ! a)"
  using skel_strip_nth [OF assms] by (metis strip_fields)+

lemma skel_emit [simp]: "skel (emit es s) = skel s"
  by (simp add: skel_def emit_def)

lemma log_frame_emit [simp]: "log_frame s (emit es s)"
  by (simp add: log_frame_def) (simp add: emit_def)

lemma skel_stream:
  assumes "a_kind (s_appenders s ! a) = FileKind path st"
  shows "skel (upd_appender a (\<lambda>ap. ap\<lparr>a_kind := FileKind path st'\<rparr>) s) = skel s"
proof -
  have "map strip ((s_appenders s)[a := (s_appenders s ! a)\<lparr>a_kind := FileKind path st'\<rparr>]) =
        map strip (s_appenders s)"
  proof (cases "a < length (s_appenders s)")
    case True
    have "strip ((s_appenders s ! a)\<lparr>a_kind := FileKind path st'\<rparr>) = strip (s_appenders s ! a)"
      using assms by (simp add: strip_def)
    then show ?thesis using True by (simp add: map_update list_update_same_conv)
  next
    case False
    then show ?thesis by (simp add: list_update_beyond)
  qed
  then show ?thesis by (simp add: skel_def upd_appender_def)
qed

lemma s_out_upd_appender [simp]: "s_out (upd_appender a f s) = s_out s"
  by (simp add: upd_appender_def)

lemma s_out_emit [simp]: "s_out (emit es s) = s_out s @ es"
  by (simp add: emit_def)

lemma log_frame_reopen: "log_frame s (fst (reopen E a s))"
  by (auto simp: reopen_def log_frame_def skel_stream split: akind.splits prod.splits)

lemma log_frame_file_write: "log_frame s (file_write E a txt s)"
  by (auto simp: file_write_def log_frame_def skel_stream split: akind.splits prod.splits)

section \<open>The contract of the appenders' error reports\<close>

text \<open>
  An appender relies on one operation from outside, the report of a failure. A property of
  states that the stream operations, the output and the report keep is kept by every appender,
  and so by the loop of \<^verbatim>\<open>Logger::log\<close> over them.
\<close>

locale reporter =
  fixes E :: env
    and report :: "string \<Rightarrow> sys \<Rightarrow> sys res"
    and P :: "sys \<Rightarrow> bool"
  assumes keep_emit: "P t \<Longrightarrow> P (emit es t)"
    and keep_reopen: "P t \<Longrightarrow> \<not> is_open (s_appenders t ! a) \<Longrightarrow> P (fst (reopen E a t))"
    and keep_write: "P t \<Longrightarrow> P (file_write E a txt t)"
    and keep_report: "P t \<Longrightarrow> report msg t = Inr t' \<Longrightarrow> P t'"
begin

lemma keep_Stdout_log: "P t \<Longrightarrow> Stdout_log E lv ev l a t = Inr t' \<Longrightarrow> P t'"
  by (auto simp: Stdout_log_def Let_def keep_emit split: if_splits option.splits)

lemma keep_File_log:
  assumes "P t" and ret: "File_log report E lv ev l a t = Inr t'"
  shows "P t'"
proof -
  define s1 where "s1 = (if is_open (s_appenders t ! a) then t else fst (reopen E a t))"
  have s1: "P s1" using assms(1) keep_reopen by (simp add: s1_def)
  have "t' = t \<or> (\<exists>txt. t' = file_write E a txt s1) \<or> (\<exists>msg. report msg s1 = Inr t')"
    using ret unfolding File_log_def Let_def s1_def [symmetric]
    by (auto split: if_split_asm option.split_asm)
  then show ?thesis using assms(1) s1 keep_write keep_report by blast
qed

lemma keep_Appender_log:
  "P t \<Longrightarrow> Appender_log report E lv ev l a t = Inr t' \<Longrightarrow> P t'"
  unfolding Appender_log_def
  by (cases "a_kind (s_appenders t ! a)") (auto intro: keep_Stdout_log keep_File_log)

lemma keep_loop:
  "P t \<Longrightarrow> fold_res (Appender_log report E lv ev l) as t = Inr t' \<Longrightarrow> P t'"
  by (rule fold_res_inv [of "Appender_log report E lv ev l" as t t' P])
    (auto intro: keep_Appender_log)

lemma loop_error:
  "P t \<Longrightarrow> fold_res (Appender_log report E lv ev l) as t = Inl e \<Longrightarrow>
     \<exists>a \<in> set as. \<exists>u. P u \<and> Appender_log report E lv ev l a u = Inl e"
  by (rule fold_res_errorD [of "Appender_log report E lv ev l" as t e P])
    (auto intro: keep_Appender_log)

end

lemma report_root_keep:
  assumes "\<And>l lv ev t t'. P t \<Longrightarrow> Logger_log d E l lv ev t = Inr t' \<Longrightarrow> P t'"
    and "P t" and "report_root d E msg t = Inr t'"
  shows "P t'"
  using assms by (auto simp: report_root_def ZNS_LOG_eq split: if_splits)

text \<open>Properties kept by the primitive effects are kept by logging, to any depth.\<close>

lemma Logger_log_keep:
  assumes emit: "\<And>t es. P t \<Longrightarrow> P (emit es t)"
    and reop: "\<And>t a. P t \<Longrightarrow> \<not> is_open (s_appenders t ! a) \<Longrightarrow> P (fst (reopen E a t))"
    and wr: "\<And>t a txt. P t \<Longrightarrow> P (file_write E a txt t)"
    and start: "P t" and ret: "Logger_log d E l lv ev t = Inr t'"
  shows "P t'"
  using start ret
proof (induction d arbitrary: l lv ev t t')
  case 0
  then show ?case by simp
next
  case (Suc d)
  have "reporter E (report_root d E) P"
    by (rule reporter.intro) (fact emit, fact reop, fact wr, rule report_root_keep [of P d E, OF Suc.IH])
  from reporter.keep_loop [OF this Suc.prems(1)] Suc.prems show ?case
    by (auto simp: Logger_log_Suc split: if_splits)
qed


section \<open>Frame\<close>

lemma log_frame_step:
  assumes "log_frame s t"
  shows "log_frame s (emit es t)" "log_frame s (fst (reopen E a t))"
    "log_frame s (file_write E b txt t)"
  by (rule log_frame_trans [OF assms], simp add: log_frame_reopen log_frame_file_write)+

lemma Logger_log_frame_from:
  assumes "log_frame s t" and "Logger_log d E l lv ev t = Inr t'"
  shows "log_frame s t'"
  using Logger_log_keep [where P = "log_frame s", OF log_frame_step(1) log_frame_step(2)
      log_frame_step(3) assms] .

lemma report_root_frame: "log_frame s t \<Longrightarrow> report_root d E msg t = Inr t' \<Longrightarrow> log_frame s t'"
  by (rule report_root_keep [where P = "log_frame s", OF Logger_log_frame_from])

interpretation log_rep: reporter E "report_root d E" "log_frame s0" for E d s0
  by (rule reporter.intro)
    (erule log_frame_step(1), erule log_frame_step(2), erule log_frame_step(3),
      erule (1) report_root_frame)

lemma Logger_log_frame: "Logger_log d E l lv ev s = Inr s' \<Longrightarrow> log_frame s s'"
  by (rule Logger_log_frame_from [OF log_frame_refl])

lemma ZNS_LOG_frame: "ZNS_LOG (Logger_log d E) E l lv file line txt s = Inr s' \<Longrightarrow> log_frame s s'"
  by (auto simp: ZNS_LOG_eq split: if_splits dest: Logger_log_frame)

section \<open>Well-formed states\<close>

definition appender_ready :: "sys \<Rightarrow> nat \<Rightarrow> bool" where
  "appender_ready s a \<longleftrightarrow> a < length (s_appenders s) \<and> a_formatter (s_appenders s ! a) \<noteq> None"

definition sys_wf :: "sys \<Rightarrow> bool" where
  "sys_wf s \<longleftrightarrow> s_root s < length (s_loggers s) \<and> smap_ok (s_map s) \<and>
     (\<forall>l \<in> snd ` set (s_map s). l < length (s_loggers s)) \<and>
     (\<forall>lg \<in> set (s_loggers s). \<forall>a \<in> set (l_appenders lg). appender_ready s a)"

lemma appender_ready_skel:
  assumes "skel s' = skel s"
  shows "appender_ready s' a \<longleftrightarrow> appender_ready s a"
  using skel_fields(4) [OF assms] skel_appender_fields(2) [OF assms]
  by (auto simp: appender_ready_def)

lemma sys_wf_skel:
  assumes "skel s' = skel s"
  shows "sys_wf s' \<longleftrightarrow> sys_wf s"
  unfolding sys_wf_def appender_ready_skel [OF assms]
  by (simp only: skel_fields(1-3) [OF assms])

lemma log_frame_wf: "log_frame s s' \<Longrightarrow> sys_wf s \<Longrightarrow> sys_wf s'"
  using sys_wf_skel [of s' s] by (simp add: log_frame_def)

lemma log_frame_loggers:
  assumes "log_frame s s'"
  shows "s_loggers s' = s_loggers s" "s_root s' = s_root s" "s_map s' = s_map s"
    "length (s_appenders s') = length (s_appenders s)"
  using assms skel_fields [of s' s] by (auto simp: log_frame_def)

lemma log_frame_ready: "log_frame s s' \<Longrightarrow> appender_ready s' a \<longleftrightarrow> appender_ready s a"
  using appender_ready_skel [of s' s] by (simp add: log_frame_def)

lemma log_frame_appender:
  assumes "log_frame s s'" and "appender_ready s a"
  shows "a_level (s_appenders s' ! a) = a_level (s_appenders s ! a)"
    "a_formatter (s_appenders s' ! a) = a_formatter (s_appenders s ! a)"
    "getFilepath (s_appenders s' ! a) = getFilepath (s_appenders s ! a)"
    "getAppenderType (s_appenders s' ! a) = getAppenderType (s_appenders s ! a)"
  using assms skel_appender_fields [of s' s a] by (auto simp: log_frame_def appender_ready_def)

lemma wf_appender_ready:
  "sys_wf s \<Longrightarrow> l < length (s_loggers s) \<Longrightarrow> a \<in> set (l_appenders (s_loggers s ! l)) \<Longrightarrow>
     appender_ready s a"
  unfolding sys_wf_def by (metis nth_mem)

text \<open>An appender with a formatter returns, unless it reports that its file cannot be opened.\<close>

lemma Appender_log_cases:
  assumes "appender_ready s a"
  obtains (returns) s' where "Appender_log report E lv ev l a s = Inr s'"
  | (reports) "Appender_log report E lv ev l a s =
        report (''Failed to open log file: '' @ the (getFilepath (s_appenders s ! a))) (fst (reopen E a s))"
      "a_level (s_appenders s ! a) \<le> lv" "\<not> is_open (s_appenders s ! a)"
      "getAppenderType (s_appenders s ! a) = ''file''"
proof -
  have ready: "a_formatter (s_appenders t ! a) \<noteq> None" if "log_frame s t" for t
    using log_frame_ready [OF that, of a] assms by (simp add: appender_ready_def)
  show ?thesis
  proof (cases "a_kind (s_appenders s ! a)")
    case StdoutKind
    obtain f where "a_formatter (s_appenders s ! a) = Some f"
      using assms by (auto simp: appender_ready_def)
    with StdoutKind have "\<exists>s'. Appender_log report E lv ev l a s = Inr s'"
      by (simp add: Appender_log_def Stdout_log_def Let_def)
    then show ?thesis using that(1) by blast
  next
    case (FileKind path st)
    define s1 where "s1 = (if is_open (s_appenders s ! a) then s else fst (reopen E a s))"
    have "log_frame s s1" by (simp add: s1_def log_frame_reopen)
    then obtain f where f: "a_formatter (s_appenders s1 ! a) = Some f"
      using ready [of s1] by blast
    have as_file: "Appender_log report E lv ev l a s = File_log report E lv ev l a s"
      by (simp add: Appender_log_def FileKind)
    have path: "getFilepath (s_appenders s ! a) = Some path"
      by (simp add: getFilepath_def FileKind)
    consider "\<not> a_level (s_appenders s ! a) \<le> lv"
      | "a_level (s_appenders s ! a) \<le> lv" "is_open (s_appenders s1 ! a)"
      | "a_level (s_appenders s ! a) \<le> lv" "\<not> is_open (s_appenders s1 ! a)" by blast
    then show ?thesis
    proof cases
      case 1
      then show ?thesis using that(1) as_file by (simp add: File_log_def Let_def)
    next
      case 2
      then have "Appender_log report E lv ev l a s =
          Inr (file_write E a (formatter_format E f (l_name (s_loggers s1 ! l)) lv ev) s1)"
        unfolding as_file File_log_def Let_def s1_def [symmetric] using f by simp
      then show ?thesis by (rule that(1))
    next
      case 3
      then have closed: "\<not> is_open (s_appenders s ! a)" "s1 = fst (reopen E a s)"
        by (auto simp: s1_def split: if_splits)
      have "Appender_log report E lv ev l a s = report (''Failed to open log file: '' @ path) s1"
        unfolding as_file File_log_def Let_def s1_def [symmetric] using 3 path by simp
      with that(2) 3 closed path show ?thesis
        by (simp add: getAppenderType_def FileKind)
    qed
  qed
qed

section \<open>The only failure of logging\<close>

lemma Logger_log_only_overflow:
  assumes "sys_wf s" and "l < length (s_loggers s)" and "Logger_log d E l lv ev s = Inl e"
  shows "e = StackOverflow"
  using assms
proof (induction d arbitrary: l lv ev s)
  case 0
  then show ?case by simp
next
  case (Suc d)
  let ?f = "Appender_log (report_root d E) E lv ev l"
  have "fold_res ?f (l_appenders (s_loggers s ! l)) s = Inl e"
    using Suc.prems(3) by (simp add: Logger_log_Suc split: if_splits)
  then obtain a t where a: "a \<in> set (l_appenders (s_loggers s ! l))" "log_frame s t" "?f a t = Inl e"
    using log_rep.loop_error [OF log_frame_refl] by blast
  have "appender_ready t a"
    using wf_appender_ready [OF Suc.prems(1,2) a(1)] log_frame_ready [OF a(2)] by simp
  then show ?case
  proof (cases rule: Appender_log_cases [of t a "report_root d E" E lv ev l])
    case returns
    with a(3) show ?thesis by simp
  next
    case reports
    define u where "u = fst (reopen E a t)"
    have "log_frame s u" using a(2) log_frame_reopen log_frame_trans unfolding u_def by blast
    then have u: "sys_wf u" "s_root u < length (s_loggers u)"
      using log_frame_wf [OF _ Suc.prems(1)] by (auto simp: sys_wf_def)
    with a(3) reports(1) Suc.IH [OF u] show ?thesis
      by (auto simp: report_root_def ZNS_LOG_eq u_def split: if_splits)
  qed
qed

section \<open>When logging returns\<close>

text \<open>
  The root logger cannot come back to a failing file: it does not take errors, or each of its
  appenders is the console, does not take errors, or already has its file open.
\<close>

definition quiet_appender :: "sys \<Rightarrow> nat \<Rightarrow> bool" where
  "quiet_appender s a \<longleftrightarrow> getAppenderType (s_appenders s ! a) = ''stdout'' \<or>
     \<not> a_level (s_appenders s ! a) \<le> ERROR \<or> is_open (s_appenders s ! a)"

definition root_safe :: "sys \<Rightarrow> bool" where
  "root_safe s \<longleftrightarrow> \<not> l_level (s_loggers s ! s_root s) \<le> ERROR \<or>
     (\<forall>a \<in> set (l_appenders (s_loggers s ! s_root s)). quiet_appender s a)"

lemma stream_kind_other:
  "a \<noteq> b \<Longrightarrow> s_appenders (upd_appender a f s) ! b = s_appenders s ! b"
  by (simp add: upd_appender_def)

lemma is_open_reopen_other:
  assumes "is_open (s_appenders s ! b)" and "\<not> is_open (s_appenders s ! a)"
  shows "is_open (s_appenders (fst (reopen E a s)) ! b)"
proof -
  have "a \<noteq> b" using assms by auto
  then show ?thesis
    using assms by (auto simp: reopen_def emit_def stream_kind_other split: akind.splits prod.splits)
qed

lemma stream_write_open: "st_open (fst (stream_write E h txt st)) = st_open st"
  by (simp add: stream_write_def split: option.splits)

lemma is_open_file_write:
  assumes "is_open (s_appenders s ! b)"
  shows "is_open (s_appenders (file_write E a txt s) ! b)"
proof (cases "a = b \<and> b < length (s_appenders s)")
  case True
  then show ?thesis
    using assms stream_write_open
    by (auto simp: file_write_def emit_def upd_appender_def is_open_def
        split: akind.splits prod.splits) (metis fst_conv not_None_eq)
next
  case False
  then have "s_appenders (upd_appender a f s) ! b = s_appenders s ! b" for f
    by (cases "a = b") (auto simp: upd_appender_def list_update_beyond)
  then show ?thesis
    using assms by (auto simp: file_write_def emit_def split: akind.splits prod.splits)
qed

lemma s_appenders_emit [simp]: "s_appenders (emit es s) = s_appenders s"
  "s_loggers (emit es s) = s_loggers s" "s_root (emit es s) = s_root s"
  "s_map (emit es s) = s_map s"
  by (simp_all add: emit_def)

text \<open>Safety of the root logger survives every step of logging.\<close>

lemma root_safe_mono:
  assumes "root_safe s" and "sys_wf s" and "log_frame s t"
    and "\<And>b. is_open (s_appenders s ! b) \<Longrightarrow> is_open (s_appenders t ! b)"
  shows "root_safe t"
proof -
  note same = log_frame_loggers [OF assms(3)]
  have "quiet_appender t a"
    if "a \<in> set (l_appenders (s_loggers s ! s_root s))" "quiet_appender s a" for a
  proof -
    have "appender_ready s a"
      using wf_appender_ready [OF assms(2) _ that(1)] assms(2) by (simp add: sys_wf_def)
    then show ?thesis
      using that(2) assms(4) log_frame_appender [OF assms(3)] by (auto simp: quiet_appender_def)
  qed
  with assms(1) show ?thesis by (auto simp: root_safe_def same)
qed

definition safe_from :: "sys \<Rightarrow> sys \<Rightarrow> bool" where
  "safe_from s t \<longleftrightarrow> log_frame s t \<and> sys_wf t \<and> root_safe t"

lemma safe_from_step:
  assumes "safe_from s t"
  shows "safe_from s (emit es t)"
    and "\<not> is_open (s_appenders t ! a) \<Longrightarrow> safe_from s (fst (reopen E a t))"
    and "safe_from s (file_write E a txt t)"
proof -
  have t: "log_frame s t" "sys_wf t" "root_safe t" using assms by (auto simp: safe_from_def)
  have step: "safe_from s u"
    if "log_frame t u" "\<And>b. is_open (s_appenders t ! b) \<Longrightarrow> is_open (s_appenders u ! b)" for u
    using that t root_safe_mono [OF t(3,2) that] log_frame_wf [OF that(1)] log_frame_trans
    by (auto simp: safe_from_def)
  show "safe_from s (emit es t)" by (rule step) simp_all
  show "safe_from s (file_write E a txt t)"
    by (rule step) (simp_all add: log_frame_file_write is_open_file_write)
  show "safe_from s (fst (reopen E a t))" if "\<not> is_open (s_appenders t ! a)"
    by (rule step) (simp_all add: log_frame_reopen is_open_reopen_other that)
qed

lemma Logger_log_safe:
  "safe_from s t \<Longrightarrow> Logger_log d E l lv ev t = Inr t' \<Longrightarrow> safe_from s t'"
  by (rule Logger_log_keep [where P = "safe_from s", OF safe_from_step])

lemma report_root_safe: "safe_from s t \<Longrightarrow> report_root d E msg t = Inr t' \<Longrightarrow> safe_from s t'"
  by (rule report_root_keep [where P = "safe_from s", OF Logger_log_safe])

interpretation safe_rep: reporter E "report_root d E" "safe_from s0" for E d s0
  by (rule reporter.intro)
    (erule safe_from_step(1), erule (1) safe_from_step(2), erule safe_from_step(3),
      erule (1) report_root_safe)

lemma safe_from_ready:
  "safe_from s t \<Longrightarrow> sys_wf s \<Longrightarrow> l < length (s_loggers s) \<Longrightarrow>
     a \<in> set (l_appenders (s_loggers s ! l)) \<Longrightarrow> appender_ready t a"
  using log_frame_ready wf_appender_ready by (auto simp: safe_from_def)

text \<open>A quiet appender returns without a report.\<close>

lemma quiet_appender_returns:
  assumes "appender_ready s a" and "quiet_appender s a"
  shows "\<exists>s'. Appender_log report E ERROR ev l a s = Inr s'"
  using assms(1)
proof (cases rule: Appender_log_cases [of s a report E ERROR ev l])
  case returns
  then show ?thesis by blast
next
  case reports
  with assms(2) show ?thesis by (auto simp: quiet_appender_def)
qed

lemma report_root_returns:
  assumes "sys_wf t" and "root_safe t"
  shows "\<exists>t'. report_root (Suc d) E msg t = Inr t'"
proof (cases "l_level (s_loggers t ! s_root t) \<le> ERROR")
  case False
  then show ?thesis by (simp add: report_root_def ZNS_LOG_eq)
next
  case True
  let ?as = "l_appenders (s_loggers t ! s_root t)"
  have start: "safe_from t t" using assms by (simp add: safe_from_def)
  have body: "\<exists>u'. Appender_log (report_root d E) E ERROR ev (s_root t) a u = Inr u' \<and> safe_from t u'"
    if a: "a \<in> set ?as" and u: "safe_from t u" for a u ev
  proof -
    have same: "s_loggers u = s_loggers t" "s_root u = s_root t"
      using u log_frame_loggers by (auto simp: safe_from_def)
    have "quiet_appender u a"
      using u a True by (auto simp: safe_from_def root_safe_def same)
    moreover have "appender_ready u a"
      using safe_from_ready [OF u assms(1) _ a] assms(1) by (simp add: sys_wf_def)
    ultimately obtain u' where "Appender_log (report_root d E) E ERROR ev (s_root t) a u = Inr u'"
      using quiet_appender_returns by blast
    then show ?thesis using safe_rep.keep_Appender_log [OF u] by blast
  qed
  have "\<exists>t'. fold_res (Appender_log (report_root d E) E ERROR ev (s_root t)) ?as t = Inr t'
      \<and> safe_from t t'" for ev
    by (rule fold_res_total [where P = "safe_from t", OF start]) (rule body)
  then show ?thesis
    using True unfolding report_root_def [of "Suc d"] ZNS_LOG_eq Logger_log_Suc by auto
qed

lemma Logger_log_returns:
  assumes "sys_wf s" and "root_safe s" and "l < length (s_loggers s)"
  shows "\<exists>s'. Logger_log (Suc (Suc d)) E l lv ev s = Inr s' \<and> safe_from s s'"
proof (cases "l_level (s_loggers s ! l) \<le> lv")
  case False
  then show ?thesis using assms by (simp add: Logger_log_Suc safe_from_def)
next
  case True
  have start: "safe_from s s" using assms by (simp add: safe_from_def)
  have body: "\<exists>u'. Appender_log (report_root (Suc d) E) E lv ev l a u = Inr u' \<and> safe_from s u'"
    if a: "a \<in> set (l_appenders (s_loggers s ! l))" and u: "safe_from s u" for a u
  proof -
    have "appender_ready u a" by (rule safe_from_ready [OF u assms(1,3) a])
    then have "\<exists>u'. Appender_log (report_root (Suc d) E) E lv ev l a u = Inr u'"
    proof (cases rule: Appender_log_cases [of u a "report_root (Suc d) E" E lv ev l])
      case returns
      then show ?thesis by blast
    next
      case reports
      have "safe_from s (fst (reopen E a u))"
        by (rule safe_from_step(2) [OF u reports(3)])
      then show ?thesis using reports(1) report_root_returns by (auto simp: safe_from_def)
    qed
    then show ?thesis using safe_rep.keep_Appender_log [OF u] by blast
  qed
  have "\<exists>s'. fold_res (Appender_log (report_root (Suc d) E) E lv ev l)
      (l_appenders (s_loggers s ! l)) s = Inr s' \<and> safe_from s s'"
    by (rule fold_res_total [where P = "safe_from s", OF start]) (rule body)
  with True show ?thesis by (simp add: Logger_log_Suc)
qed

lemma ZNS_LOG_returns:
  assumes "sys_wf s" and "root_safe s" and "l < length (s_loggers s)"
  shows "\<exists>s'. ZNS_LOG (Logger_log (Suc (Suc d)) E) E l lv file line txt s = Inr s' \<and> safe_from s s'"
proof (cases "l_level (s_loggers s ! l) \<le> lv")
  case True
  then show ?thesis
    using Logger_log_returns [OF assms] by (simp add: ZNS_LOG_eq)
next
  case False
  then show ?thesis using assms by (simp add: ZNS_LOG_eq safe_from_def)
qed

section \<open>When logging never returns\<close>

text \<open>An appender whose file is not open and cannot be opened, whatever happens.\<close>

definition dead_file :: "env \<Rightarrow> nat \<Rightarrow> sys \<Rightarrow> bool" where
  "dead_file E a s \<longleftrightarrow> (\<exists>path st. a_kind (s_appenders s ! a) = FileKind path st \<and> st_open st = None
     \<and> (\<forall>h. \<not> e_can_open E h path))"

lemma dead_file_closed: "dead_file E a s \<Longrightarrow> \<not> is_open (s_appenders s ! a)"
  by (auto simp: dead_file_def is_open_def)

lemma dead_stream:
  assumes "st_open st = None" and "\<forall>h. \<not> e_can_open E h path"
  shows "st_open (fst (reopen_stream E h path st)) = None"
    and "st_open (fst (stream_write E h txt st)) = None"
  using assms by (auto simp: reopen_stream_def stream_open_def stream_close_def stream_write_def
      split: prod.splits)

lemma dead_file_upd:
  assumes "dead_file E a s" and "a_kind (s_appenders s ! b) = FileKind path st"
    and "a = b \<Longrightarrow> st_open st' = None"
  shows "dead_file E a (upd_appender b (\<lambda>ap. ap\<lparr>a_kind := FileKind path st'\<rparr>) s)"
  using assms
  by (cases "a = b \<and> b < length (s_appenders s)")
    (auto simp: dead_file_def upd_appender_def list_update_beyond nth_list_update)

lemma dead_file_emit [simp]: "dead_file E a (emit es s) = dead_file E a s"
  by (simp add: dead_file_def)

lemma dead_file_step:
  assumes "dead_file E a s"
  shows "dead_file E a (fst (reopen E b s))" and "dead_file E a (file_write E b txt s)"
proof -
  have closed: "st_open st = None \<and> (\<forall>h. \<not> e_can_open E h path)"
    if "a = b" "a_kind (s_appenders s ! b) = FileKind path st" for path st
    using assms that by (auto simp: dead_file_def)
  show "dead_file E a (fst (reopen E b s))"
    using assms closed dead_stream(1) dead_file_upd [OF assms]
    by (auto simp: reopen_def split: akind.splits prod.splits) (metis fst_conv)
  show "dead_file E a (file_write E b txt s)"
    using assms closed dead_stream(2) dead_file_upd [OF assms]
    by (auto simp: file_write_def split: akind.splits prod.splits) (metis fst_conv)
qed

text \<open>
  A root logger that takes errors and has such an appender: whatever is logged, the report of
  the failure reaches the same appender again.
\<close>

definition dead_root :: "env \<Rightarrow> nat \<Rightarrow> sys \<Rightarrow> bool" where
  "dead_root E a s \<longleftrightarrow> sys_wf s \<and> dead_file E a s \<and> a_level (s_appenders s ! a) \<le> ERROR \<and>
     l_level (s_loggers s ! s_root s) \<le> ERROR \<and> a \<in> set (l_appenders (s_loggers s ! s_root s))"

definition dead_from :: "env \<Rightarrow> nat \<Rightarrow> sys \<Rightarrow> sys \<Rightarrow> bool" where
  "dead_from E a s t \<longleftrightarrow> log_frame s t \<and> dead_root E a t"

lemma dead_root_step:
  assumes "log_frame t u" and "dead_file E a u" and "dead_root E a t"
  shows "dead_root E a u"
proof -
  have "appender_ready t a"
    using assms(3) wf_appender_ready by (auto simp: dead_root_def sys_wf_def)
  with assms log_frame_wf [OF assms(1)] log_frame_appender(1) [OF assms(1), of a] show ?thesis
    by (simp add: dead_root_def log_frame_loggers [OF assms(1)])
qed

lemma dead_from_step:
  assumes "dead_from E a s t"
  shows "dead_from E a s (emit es t)" "dead_from E a s (fst (reopen E b t))"
    "dead_from E a s (file_write E b txt t)"
proof -
  have t: "log_frame s t" "dead_root E a t" "dead_file E a t"
    using assms by (auto simp: dead_from_def dead_root_def)
  have step: "dead_from E a s u" if "log_frame t u" "dead_file E a u" for u
    using dead_root_step [OF that t(2)] log_frame_trans [OF t(1) that(1)]
    by (simp add: dead_from_def)
  show "dead_from E a s (emit es t)" by (rule step) (simp_all add: t(3))
  show "dead_from E a s (fst (reopen E b t))"
    by (rule step) (simp_all add: log_frame_reopen dead_file_step t(3))
  show "dead_from E a s (file_write E b txt t)"
    by (rule step) (simp_all add: log_frame_file_write dead_file_step t(3))
qed

lemma dead_from_report: "dead_from E a s t \<Longrightarrow> report_root d E msg t = Inr t' \<Longrightarrow> dead_from E a s t'"
  by (rule report_root_keep [where P = "dead_from E a s"])
    (rule Logger_log_keep [where P = "dead_from E a s", OF dead_from_step])

interpretation dead_rep: reporter E "report_root d E" "dead_from E a s0" for E d a s0
  by (rule reporter.intro)
    (erule dead_from_step(1), erule dead_from_step(2), erule dead_from_step(3),
      erule (1) dead_from_report)

lemma dead_appender_reports:
  assumes "dead_root E a s" and "a_level (s_appenders s ! a) \<le> lv"
  shows "\<exists>msg. Appender_log report E lv ev l a s = report msg (fst (reopen E a s))"
proof -
  obtain path st where k: "a_kind (s_appenders s ! a) = FileKind path st"
    using assms(1) by (auto simp: dead_root_def dead_file_def)
  have "\<not> is_open (s_appenders s ! a)" "\<not> is_open (s_appenders (fst (reopen E a s)) ! a)"
    using assms(1) dead_file_step(1) by (auto simp: dead_root_def intro!: dead_file_closed)
  with assms(2) k show ?thesis
    by (auto simp: Appender_log_def File_log_def Let_def)
qed

lemma dead_root_overflows:
  assumes "dead_root E a s" and "l_level (s_loggers s ! s_root s) \<le> lv"
    and "a_level (s_appenders s ! a) \<le> lv"
  shows "Logger_log d E (s_root s) lv ev s = Inl StackOverflow"
  using assms
proof (induction d arbitrary: lv ev s)
  case 0
  show ?case by simp
next
  case (Suc d)
  let ?f = "Appender_log (report_root d E) E lv ev (s_root s)"
  have wf: "sys_wf s" "s_root s < length (s_loggers s)"
    using Suc.prems(1) by (auto simp: dead_root_def sys_wf_def)
  have unfold: "Logger_log (Suc d) E (s_root s) lv ev s =
      fold_res ?f (l_appenders (s_loggers s ! s_root s)) s"
    using Suc.prems(2) by (simp add: Logger_log_Suc)
  obtain as bs where split: "l_appenders (s_loggers s ! s_root s) = as @ a # bs"
    using Suc.prems(1) by (auto simp: dead_root_def in_set_conv_decomp)
  show ?case
  proof (cases "fold_res ?f as s")
    case (Inl e)
    then have "Logger_log (Suc d) E (s_root s) lv ev s = Inl e"
      by (simp add: unfold split fold_res_append)
    with Logger_log_only_overflow [OF wf] show ?thesis by blast
  next
    case (Inr t)
    have "dead_from E a s s" using Suc.prems(1) by (simp add: dead_from_def)
    then have t: "dead_from E a s t" by (rule dead_rep.keep_loop [OF _ Inr])
    then have lt: "log_frame s t" "dead_root E a t" by (auto simp: dead_from_def)
    have "appender_ready s a"
      using Suc.prems(1) wf wf_appender_ready by (auto simp: dead_root_def)
    then have "a_level (s_appenders t ! a) \<le> lv"
      using Suc.prems(3) log_frame_appender(1) [OF lt(1)] by simp
    then obtain msg where m: "?f a t = report_root d E msg (fst (reopen E a t))"
      using dead_appender_reports [OF lt(2)] by blast
    define u where "u = fst (reopen E a t)"
    have u: "dead_root E a u" using dead_from_step(2) [OF t] by (simp add: dead_from_def u_def)
    then have "report_root d E msg u = Inl StackOverflow"
      using Suc.IH [of u ERROR] by (simp add: report_root_def ZNS_LOG_eq dead_root_def)
    then show ?thesis
      using m Inr by (simp add: unfold split fold_res_append u_def)
  qed
qed

end
