(* ===== verification/ManagerSpec.thy ===== *)
theory ManagerSpec
  imports LoggerManager LogSpec
begin

text \<open>
  What the logger manager promises: every operation keeps the state well formed, a configured
  logger is what its definition says (and nothing else changes), and the change listener makes
  the set of loggers agree with the configured set.
\<close>

section \<open>Primitive updates\<close>

lemma emit_Nil [simp]: "emit [] s = s"
  by (simp add: emit_def)

lemma new_formatter_eq: "new_formatter p s = (fst (LogFormatter p), emit (map Cout (snd (LogFormatter p))) s)"
  by (simp add: new_formatter_def split: prod.splits)

lemma upd_fields [simp]:
  "s_appenders (upd_logger l f s) = s_appenders s" "s_map (upd_logger l f s) = s_map s"
  "s_root (upd_logger l f s) = s_root s" "s_out (upd_logger l f s) = s_out s"
  "length (s_loggers (upd_logger l f s)) = length (s_loggers s)"
  "s_loggers (upd_appender a g s) = s_loggers s" "s_map (upd_appender a g s) = s_map s"
  "s_root (upd_appender a g s) = s_root s"
  "length (s_appenders (upd_appender a g s)) = length (s_appenders s)"
  by (simp_all add: upd_logger_def upd_appender_def)

lemma upd_logger_nth:
  "l < length (s_loggers s) \<Longrightarrow> s_loggers (upd_logger l f s) ! l' =
     (if l' = l then f (s_loggers s ! l) else s_loggers s ! l')"
  by (simp add: upd_logger_def nth_list_update)

lemma upd_appender_nth:
  "a < length (s_appenders s) \<Longrightarrow> s_appenders (upd_appender a f s) ! b =
     (if b = a then f (s_appenders s ! a) else s_appenders s ! b)"
  by (simp add: upd_appender_def nth_list_update)

lemma sys_wf_emit [simp]: "sys_wf (emit es s) = sys_wf s"
  by (rule sys_wf_skel) simp

lemma set_upd_logger: "lg \<in> set (s_loggers (upd_logger l f s)) \<Longrightarrow>
    lg \<in> set (s_loggers s) \<or> (l < length (s_loggers s) \<and> lg = f (s_loggers s ! l))"
  unfolding upd_logger_def
  by (cases "l < length (s_loggers s)") (auto simp: list_update_beyond dest: set_update_subset_insert [THEN subsetD])

lemma sys_wf_upd_logger [wf_rules]:
  assumes "sys_wf s" and "\<And>lg. set (l_appenders (f lg)) \<subseteq> set (l_appenders lg)"
  shows "sys_wf (upd_logger l f s)"
proof -
  have "appender_ready s a" if "lg \<in> set (s_loggers (upd_logger l f s))" "a \<in> set (l_appenders lg)" for lg a
    using set_upd_logger [OF that(1)] that(2) assms nth_mem unfolding sys_wf_def by blast
  then show ?thesis using assms(1) by (simp add: sys_wf_def appender_ready_def)
qed

lemma appender_ready_upd:
  assumes "appender_ready s b" and "\<And>ap. a_formatter ap \<noteq> None \<Longrightarrow> a_formatter (f ap) \<noteq> None"
  shows "appender_ready (upd_appender a f s) b"
  using assms by (cases "a = b") (auto simp: appender_ready_def upd_appender_def)

lemma sys_wf_upd_appender [wf_rules]:
  assumes "sys_wf s" and "\<And>ap. a_formatter ap \<noteq> None \<Longrightarrow> a_formatter (f ap) \<noteq> None"
  shows "sys_wf (upd_appender a f s)"
  using assms(1) appender_ready_upd [OF _ assms(2)] unfolding sys_wf_def by simp

lemma sys_wf_map_set:
  assumes "sys_wf s" and "l < length (s_loggers s)"
  shows "sys_wf (s\<lparr>s_map := smap_set k l (s_map s)\<rparr>)"
proof -
  have "x < length (s_loggers s)" if x: "x \<in> snd ` set (smap_set k l (s_map s))" for x
  proof -
    obtain j where "(j, x) \<in> set (smap_set k l (s_map s))" using x by auto
    then have "(j, x) = (k, l) \<or> (j, x) \<in> set (s_map s)" by (rule smap_set_elem)
    then show ?thesis using assms by (force simp: sys_wf_def)
  qed
  then show ?thesis
    using assms by (simp add: sys_wf_def smap_ok_set appender_ready_def)
qed

lemma sys_wf_map_erase:
  assumes "sys_wf s"
  shows "sys_wf (s\<lparr>s_map := smap_erase k (s_map s)\<rparr>)"
  using assms smap_erase_subset [of k "s_map s"]
  by (auto simp: sys_wf_def smap_ok_erase appender_ready_def)

lemma sys_wf_lookup: "sys_wf s \<Longrightarrow> smap_find (s_map s) k = Some l \<Longrightarrow> l < length (s_loggers s)"
  using smap_find_in [of "s_map s" k l] by (force simp: sys_wf_def)

section \<open>Allocation\<close>

definition fresh_logger :: "string \<Rightarrow> level \<Rightarrow> string \<Rightarrow> logger" where
  "fresh_logger name lv pattern =
     \<lparr>l_name = name, l_level = lv, l_appenders = [], l_formatter = fst (LogFormatter pattern), l_root = None\<rparr>"

lemma new_logger_eq:
  "new_logger name lv pattern s =
     (length (s_loggers s),
      (emit (map Cout (snd (LogFormatter pattern))) s)
        \<lparr>s_loggers := s_loggers s @ [fresh_logger name lv pattern]\<rparr>)"
  by (simp add: new_logger_def new_formatter_eq fresh_logger_def)

lemma sys_wf_new_logger [wf_rules]: "sys_wf s \<Longrightarrow> sys_wf (snd (new_logger name lv pattern s))"
  by (fastforce simp: new_logger_eq sys_wf_def appender_ready_def fresh_logger_def)

lemma new_logger_fields [simp]:
  "fst (new_logger n lv p s) = length (s_loggers s)"
  "s_loggers (snd (new_logger n lv p s)) = s_loggers s @ [fresh_logger n lv p]"
  "s_appenders (snd (new_logger n lv p s)) = s_appenders s"
  "s_map (snd (new_logger n lv p s)) = s_map s" "s_root (snd (new_logger n lv p s)) = s_root s"
  by (simp_all add: new_logger_eq)

text \<open>Attaching a fresh appender: it ends up last, with the logger's formatter if it has none.\<close>

definition with_formatter :: "formatter \<Rightarrow> appender \<Rightarrow> appender" where
  "with_formatter f ap = (if a_formatter ap = None then ap\<lparr>a_formatter := Some f\<rparr> else ap)"

lemma attach_new_eq:
  assumes "l < length (s_loggers s)"
  shows "attach_new l ap s =
    s\<lparr>s_appenders := s_appenders s @ [with_formatter (l_formatter (s_loggers s ! l)) ap],
      s_loggers := (s_loggers s)[l := (s_loggers s ! l)
        \<lparr>l_appenders := l_appenders (s_loggers s ! l) @ [length (s_appenders s)]\<rparr>]\<rparr>"
  using assms
  by (simp add: attach_new_def new_appender_def addAppender_def upd_appender_def upd_logger_def
      with_formatter_def Let_def)

lemma attach_new_fields [simp]:
  assumes "l < length (s_loggers s)"
  shows "s_appenders (attach_new l ap s) =
      s_appenders s @ [with_formatter (l_formatter (s_loggers s ! l)) ap]"
    and "length (s_loggers (attach_new l ap s)) = length (s_loggers s)"
    and "s_map (attach_new l ap s) = s_map s" and "s_root (attach_new l ap s) = s_root s"
    and "s_out (attach_new l ap s) = s_out s"
  by (simp_all add: attach_new_eq [OF assms])

lemma attach_new_logger:
  assumes "l < length (s_loggers s)"
  shows "s_loggers (attach_new l ap s) ! l' =
     (if l' = l then (s_loggers s ! l)
        \<lparr>l_appenders := l_appenders (s_loggers s ! l) @ [length (s_appenders s)]\<rparr>
      else s_loggers s ! l')"
  using assms by (simp add: attach_new_eq nth_list_update)

lemma sys_wf_attach_new [wf_rules]:
  assumes "sys_wf s" and "l < length (s_loggers s)"
  shows "sys_wf (attach_new l ap s)"
proof -
  have grow: "appender_ready (attach_new l ap s) a" if "appender_ready s a" for a
    using that assms(2) by (simp add: appender_ready_def nth_append)
  have "appender_ready (attach_new l ap s) (length (s_appenders s))"
    using assms(2) by (simp add: appender_ready_def with_formatter_def)
  moreover have "appender_ready s a"
    if "lg' \<in> set (s_loggers s)" "a \<in> set (l_appenders lg')" for lg' a
    using assms(1) that by (simp add: sys_wf_def)
  moreover have "lg \<in> set (s_loggers s) \<or> lg = (s_loggers s ! l)
        \<lparr>l_appenders := l_appenders (s_loggers s ! l) @ [length (s_appenders s)]\<rparr>"
    if "lg \<in> set (s_loggers (attach_new l ap s))" for lg
    using that set_update_subset_insert unfolding attach_new_eq [OF assms(2)] by fastforce
  ultimately have "\<forall>lg \<in> set (s_loggers (attach_new l ap s)). \<forall>a \<in> set (l_appenders lg).
      appender_ready (attach_new l ap s) a"
    using grow nth_mem [OF assms(2)] by fastforce
  then show ?thesis using assms by (simp add: sys_wf_def)
qed

section \<open>Every operation keeps the state well formed\<close>

lemma sys_wf_setLevel [wf_rules]: "sys_wf s \<Longrightarrow> sys_wf (setLevel l lv s)"
  by (simp add: setLevel_def wf_rules)

lemma sys_wf_setName [wf_rules]: "sys_wf s \<Longrightarrow> sys_wf (setName l name s)"
  by (simp add: setName_def wf_rules)

lemma sys_wf_appender_setters [wf_rules]:
  "sys_wf s \<Longrightarrow> sys_wf (appender_setFormatter a (Some f) s)"
  "sys_wf s \<Longrightarrow> sys_wf (appender_setLevel a lv s)"
  "sys_wf s \<Longrightarrow> sys_wf (setHasCustomFormatter a flag s)"
  "sys_wf s \<Longrightarrow> sys_wf (upd_appender a (setFilepath path) s)"
  unfolding appender_setFormatter_def appender_setLevel_def setHasCustomFormatter_def
  by (rule sys_wf_upd_appender; simp add: setFilepath_def split: akind.splits)+

lemma setter_fields [simp]:
  "s_map (setName l name s) = s_map s" "s_map (appender_setFormatter a v s) = s_map s"
  "s_map (appender_setLevel a lv s) = s_map s" "s_map (setHasCustomFormatter a flag s) = s_map s"
  "s_map (delAppender l a s) = s_map s" "s_map (clearAppenders l s) = s_map s"
  "s_map (setLevel l lv s) = s_map s" "s_map (setFormatter l p s) = s_map s"
  "length (s_loggers (setName l name s)) = length (s_loggers s)"
  by (simp_all add: delAppender_def clearAppenders_def setLevel_def setFormatter_def
      new_formatter_eq setName_def appender_setFormatter_def appender_setLevel_def
      setHasCustomFormatter_def)

text \<open>An appender that is attached already may be attached to another logger as well.\<close>

lemma sys_wf_addAppender [wf_rules]:
  assumes "sys_wf s" and "a < length (s_appenders s)"
  shows "sys_wf (addAppender l a s)"
proof -
  let ?f = "\<lambda>ap. ap\<lparr>a_formatter := Some (l_formatter (s_loggers s ! l))\<rparr>"
  let ?u = "if a_formatter (s_appenders s ! a) = None then upd_appender a ?f s else s"
  have u: "sys_wf ?u" using assms(1) by (simp add: wf_rules)
  have a: "appender_ready ?u a" using assms(2) by (simp add: appender_ready_def upd_appender_nth)
  let ?v = "upd_logger l (\<lambda>lg. lg\<lparr>l_appenders := l_appenders lg @ [a]\<rparr>) ?u"
  have same: "appender_ready ?v b = appender_ready ?u b" for b by (simp add: appender_ready_def)
  have "appender_ready ?v b" if "lg \<in> set (s_loggers ?v)" "b \<in> set (l_appenders lg)" for lg b
    using set_upd_logger [OF that(1)]
  proof
    assume "lg \<in> set (s_loggers ?u)"
    then show ?thesis using u that(2) unfolding same by (simp add: sys_wf_def)
  next
    assume "l < length (s_loggers ?u) \<and> lg = (s_loggers ?u ! l)
        \<lparr>l_appenders := l_appenders (s_loggers ?u ! l) @ [a]\<rparr>"
    then show ?thesis using wf_appender_ready [OF u] that(2) a unfolding same by auto
  qed
  moreover have "sys_wf ?v \<longleftrightarrow> (\<forall>lg \<in> set (s_loggers ?v). \<forall>b \<in> set (l_appenders lg). appender_ready ?v b)"
    using u by (simp add: sys_wf_def)
  ultimately show ?thesis unfolding addAppender_def Let_def by blast
qed

lemma addAppender_map [simp]: "s_map (addAppender l a s) = s_map s"
  by (simp add: addAppender_def Let_def)

lemma sys_wf_setFormatter [wf_rules]: "sys_wf s \<Longrightarrow> sys_wf (setFormatter l p s)"
  by (simp add: setFormatter_def new_formatter_eq wf_rules)

lemma sys_wf_clearAppenders [wf_rules]: "sys_wf s \<Longrightarrow> sys_wf (clearAppenders l s)"
  by (simp add: clearAppenders_def wf_rules)

lemma sys_wf_delAppender [wf_rules]: "sys_wf s \<Longrightarrow> sys_wf (delAppender l a s)"
  by (simp add: delAppender_def sys_wf_upd_logger set_remove1_subset)

lemma sys_wf_reformat [wf_rules]: "sys_wf s \<Longrightarrow> sys_wf (reformat_appender p a s)"
  by (simp add: reformat_appender_def new_formatter_eq wf_rules)

lemma lengths_kept [simp]:
  "length (s_loggers (setLevel l lv s)) = length (s_loggers s)"
  "length (s_loggers (setFormatter l p s)) = length (s_loggers s)"
  "length (s_loggers (clearAppenders l s)) = length (s_loggers s)"
  "length (s_loggers (reformat_appender p a s)) = length (s_loggers s)"
  by (simp_all add: setLevel_def setFormatter_def clearAppenders_def reformat_appender_def new_formatter_eq)

text \<open>A well-formed state in which the loggers so far are still there.\<close>

definition wf_grown :: "nat \<Rightarrow> sys \<Rightarrow> bool" where
  "wf_grown n s \<longleftrightarrow> sys_wf s \<and> n \<le> length (s_loggers s)"

lemma fold_keeps:
  assumes "P s" and "\<And>x t. x \<in> set xs \<Longrightarrow> P t \<Longrightarrow> P (f x t)"
  shows "P (fold f xs s)"
  using assms by (induction xs arbitrary: s) auto

lemma sys_wf_cong:
  assumes "s_loggers t = s_loggers s" "s_appenders t = s_appenders s" "s_map t = s_map s"
    "s_root t = s_root s"
  shows "sys_wf t \<longleftrightarrow> sys_wf s"
  using assms by (simp add: sys_wf_def appender_ready_def)

lemma sys_wf_LoggerManager:
  assumes "smap_ok (s_map s)" and "\<forall>l \<in> snd ` set (s_map s). l < length (s_loggers s)"
    and "\<forall>lg \<in> set (s_loggers s). \<forall>a \<in> set (l_appenders lg). appender_ready s a"
  shows "sys_wf (LoggerManager s)"
proof -
  let ?l = "length (s_loggers s)"
  let ?s1 = "(snd (new_logger ''root'' DEBUG default_pattern s))\<lparr>s_root := ?l\<rparr>"
  have wf1: "sys_wf ?s1"
    using assms by (fastforce simp: sys_wf_def appender_ready_def fresh_logger_def)
  have l1: "?l < length (s_loggers ?s1)" by simp
  have "sys_wf (attach_new ?l StdoutLogAppender ?s1)" by (rule sys_wf_attach_new [OF wf1 l1])
  then have wf: "sys_wf ((attach_new ?l StdoutLogAppender ?s1)
      \<lparr>s_map := smap_set k ?l (s_map (attach_new ?l StdoutLogAppender ?s1))\<rparr>)" for k
    by (rule sys_wf_map_set) (simp add: attach_new_eq)
  have "sys_wf (LoggerManager s) \<longleftrightarrow> sys_wf ((attach_new ?l StdoutLogAppender ?s1)
      \<lparr>s_map := smap_set ''root'' ?l (s_map (attach_new ?l StdoutLogAppender ?s1))\<rparr>)"
    by (rule sys_wf_cong)
      (simp_all add: LoggerManager_def Let_def attach_new_eq split_beta fresh_logger_def)
  with wf show ?thesis by simp
qed

lemma sys_wf_boot: "sys_wf boot"
  unfolding boot_def by (rule sys_wf_LoggerManager) (simp_all add: empty_sys_def smap_ok_Nil)

lemma getLogger_wf:
  assumes "sys_wf s"
  shows "sys_wf (snd (getLogger name s)) \<and> fst (getLogger name s) < length (s_loggers (snd (getLogger name s)))
    \<and> length (s_loggers s) \<le> length (s_loggers (snd (getLogger name s)))"
proof (cases "smap_find (s_map s) name")
  case (Some l)
  with assms sys_wf_lookup show ?thesis by (simp add: getLogger_def)
next
  case None
  have "sys_wf (upd_logger (length (s_loggers s)) (\<lambda>lg. lg\<lparr>l_root := Some (s_root s)\<rparr>)
      (snd (new_logger name DEBUG default_pattern s)))"
    by (intro wf_rules assms) simp
  from sys_wf_map_set [OF this] None show ?thesis
    by (simp add: getLogger_def split_beta)
qed

section \<open>Changes confined to one logger\<close>

text \<open>Nothing but logger \<open>l\<close> changes; appenders are only added.\<close>

definition touches :: "nat \<Rightarrow> sys \<Rightarrow> sys \<Rightarrow> bool" where
  "touches l s t \<longleftrightarrow> length (s_loggers s) \<le> length (s_loggers t) \<and>
     length (s_appenders s) \<le> length (s_appenders t) \<and> s_root t = s_root s \<and>
     (\<forall>l' < length (s_loggers s). l' \<noteq> l \<longrightarrow> s_loggers t ! l' = s_loggers s ! l') \<and>
     (\<forall>a < length (s_appenders s). s_appenders t ! a = s_appenders s ! a)"

lemma touches_refl [simp]: "touches l s s"
  by (simp add: touches_def)

lemma touches_trans: "touches l s t \<Longrightarrow> touches l t u \<Longrightarrow> touches l s u"
  unfolding touches_def by auto

lemma touches_emit [simp]: "touches l s (emit es s)"
  by (simp add: touches_def)

lemma touches_upd_logger: "l < length (s_loggers s) \<Longrightarrow> touches l s (upd_logger l f s)"
  by (simp add: touches_def upd_logger_nth)

lemma touches_attach_new: "l < length (s_loggers s) \<Longrightarrow> touches l s (attach_new l ap s)"
  by (simp add: touches_def attach_new_logger nth_append)

section \<open>Views\<close>

type_synonym aview = "string \<times> string option \<times> level \<times> formatter option \<times> bool"

definition appender_view :: "appender \<Rightarrow> aview" where
  "appender_view ap =
     (getAppenderType ap, getFilepath ap, a_level ap, a_formatter ap, a_custom ap)"

definition logger_view :: "sys \<Rightarrow> nat \<Rightarrow> level \<times> formatter \<times> aview list" where
  "logger_view s l =
     (l_level (s_loggers s ! l), l_formatter (s_loggers s ! l),
      map (\<lambda>a. appender_view (s_appenders s ! a)) (l_appenders (s_loggers s ! l)))"

text \<open>What a definition asks for.\<close>

definition spec_appender :: "LogDefine \<Rightarrow> LogAppenderDefine \<Rightarrow> aview list" where
  "spec_appender ld def =
     (if lad_type def = ''file'' \<or> lad_type def = ''stdout'' then
        [(lad_type def, if lad_type def = ''file'' then Some (lad_path def) else None,
          if hasCustomLevel def then lad_level def else ld_level ld,
          Some (fst (LogFormatter (if hasCustomFormatter def then lad_formatter def else ld_formatter ld))),
          hasCustomFormatter def)]
      else [])"

definition spec_view :: "LogDefine \<Rightarrow> level \<times> formatter \<times> aview list" where
  "spec_view ld =
     (ld_level ld, fst (LogFormatter (ld_formatter ld)),
      concat (map (spec_appender ld) (ld_appender ld)))"

lemma logger_view_touches:
  assumes "touches l s t" and "sys_wf s" and "l' < length (s_loggers s)" and "l' \<noteq> l"
  shows "logger_view t l' = logger_view s l'"
proof -
  have "s_appenders t ! a = s_appenders s ! a" if "a \<in> set (l_appenders (s_loggers s ! l'))" for a
    using wf_appender_ready [OF assms(2,3) that] assms(1) by (simp add: touches_def appender_ready_def)
  then show ?thesis using assms by (simp add: logger_view_def touches_def)
qed

lemma logger_view_emit [simp]: "logger_view (emit es s) l = logger_view s l"
  by (simp add: logger_view_def)

lemma logger_view_map [simp]: "logger_view (s\<lparr>s_map := m\<rparr>) l = logger_view s l"
  by (simp add: logger_view_def)

lemma logger_view_attach_new:
  assumes "sys_wf s" and "l < length (s_loggers s)"
  shows "logger_view (attach_new l ap s) l =
    (case logger_view s l of (lv, f, vs) \<Rightarrow> (lv, f, vs @ [appender_view (with_formatter f ap)]))"
proof -
  have "(s_appenders s @ xs) ! a = s_appenders s ! a"
    if "a \<in> set (l_appenders (s_loggers s ! l))" for a xs
    using wf_appender_ready [OF assms that] by (simp add: appender_ready_def nth_append)
  then show ?thesis
    using assms(2) by (simp add: logger_view_def attach_new_logger)
qed

section \<open>Configuring a logger\<close>

definition configuring :: "sys \<Rightarrow> nat \<Rightarrow> LogDefine \<Rightarrow> aview list \<Rightarrow> sys \<Rightarrow> bool" where
  "configuring s0 l ld vs t \<longleftrightarrow> sys_wf t \<and> l < length (s_loggers t) \<and> touches l s0 t \<and>
     s_map t = s_map s0 \<and> logger_view t l = (ld_level ld, fst (LogFormatter (ld_formatter ld)), vs)"

lemma define_appender_eq:
  assumes "l_formatter (s_loggers s ! l) = fst (LogFormatter (ld_formatter ld))"
  shows "\<exists>es ap. define_appender l ld def s =
      (if spec_appender ld def = [] then s else attach_new l ap (emit es s)) \<and>
    (spec_appender ld def \<noteq> [] \<longrightarrow> a_formatter ap \<noteq> None \<and> spec_appender ld def = [appender_view ap])"
proof (cases "lad_type def = ''file'' \<or> lad_type def = ''stdout''")
  case False
  then show ?thesis by (simp add: define_appender_def spec_appender_def)
next
  case True
  define es where "es = (if hasCustomFormatter def then map Cout (snd (LogFormatter (lad_formatter def))) else [])"
  define ap where "ap = (if lad_type def = ''file'' then FileLogAppender (lad_path def) else StdoutLogAppender)
    \<lparr>a_level := if hasCustomLevel def then lad_level def else ld_level ld,
     a_formatter := Some (fst (LogFormatter (if hasCustomFormatter def then lad_formatter def else ld_formatter ld))),
     a_custom := hasCustomFormatter def\<rparr>"
  have "define_appender l ld def s = attach_new l ap (emit es s)"
    using True assms by (auto simp: define_appender_def new_formatter_eq ap_def es_def Let_def)
  moreover have "spec_appender ld def = [appender_view ap]"
    using True by (auto simp: spec_appender_def ap_def appender_view_def getAppenderType_def
        getFilepath_def FileLogAppender_def StdoutLogAppender_def LogAppender_def)
  moreover have "a_formatter ap \<noteq> None" by (simp add: ap_def)
  ultimately show ?thesis by auto
qed

lemma configuring_step:
  assumes "configuring s0 l ld vs t"
  shows "configuring s0 l ld (vs @ spec_appender ld def) (define_appender l ld def t)"
proof -
  have t: "sys_wf t" "l < length (s_loggers t)" "touches l s0 t" "s_map t = s_map s0"
    "logger_view t l = (ld_level ld, fst (LogFormatter (ld_formatter ld)), vs)"
    using assms by (auto simp: configuring_def)
  have "l_formatter (s_loggers t ! l) = fst (LogFormatter (ld_formatter ld))"
    using t(5) by (simp add: logger_view_def)
  then obtain es ap where eq: "define_appender l ld def t =
      (if spec_appender ld def = [] then t else attach_new l ap (emit es t))"
    and ap: "spec_appender ld def \<noteq> [] \<longrightarrow> a_formatter ap \<noteq> None \<and> spec_appender ld def = [appender_view ap]"
    using define_appender_eq by blast
  show ?thesis
  proof (cases "spec_appender ld def = []")
    case True
    with assms eq show ?thesis by simp
  next
    case False
    let ?u = "emit es t"
    have u: "sys_wf ?u" "l < length (s_loggers ?u)" using t by simp_all
    have "touches l s0 (attach_new l ap ?u)"
      using touches_trans [OF touches_trans [OF t(3) touches_emit] touches_attach_new [OF u(2)]] .
    moreover have "logger_view (attach_new l ap ?u) l =
        (ld_level ld, fst (LogFormatter (ld_formatter ld)), vs @ spec_appender ld def)"
      using logger_view_attach_new [OF u] t(5) ap False by (auto simp: with_formatter_def)
    ultimately show ?thesis
      using False eq sys_wf_attach_new [OF u] u t(4) by (simp add: configuring_def)
  qed
qed

lemma configuring_fold:
  "configuring s0 l ld vs t \<Longrightarrow>
     configuring s0 l ld (vs @ concat (map (spec_appender ld) defs)) (fold (define_appender l ld) defs t)"
proof (induction defs arbitrary: vs t)
  case Nil
  then show ?case by simp
next
  case (Cons def defs)
  from Cons.IH [OF configuring_step [OF Cons.prems, of def]] show ?case by simp
qed

lemma updateAppender_configures:
  assumes "sys_wf t" and "l < length (s_loggers t)" and "touches l s0 t" and "s_map t = s_map s0"
    and "l_level (s_loggers t ! l) = ld_level ld"
    and "l_formatter (s_loggers t ! l) = fst (LogFormatter (ld_formatter ld))"
  shows "configuring s0 l ld (concat (map (spec_appender ld) (ld_appender ld))) (updateAppender l ld t)"
proof -
  have "touches l s0 (clearAppenders l t)"
    unfolding clearAppenders_def by (rule touches_trans [OF assms(3) touches_upd_logger [OF assms(2)]])
  then have "configuring s0 l ld [] (clearAppenders l t)"
    using assms
    by (simp add: configuring_def sys_wf_clearAppenders)
      (simp add: clearAppenders_def logger_view_def upd_logger_nth)
  from configuring_fold [OF this, of "ld_appender ld"] show ?thesis
    by (simp add: updateAppender_def)
qed

lemma setFormatter_fields [simp]:
  "l < length (s_loggers s) \<Longrightarrow> s_loggers (setFormatter l p s) ! l =
     (s_loggers s ! l)\<lparr>l_formatter := fst (LogFormatter p)\<rparr>"
  "s_map (setFormatter l p s) = s_map s" "s_root (setFormatter l p s) = s_root s"
  "s_appenders (setFormatter l p s) = s_appenders s"
  by (simp_all add: setFormatter_def new_formatter_eq upd_logger_nth)

lemma setLevel_fields [simp]:
  "l < length (s_loggers s) \<Longrightarrow> s_loggers (setLevel l lv s) ! l = (s_loggers s ! l)\<lparr>l_level := lv\<rparr>"
  "s_map (setLevel l lv s) = s_map s" "s_root (setLevel l lv s) = s_root s"
  "s_appenders (setLevel l lv s) = s_appenders s"
  by (simp_all add: setLevel_def upd_logger_nth)

lemma touches_setFormatter: "l < length (s_loggers s) \<Longrightarrow> touches l s (setFormatter l p s)"
  unfolding setFormatter_def new_formatter_eq prod.case
  by (rule touches_trans [OF touches_emit touches_upd_logger]) simp

lemma touches_setLevel: "l < length (s_loggers s) \<Longrightarrow> touches l s (setLevel l lv s)"
  unfolding setLevel_def by (rule touches_upd_logger)

lemma touches_set:
  assumes "l < length (s_loggers s)"
  shows "touches l s (setFormatter l p (setLevel l lv s))"
  using touches_trans [OF touches_setLevel touches_setFormatter] assms by simp

text \<open>The logger a name is bound to after \<open>configureLogger\<close>.\<close>

definition target :: "LogDefine \<Rightarrow> sys \<Rightarrow> nat" where
  "target ld s =
     (case smap_find (s_map s) (ld_name ld) of Some l \<Rightarrow> l | None \<Rightarrow> length (s_loggers s))"

lemma configureLogger_spec:
  assumes "sys_wf s"
  shows "sys_wf (configureLogger ld s) \<and> touches (target ld s) s (configureLogger ld s)
    \<and> target ld s < length (s_loggers (configureLogger ld s))
    \<and> logger_view (configureLogger ld s) (target ld s) = spec_view ld
    \<and> smap_find (s_map (configureLogger ld s)) =
        (\<lambda>k. if k = ld_name ld then Some (target ld s) else smap_find (s_map s) k)"
proof (cases "smap_find (s_map s) (ld_name ld)")
  case (Some l)
  have l: "l < length (s_loggers s)" by (rule sys_wf_lookup [OF assms Some])
  let ?t = "setFormatter l (ld_formatter ld) (setLevel l (ld_level ld) s)"
  have "configuring s l ld (concat (map (spec_appender ld) (ld_appender ld))) (updateAppender l ld ?t)"
    by (rule updateAppender_configures) (simp_all add: assms l wf_rules touches_set)
  then show ?thesis
    using Some by (auto simp: configureLogger_def target_def configuring_def spec_view_def)
next
  case None
  let ?l = "length (s_loggers s)"
  let ?n = "snd (new_logger (ld_name ld) (ld_level ld) (ld_formatter ld) s)"
  let ?t = "?n\<lparr>s_map := smap_set (ld_name ld) ?l (s_map ?n)\<rparr>"
  have conf: "configuring ?t ?l ld (concat (map (spec_appender ld) (ld_appender ld))) (updateAppender ?l ld ?t)"
  proof (rule updateAppender_configures)
    show "sys_wf ?t" by (rule sys_wf_map_set [OF sys_wf_new_logger [OF assms]]) simp
  qed (simp_all add: fresh_logger_def)
  have "touches ?l s ?t" by (simp add: touches_def nth_append)
  then have "touches ?l s (updateAppender ?l ld ?t)"
    using conf touches_trans by (auto simp: configuring_def)
  with conf None show ?thesis
    by (auto simp: configureLogger_def target_def configuring_def spec_view_def split_beta
        smap_find_set)
qed

section \<open>Removing loggers\<close>

lemma root_safe_map [simp]: "root_safe (s\<lparr>s_map := m\<rparr>) = root_safe s"
  by (simp add: root_safe_def quiet_appender_def)

lemma mgr_log_returns:
  assumes "sys_wf s" and "root_safe s"
  shows "\<exists>t. mgr_log (Suc (Suc d)) E lv line txt s = Inr t \<and> sys_wf t \<and> root_safe t
    \<and> s_loggers t = s_loggers s \<and> s_map t = s_map s \<and> s_root t = s_root s"
proof -
  have "s_root s < length (s_loggers s)" using assms(1) by (simp add: sys_wf_def)
  from ZNS_LOG_returns [OF assms this] obtain t
    where t: "ZNS_LOG (Logger_log (Suc (Suc d)) E) E (s_root s) lv (e_log_cpp E) line txt s = Inr t"
      "safe_from s t" by blast
  then show ?thesis
    using log_frame_loggers [of s t] by (auto simp: mgr_log_def safe_from_def)
qed

definition dropped :: "string set \<Rightarrow> sys \<Rightarrow> sys \<Rightarrow> bool" where
  "dropped ks s t \<longleftrightarrow> sys_wf t \<and> root_safe t \<and> s_loggers t = s_loggers s \<and> s_root t = s_root s \<and>
     smap_find (s_map t) = (\<lambda>k. if k \<in> ks then None else smap_find (s_map s) k)"

lemma removeLogger_spec:
  assumes "sys_wf s" and "root_safe s"
  shows "\<exists>t. removeLogger (Suc (Suc d)) E name s = Inr t \<and> dropped {name} s t"
proof (cases "smap_find (s_map s) name")
  case None
  obtain t where t: "mgr_log (Suc (Suc d)) E WARN 632
      (''LoggerManager::removeLogger: logger '' @ name @ '' not found'') s = Inr t"
    "sys_wf t" "root_safe t" "s_loggers t = s_loggers s" "s_map t = s_map s" "s_root t = s_root s"
    using mgr_log_returns [OF assms] by blast
  then show ?thesis using None by (auto simp: removeLogger_def dropped_def)
next
  case (Some l)
  obtain t1 where t1: "mgr_log (Suc (Suc d)) E INFO 620
      (''LoggerManager::removeLogger: removing logger '' @ name) s = Inr t1"
    "sys_wf t1" "root_safe t1" "s_loggers t1 = s_loggers s" "s_map t1 = s_map s" "s_root t1 = s_root s"
    using mgr_log_returns [OF assms] by blast
  obtain t2 where t2: "mgr_log (Suc (Suc d)) E INFO 624
      (''LoggerManager::removeLogger: logger '' @ name @ '' use_count: '' @
       show_nat (e_use_count E (s_out t1) l)) t1 = Inr t2"
    "sys_wf t2" "root_safe t2" "s_loggers t2 = s_loggers t1" "s_map t2 = s_map t1" "s_root t2 = s_root t1"
    using mgr_log_returns [OF t1(2,3)] by blast
  have "smap_ok (s_map t2)" using t2(2) by (simp add: sys_wf_def)
  with t1(4-6) t2(3-6) sys_wf_map_erase [OF t2(2), of name]
  have "dropped {name} s (t2\<lparr>s_map := smap_erase name (s_map t2)\<rparr>)"
    by (simp add: dropped_def smap_find_erase fun_eq_iff)
  moreover have "removeLogger (Suc (Suc d)) E name s = Inr (t2\<lparr>s_map := smap_erase name (s_map t2)\<rparr>)"
    unfolding removeLogger_def Some option.case t1(1) rbind.simps t2(1) ..
  ultimately show ?thesis by blast
qed

lemma drop_unnamed_loop:
  assumes "sys_wf s" and "root_safe s"
  shows "\<exists>t. fold_res (drop_unnamed (Suc (Suc d)) E nv) es s = Inr t
    \<and> dropped (fst ` set es - ld_name ` set nv) s t"
  using assms
proof (induction es arbitrary: s)
  case Nil
  then show ?case by (simp add: dropped_def)
next
  case (Cons e es)
  show ?case
  proof (cases "fst e \<in> ld_name ` set nv")
    case True
    then have "fst ` set (e # es) - ld_name ` set nv = fst ` set es - ld_name ` set nv" by auto
    then show ?thesis using Cons.IH [OF Cons.prems] True by (simp add: drop_unnamed_def)
  next
    case False
    obtain t1 where t1: "mgr_log (Suc (Suc d)) E INFO 744
        (''LogInit::LogInit: remove logger '' @ fst e) s = Inr t1"
      "sys_wf t1" "root_safe t1" "s_loggers t1 = s_loggers s" "s_map t1 = s_map s" "s_root t1 = s_root s"
      using mgr_log_returns [OF Cons.prems] by blast
    obtain t2 where t2: "removeLogger (Suc (Suc d)) E (fst e) t1 = Inr t2" "dropped {fst e} t1 t2"
      using removeLogger_spec [OF t1(2,3)] by blast
    then obtain t3 where t3: "fold_res (drop_unnamed (Suc (Suc d)) E nv) es t2 = Inr t3"
      "dropped (fst ` set es - ld_name ` set nv) t2 t3"
      using Cons.IH [of t2] by (auto simp: dropped_def)
    have "dropped (fst ` set (e # es) - ld_name ` set nv) s t3"
      using t1 t2(2) t3(2) False by (auto simp: dropped_def)
    moreover have "drop_unnamed (Suc (Suc d)) E nv e s = Inr t2"
      unfolding drop_unnamed_def t1(1) rbind.simps t2(1) using False by simp
    ultimately show ?thesis using t3(1) by simp
  qed
qed

section \<open>The listener\<close>

text \<open>No two names share a logger.\<close>

definition map_inj :: "sys \<Rightarrow> bool" where
  "map_inj s \<longleftrightarrow> (\<forall>j k l. smap_find (s_map s) j = Some l \<longrightarrow> smap_find (s_map s) k = Some l \<longrightarrow> j = k)"

definition configured :: "LogDefine list \<Rightarrow> sys \<Rightarrow> bool" where
  "configured ds t \<longleftrightarrow>
     (\<forall>ld \<in> set ds. \<exists>l. smap_find (s_map t) (ld_name ld) = Some l \<and> logger_view t l = spec_view ld)"

lemma configureLogger_inj:
  assumes "sys_wf s" and "map_inj s"
  shows "map_inj (configureLogger ld s)"
proof -
  note spec = configureLogger_spec [OF assms(1), of ld]
  have fresh: "smap_find (s_map s) k = Some (target ld s) \<Longrightarrow> k = ld_name ld" for k
    using assms sys_wf_lookup [OF assms(1), of k]
    by (auto simp: target_def map_inj_def split: option.splits)
  then show ?thesis
    using spec assms(2) by (auto simp: map_inj_def split: if_splits)
qed

lemma configured_step:
  assumes "sys_wf s" and "map_inj s" and "configured ds s" and "ld_name ld \<notin> ld_name ` set ds"
  shows "configured (ld # ds) (configureLogger ld s)"
proof -
  note spec = configureLogger_spec [OF assms(1), of ld]
  have "\<exists>l. smap_find (s_map (configureLogger ld s)) (ld_name d) = Some l
      \<and> logger_view (configureLogger ld s) l = spec_view d" if d: "d \<in> set ds" for d
  proof -
    obtain l where l: "smap_find (s_map s) (ld_name d) = Some l" "logger_view s l = spec_view d"
      using assms(3) d by (auto simp: configured_def)
    have ne: "ld_name d \<noteq> ld_name ld" using assms(4) d by (metis image_eqI)
    have len: "l < length (s_loggers s)" by (rule sys_wf_lookup [OF assms(1) l(1)])
    have "l \<noteq> target ld s"
      using ne len l(1) assms(2) by (auto simp: target_def map_inj_def split: option.splits)
    then have "logger_view (configureLogger ld s) l = spec_view d"
      using logger_view_touches [OF conjunct1 [OF conjunct2 [OF spec]] assms(1) len] l(2) by simp
    moreover have "smap_find (s_map (configureLogger ld s)) (ld_name d) = Some l"
      using spec ne l(1) by simp
    ultimately show ?thesis by blast
  qed
  moreover have "smap_find (s_map (configureLogger ld s)) (ld_name ld) = Some (target ld s)"
    using spec by simp
  ultimately show ?thesis using spec unfolding configured_def by auto
qed

lemma configure_all:
  assumes "sys_wf s" and "map_inj s" and "configured ds0 s"
    and "distinct (map ld_name (rev ds0 @ ds))"
  shows "sys_wf (fold configureLogger ds s) \<and> map_inj (fold configureLogger ds s)
    \<and> configured (rev ds @ ds0) (fold configureLogger ds s)
    \<and> s_root (fold configureLogger ds s) = s_root s
    \<and> dom (smap_find (s_map (fold configureLogger ds s))) = dom (smap_find (s_map s)) \<union> ld_name ` set ds"
  using assms
proof (induction ds arbitrary: s ds0)
  case Nil
  then show ?case by simp
next
  case (Cons ld ds)
  note spec = configureLogger_spec [OF Cons.prems(1), of ld]
  have "configured (ld # ds0) (configureLogger ld s)"
    using Cons.prems by (intro configured_step) auto
  then have IH: "sys_wf (fold configureLogger ds (configureLogger ld s))
    \<and> map_inj (fold configureLogger ds (configureLogger ld s))
    \<and> configured (rev ds @ ld # ds0) (fold configureLogger ds (configureLogger ld s))
    \<and> s_root (fold configureLogger ds (configureLogger ld s)) = s_root (configureLogger ld s)
    \<and> dom (smap_find (s_map (fold configureLogger ds (configureLogger ld s)))) =
        dom (smap_find (s_map (configureLogger ld s))) \<union> ld_name ` set ds"
    using Cons.prems spec configureLogger_inj [OF Cons.prems(1,2)] by (intro Cons.IH) auto
  have "dom (smap_find (s_map (configureLogger ld s))) = insert (ld_name ld) (dom (smap_find (s_map s)))"
    using spec by (auto simp: dom_def)
  moreover have "s_root (configureLogger ld s) = s_root s" using spec by (simp add: touches_def)
  ultimately show ?case using IH by auto
qed

lemma listener_syncs:
  assumes "sys_wf s" and "root_safe s" and "map_inj s" and "sorted_wrt ld_less nv"
  shows "\<exists>t. LogInit_listener (Suc (Suc d)) E nv ov s = Inr t \<and> sys_wf t \<and> map_inj t
    \<and> dom (smap_find (s_map t)) = ld_name ` set nv \<and> configured nv t \<and> s_root t = s_root s"
proof -
  obtain u where u: "fold_res (drop_unnamed (Suc (Suc d)) E nv) (s_map s) s = Inr u"
    "dropped (fst ` set (s_map s) - ld_name ` set nv) s u"
    using drop_unnamed_loop [OF assms(1,2)] by blast
  have find_u: "smap_find (s_map u) = (\<lambda>k. if k \<in> ld_name ` set nv then smap_find (s_map s) k else None)"
    using u(2) by (auto simp: dropped_def fun_eq_iff smap_find_None [THEN iffD2])
  have wf_u: "sys_wf u" "s_root u = s_root s" using u(2) by (auto simp: dropped_def)
  have inj_u: "map_inj u"
    using assms(3) find_u by (auto simp: map_inj_def split: if_splits)
  have dist: "distinct (map ld_name nv)" by (rule ld_sorted_names [OF assms(4)])
  have all: "sys_wf (fold configureLogger nv u) \<and> map_inj (fold configureLogger nv u)
    \<and> configured (rev nv @ []) (fold configureLogger nv u)
    \<and> s_root (fold configureLogger nv u) = s_root u
    \<and> dom (smap_find (s_map (fold configureLogger nv u))) = dom (smap_find (s_map u)) \<union> ld_name ` set nv"
    by (rule configure_all) (use wf_u inj_u dist in \<open>auto simp: configured_def\<close>)
  have "dom (smap_find (s_map u)) \<subseteq> ld_name ` set nv" using find_u by (auto split: if_splits)
  with all wf_u have "sys_wf (fold configureLogger nv u) \<and> map_inj (fold configureLogger nv u)
    \<and> dom (smap_find (s_map (fold configureLogger nv u))) = ld_name ` set nv
    \<and> configured nv (fold configureLogger nv u) \<and> s_root (fold configureLogger nv u) = s_root s"
    by (auto simp: configured_def)
  then show ?thesis using u(1) by (simp add: LogInit_listener_def)
qed

section \<open>Looking up, updating and creating loggers\<close>

text \<open>Well formed, with logger \<open>l\<close> in place and a given map.\<close>

definition wf_at :: "nat \<Rightarrow> (string, nat) smap \<Rightarrow> sys \<Rightarrow> bool" where
  "wf_at l m t \<longleftrightarrow> sys_wf t \<and> l < length (s_loggers t) \<and> s_map t = m"

lemma wf_at_attach: "wf_at l m t \<Longrightarrow> wf_at l m (attach_new l ap t)"
  by (simp add: wf_at_def sys_wf_attach_new)

lemma wf_at_upd_appender:
  "wf_at l m t \<Longrightarrow> (\<And>ap. a_formatter ap \<noteq> None \<Longrightarrow> a_formatter (f ap) \<noteq> None) \<Longrightarrow>
     wf_at l m (upd_appender a f t)"
  unfolding wf_at_def by (intro conjI sys_wf_upd_appender) simp_all

lemma reformat_map [simp]: "s_map (reformat_appender p a t) = s_map t"
  by (simp add: reformat_appender_def new_formatter_eq)

lemma wf_at_reformat:
  assumes "wf_at l m t" and "\<And>ap. a_formatter ap \<noteq> None \<Longrightarrow> a_formatter (f ap) \<noteq> None"
  shows "wf_at l m (reformat_appender p a (upd_appender a f t))"
  using wf_at_upd_appender [OF assms] by (simp add: wf_at_def sys_wf_reformat)

lemma wf_at_repath: "wf_at l m (snd ct) \<Longrightarrow> wf_at l m (snd (repath path a ct))"
  by (auto simp: repath_def setFilepath_def split: prod.splits option.splits akind.splits
      intro: wf_at_upd_appender)

lemma wf_at_entry:
  assumes "wf_at l m (snd ct)"
  shows "wf_at l m (snd (update_appender_entry l path appender ct))"
proof -
  have "wf_at l m (snd (fold (repath path) as ct'))" if "wf_at l m (snd ct')" for as ct'
    by (rule fold_keeps [where P = "\<lambda>ct. wf_at l m (snd ct)", OF that]) (rule wf_at_repath)
  from this [OF assms] show ?thesis
    using assms wf_at_attach
    by (auto simp: update_appender_entry_def split: prod.splits) (metis snd_conv)+
qed

lemma getLogger_spec:
  assumes "sys_wf s"
  shows "wf_at (fst (getLogger name s)) (s_map (snd (getLogger name s))) (snd (getLogger name s))
    \<and> smap_find (s_map (snd (getLogger name s))) =
       (\<lambda>k. if k = name then Some (fst (getLogger name s)) else smap_find (s_map s) k)"
proof (cases "smap_find (s_map s) name")
  case (Some l)
  with getLogger_wf [OF assms, of name] show ?thesis
    by (auto simp: wf_at_def getLogger_def)
next
  case None
  with getLogger_wf [OF assms, of name] show ?thesis
    by (auto simp: wf_at_def getLogger_def split_beta smap_find_set fun_eq_iff)
qed

lemma wf_at_level: "wf_at l m (snd ct) \<Longrightarrow> wf_at l m (snd (update_level l lv ct))"
  by (cases ct) (simp add: update_level_def wf_at_def sys_wf_setLevel)

lemma wf_at_pattern:
  assumes "wf_at l m (snd ct)"
  shows "wf_at l m (snd (update_pattern l pattern ct))"
proof -
  have "wf_at l m (setFormatter l pattern (snd ct))"
    using assms by (simp add: wf_at_def sys_wf_setFormatter)
  then have "wf_at l m (fold (\<lambda>a u. reformat_appender pattern a (upd_appender a (\<lambda>ap. ap\<lparr>a_custom := False\<rparr>) u))
      as (setFormatter l pattern (snd ct)))" for as
    by (rule fold_keeps [where P = "wf_at l m"]) (rule wf_at_reformat, simp_all)
  then show ?thesis using assms by (cases ct) (simp add: update_pattern_def)
qed

lemma updateLogger_Some:
  assumes "sys_wf s" and "smap_find (s_map s) name = Some l0"
  shows "wf_at (fst (getLogger (l_name (s_loggers s ! l0)) s))
    (s_map (snd (getLogger (l_name (s_loggers s ! l0)) s)))
    (snd (updateLogger name lv pattern apps path s))"
proof -
  obtain l s1 where g: "getLogger (l_name (s_loggers s ! l0)) s = (l, s1)" by force
  have "wf_at l (s_map s1) s1" using getLogger_spec [OF assms(1), of "l_name (s_loggers s ! l0)"] g by simp
  then have start: "wf_at l (s_map s1) (snd (update_pattern l pattern (update_level l lv (False, s1))))"
    by (intro wf_at_pattern wf_at_level) simp
  have "wf_at l (s_map s1) (snd (fold (update_appender_entry l path) apps
      (update_pattern l pattern (update_level l lv (False, s1)))))"
    by (rule fold_keeps [where P = "\<lambda>ct. wf_at l (s_map s1) (snd ct)", OF start]) (rule wf_at_entry)
  then show ?thesis using assms(2) g by (simp add: updateLogger_def)
qed

text \<open>The manager's invariant.\<close>

definition mgr_wf :: "sys \<Rightarrow> bool" where
  "mgr_wf s \<longleftrightarrow> sys_wf s \<and> map_inj s"

lemma map_inj_fresh:
  assumes "map_inj s" and "sys_wf s" and "length (s_loggers s) \<le> l"
    and "smap_find (s_map t) = (\<lambda>k. if k = name then Some l else smap_find (s_map s) k)"
  shows "map_inj t"
proof -
  have "smap_find (s_map s) k \<noteq> Some l" for k
    using sys_wf_lookup [OF assms(2), of k l] assms(3) by auto
  then show ?thesis using assms(1,4) by (auto simp: map_inj_def split: if_splits)
qed

lemma getLogger_mgr_wf [wf_rules]:
  assumes "mgr_wf s"
  shows "mgr_wf (snd (getLogger name s))"
proof (cases "smap_find (s_map s) name")
  case (Some l)
  with assms show ?thesis by (simp add: getLogger_def)
next
  case None
  have s: "sys_wf s" "map_inj s" using assms by (auto simp: mgr_wf_def)
  have "fst (getLogger name s) = length (s_loggers s)"
    using None by (simp add: getLogger_def split_beta)
  then have eq: "smap_find (s_map (snd (getLogger name s))) =
      (\<lambda>k. if k = name then Some (length (s_loggers s)) else smap_find (s_map s) k)"
    using getLogger_spec [OF s(1), of name] unfolding \<open>fst (getLogger name s) = length (s_loggers s)\<close>
    by blast
  have "map_inj (snd (getLogger name s))" by (rule map_inj_fresh [OF s(2,1) order_refl eq])
  then show ?thesis using getLogger_spec [OF s(1), of name] by (simp add: mgr_wf_def wf_at_def)
qed

lemma updateLogger_mgr_wf [wf_rules]:
  assumes "mgr_wf s"
  shows "mgr_wf (snd (updateLogger name lv pattern apps path s))"
proof (cases "smap_find (s_map s) name")
  case None
  with assms show ?thesis by (simp add: updateLogger_def)
next
  case (Some l0)
  have "sys_wf s" using assms by (simp add: mgr_wf_def)
  from updateLogger_Some [OF this Some, of lv pattern apps path]
  have u: "sys_wf (snd (updateLogger name lv pattern apps path s))"
    "s_map (snd (updateLogger name lv pattern apps path s)) =
       s_map (snd (getLogger (l_name (s_loggers s ! l0)) s))"
    by (simp_all add: wf_at_def)
  have "map_inj (snd (getLogger (l_name (s_loggers s ! l0)) s))"
    using getLogger_mgr_wf [OF assms] by (simp add: mgr_wf_def)
  then have "map_inj (snd (updateLogger name lv pattern apps path s))"
    unfolding map_inj_def u(2) .
  with u(1) show ?thesis by (simp add: mgr_wf_def)
qed

lemma configureLogger_mgr_wf [wf_rules]: "mgr_wf s \<Longrightarrow> mgr_wf (configureLogger ld s)"
  using configureLogger_spec configureLogger_inj by (simp add: mgr_wf_def)

lemma log_frame_mgr_wf: "log_frame s t \<Longrightarrow> mgr_wf s \<Longrightarrow> mgr_wf t"
  using log_frame_wf log_frame_loggers(3) by (auto simp: mgr_wf_def map_inj_def)

lemma mgr_log_mgr_wf: "mgr_log d E lv line txt s = Inr t \<Longrightarrow> mgr_wf s \<Longrightarrow> mgr_wf t"
  unfolding mgr_log_def by (rule log_frame_mgr_wf [OF ZNS_LOG_frame])

lemma removeLogger_mgr_wf:
  assumes "removeLogger d E name s = Inr t" and "mgr_wf s"
  shows "mgr_wf t"
proof (cases "smap_find (s_map s) name")
  case None
  with assms show ?thesis by (simp add: removeLogger_def mgr_log_mgr_wf)
next
  case (Some l)
  obtain t2 where t: "t = t2\<lparr>s_map := smap_erase name (s_map t2)\<rparr>" "mgr_wf t2"
    using assms(1) unfolding removeLogger_def Some option.case
    by (elim rbind_InrE) (auto dest: mgr_log_mgr_wf [OF _ assms(2)] mgr_log_mgr_wf)
  then have "smap_ok (s_map t2)" by (simp add: mgr_wf_def sys_wf_def)
  with t show ?thesis
    by (auto simp: mgr_wf_def sys_wf_map_erase map_inj_def smap_find_erase split: if_splits)
qed

lemma new_logger_with_wf:
  assumes "sys_wf s"
  shows "wf_at (length (s_loggers s)) (s_map s) (snd (new_logger_with name lv pattern apps path s))
    \<and> fst (new_logger_with name lv pattern apps path s) = length (s_loggers s)"
proof -
  let ?l = "length (s_loggers s)"
  let ?s1 = "snd (new_logger name lv pattern s)"
  have start: "wf_at ?l (s_map s) ?s1" using assms by (simp add: wf_at_def sys_wf_new_logger)
  have "wf_at ?l (s_map s) (fold (\<lambda>appender t.
       if appender = ''stdout'' then attach_new ?l StdoutLogAppender t
       else if appender = ''file'' then attach_new ?l (FileLogAppender path) t else t) apps ?s1)"
    by (rule fold_keeps [where P = "wf_at ?l (s_map s)", OF start]) (simp add: wf_at_attach)
  then show ?thesis unfolding new_logger_with_def split_beta new_logger_fields by simp
qed

lemma createLogger_mgr_wf:
  assumes "createLogger d E name lv pattern apps path s = Inr (l, t)" and "mgr_wf s"
  shows "mgr_wf t"
proof (cases "smap_find (s_map s) name")
  case (Some l')
  obtain s1 where s1: "mgr_wf s1" "(case updateLogger name lv pattern apps path s1 of
       (changed, s2) \<Rightarrow> if changed then
           rbind (mgr_log d E INFO 545
                    (''LoggerManager::createLogger: logger '' @ name @ '' has been updated'') s2)
             (\<lambda>s3. Inr (l', s3)) else Inr (l', s2)) = Inr (l, t)"
    using assms(1) unfolding createLogger_def Some option.case
    by (elim rbind_InrE) (auto dest: mgr_log_mgr_wf [OF _ assms(2)])
  have "mgr_wf (snd (updateLogger name lv pattern apps path s1))" by (rule updateLogger_mgr_wf [OF s1(1)])
  with s1(2) show ?thesis
    by (auto simp: split_beta rbind_Inr_iff split: if_splits dest: mgr_log_mgr_wf)
next
  case None
  have s: "sys_wf s" "map_inj s" using assms(2) by (auto simp: mgr_wf_def)
  let ?l = "length (s_loggers s)"
  let ?s1 = "snd (new_logger_with name lv pattern apps path s)"
  let ?s2 = "fold (\<lambda>a t. reformat_appender pattern a (upd_appender a (\<lambda>ap. ap\<lparr>a_level := lv\<rparr>) t))
               (l_appenders (s_loggers ?s1 ! ?l)) ?s1"
  have "wf_at ?l (s_map s) ?s2"
    by (rule fold_keeps [where P = "wf_at ?l (s_map s)"])
      (rule conjunct1 [OF new_logger_with_wf [OF s(1)]], rule wf_at_reformat, simp_all)
  then have s2: "sys_wf ?s2" "?l < length (s_loggers ?s2)" "s_map ?s2 = s_map s"
    by (auto simp: wf_at_def)
  have t: "t = ?s2\<lparr>s_map := smap_set name ?l (s_map ?s2)\<rparr>"
    using assms(1) None conjunct2 [OF new_logger_with_wf [OF s(1), of name lv pattern apps path]]
    by (auto simp: createLogger_def split_beta Let_def)
  have "map_inj t"
    by (rule map_inj_fresh [OF s(2,1) order_refl, of _ name]) (simp add: t s2(3) smap_find_set fun_eq_iff)
  with sys_wf_map_set [OF s2(1,2)] t show ?thesis by (simp add: mgr_wf_def)
qed

lemma drop_unnamed_mgr_wf:
  "drop_unnamed d E nv i s = Inr t \<Longrightarrow> mgr_wf s \<Longrightarrow> mgr_wf t"
  by (auto simp: drop_unnamed_def rbind_Inr_iff split: if_splits
      dest: mgr_log_mgr_wf removeLogger_mgr_wf)

lemma listener_mgr_wf:
  assumes "LogInit_listener d E nv ov s = Inr t" and "mgr_wf s"
  shows "mgr_wf t"
proof -
  obtain u where u: "fold_res (drop_unnamed d E nv) (s_map s) s = Inr u" "t = fold configureLogger nv u"
    using assms(1) by (auto simp: LogInit_listener_def rbind_Inr_iff)
  have "mgr_wf u"
    by (rule fold_res_inv [where P = mgr_wf, OF u(1) assms(2)]) (rule drop_unnamed_mgr_wf)
  then have "mgr_wf (fold configureLogger nv u)"
    by (rule fold_keeps [where P = mgr_wf]) (rule configureLogger_mgr_wf)
  with u(2) show ?thesis by simp
qed

lemma mgr_wf_boot: "mgr_wf boot"
  by (simp add: mgr_wf_def sys_wf_boot)
    (simp add: map_inj_def boot_def LoggerManager_def empty_sys_def new_logger_eq attach_new_eq
      split: if_splits)

end
