(* ===== verification/Transitions.thy ===== *)
theory Transitions
  imports ZPrelude
begin

text \<open>
  The interface of every state machine of the development: start states, steps, and a predicate
  that the start states have and every step keeps. It holds in every reachable state, and so
  does whatever it implies.
\<close>

locale transition_system =
  fixes init :: "'s \<Rightarrow> bool"
    and step :: "'s \<Rightarrow> 's \<Rightarrow> bool"
    and inv :: "'s \<Rightarrow> bool"
  assumes inv_init: "init s \<Longrightarrow> inv s"
    and inv_step: "inv s \<Longrightarrow> step s t \<Longrightarrow> inv t"
begin

lemma inv_steps:
  assumes "step\<^sup>*\<^sup>* s t" and "inv s"
  shows "inv t"
  using assms by (induction rule: rtranclp_induct) (auto intro: inv_step)

lemma reachable_inv: "init s \<Longrightarrow> step\<^sup>*\<^sup>* s t \<Longrightarrow> inv t"
  by (blast intro: inv_steps inv_init)

end

text \<open>
  A state machine with a relation every step respects: what a step may do to the parts of the
  state a client has hold of.
\<close>

locale tracked_system = transition_system init step inv
  for init :: "'s \<Rightarrow> bool" and step :: "'s \<Rightarrow> 's \<Rightarrow> bool" and inv :: "'s \<Rightarrow> bool" +
  fixes rel :: "'s \<Rightarrow> 's \<Rightarrow> bool"
  assumes rel_refl: "rel s s"
    and rel_trans: "rel s t \<Longrightarrow> rel t u \<Longrightarrow> rel s u"
    and rel_step: "inv s \<Longrightarrow> step s t \<Longrightarrow> rel s t"
begin

lemma rel_steps:
  assumes "step\<^sup>*\<^sup>* s t" and "inv s"
  shows "rel s t"
  using assms
proof (induction rule: rtranclp_induct)
  case base
  show ?case by (rule rel_refl)
next
  case (step t u)
  have "rel t u" by (rule rel_step [OF inv_steps [OF step.hyps(1) step.prems] step.hyps(2)])
  with step.IH [OF step.prems] show ?case by (rule rel_trans)
qed

end

text \<open>
  A state machine that does what another one does: every step is a number of steps of the other
  one, seen through \<open>abs\<close>. What holds of the other one's reachable states holds of its own.
\<close>

locale refined_system = transition_system init step inv
  for init :: "'s \<Rightarrow> bool" and step :: "'s \<Rightarrow> 's \<Rightarrow> bool" and inv :: "'s \<Rightarrow> bool" +
  fixes cinit :: "'c \<Rightarrow> bool" and cstep :: "'c \<Rightarrow> 'c \<Rightarrow> bool"
    and abs :: "'c \<Rightarrow> 's" and cinv :: "'c \<Rightarrow> bool"
  assumes abs_init: "cinit c \<Longrightarrow> init (abs c) \<and> cinv c"
    and abs_step: "cinv c \<Longrightarrow> inv (abs c) \<Longrightarrow> cstep c d \<Longrightarrow> cinv d \<and> step\<^sup>*\<^sup>* (abs c) (abs d)"

sublocale refined_system \<subseteq> concrete: transition_system cinit cstep "\<lambda>c. cinv c \<and> inv (abs c)"
  by unfold_locales (use abs_init abs_step inv_init inv_steps in blast)+

context refined_system
begin

lemma abs_reachable:
  assumes "cstep\<^sup>*\<^sup>* c d" and "cinit c"
  shows "step\<^sup>*\<^sup>* (abs c) (abs d) \<and> cinv d \<and> inv (abs d)"
  using assms
proof (induction rule: rtranclp_induct)
  case base
  then show ?case using abs_init inv_init by blast
next
  case (step d e)
  then have d: "step\<^sup>*\<^sup>* (abs c) (abs d)" "cinv d" "inv (abs d)" by blast+
  with abs_step [OF d(2,3) step.hyps(2)] have "step\<^sup>*\<^sup>* (abs c) (abs e)" "cinv e" by (auto intro: rtranclp_trans)
  with d(3) abs_step [OF d(2,3) step.hyps(2)] inv_steps show ?case by blast
qed

end

end
