(* ===== verification/LogProps.thy ===== *)
theory LogProps
  imports ManagerSpec Transitions
begin

text \<open>
  The properties of the logging system: the manager as a state machine with its invariant, what a
  log statement prints, when it returns and when it exhausts the stack, files, and the
  configuration of loggers.
\<close>

section \<open>A concrete environment\<close>

definition sample_env :: "(string \<Rightarrow> bool) \<Rightarrow> env" where
  "sample_env can_open =
     \<lparr>e_localtime = (\<lambda>_. \<lparr>tm_year = 2025, tm_mon = 0, tm_mday = 2, tm_hour = 3, tm_min = 4, tm_sec = 5\<rparr>),
      e_strftime = (\<lambda>f t. []), e_stale = [], e_tid = 7, e_clock = (\<lambda>h. 0),
      e_can_open = (\<lambda>h p. can_open p), e_can_write = (\<lambda>h p. True),
      e_log_cpp = ''log.cpp'', e_config_h = ''config.h'', e_config_cpp = ''config.cpp'', e_use_count = (\<lambda>h l. 2)\<rparr>"

lemma boot_eq:
  "boot =
   \<lparr>s_loggers = [(fresh_logger ''root'' DEBUG default_pattern)\<lparr>l_appenders := [0]\<rparr>],
    s_appenders = [StdoutLogAppender\<lparr>a_formatter := Some (fst (LogFormatter default_pattern))\<rparr>],
    s_map = [(''root'', 0)], s_root = 0,
    s_out = map Cout (snd (LogFormatter default_pattern))\<rparr>"
  by (simp add: boot_def LoggerManager_def empty_sys_def new_logger_eq attach_new_eq fresh_logger_def
      with_formatter_def StdoutLogAppender_def LogAppender_def emit_def)

lemma boot_root_safe: "root_safe boot"
  by (simp add: boot_eq root_safe_def quiet_appender_def getAppenderType_def StdoutLogAppender_def
      LogAppender_def)

section \<open>The manager as a state machine\<close>

text \<open>
  One step is one call: of the manager's operations, of a logger's or an appender's methods, of
  the change listener, or one log statement. \<open>R\<close> is the set of loggers the program ever renames
  by \<^verbatim>\<open>Logger::setName\<close>; with \<^term>\<open>UNIV\<close> it may rename any of them. A formatter set on an
  appender is not null. A call that ends in an error is not a step.
\<close>

inductive mgr_step :: "nat set \<Rightarrow> nat \<Rightarrow> env \<Rightarrow> sys \<Rightarrow> sys \<Rightarrow> bool"
  for R :: "nat set" and d :: nat and E :: env where
  get: "mgr_step R d E s (snd (getLogger name s))"
| create: "createLogger d E name lv pattern apps path s = Inr (l, t) \<Longrightarrow> mgr_step R d E s t"
| update: "mgr_step R d E s (snd (updateLogger name lv pattern apps path s))"
| configure: "mgr_step R d E s (configureLogger ld s)"
| remove: "removeLogger d E name s = Inr t \<Longrightarrow> mgr_step R d E s t"
| listener: "LogInit_listener d E nv ov s = Inr t \<Longrightarrow> mgr_step R d E s t"
| log: "ZNS_LOG (Logger_log d E) E l lv file line txt s = Inr t \<Longrightarrow> mgr_step R d E s t"
| add: "l < length (s_loggers s) \<Longrightarrow> mgr_step R d E s (attach_new l ap s)"
| del: "mgr_step R d E s (delAppender l a s)"
| clear: "mgr_step R d E s (clearAppenders l s)"
| level: "mgr_step R d E s (setLevel l lv s)"
| format: "mgr_step R d E s (setFormatter l pattern s)"
| rename: "l \<in> R \<Longrightarrow> mgr_step R d E s (setName l name s)"
| make: "mgr_step R d E s (snd (new_logger name lv pattern s))"
| make_with: "mgr_step R d E s (snd (new_logger_with name lv pattern apps path s))"
| share: "a < length (s_appenders s) \<Longrightarrow> mgr_step R d E s (addAppender l a s)"
| ap_format: "mgr_step R d E s (appender_setFormatter a (Some f) s)"
| ap_level: "mgr_step R d E s (appender_setLevel a lv s)"
| ap_custom: "mgr_step R d E s (setHasCustomFormatter a flag s)"
| ap_path: "mgr_step R d E s (upd_appender a (setFilepath path) s)"
| ap_reopen: "mgr_step R d E s (fst (reopen E a s))"

lemma mgr_wf_same_map: "mgr_wf s \<Longrightarrow> sys_wf t \<Longrightarrow> s_map t = s_map s \<Longrightarrow> mgr_wf t"
  by (simp add: mgr_wf_def map_inj_def)

lemma mgr_step_wf:
  assumes "mgr_wf s" and "mgr_step R d E s t"
  shows "mgr_wf t"
  using assms(2)
proof (cases rule: mgr_step.cases)
  case (get name)
  then show ?thesis using getLogger_mgr_wf [OF assms(1)] by simp
next
  case (create name lv pattern apps path l)
  then show ?thesis using createLogger_mgr_wf assms(1) by blast
next
  case (update name lv pattern apps path)
  then show ?thesis using updateLogger_mgr_wf [OF assms(1)] by simp
next
  case (configure ld)
  then show ?thesis using configureLogger_mgr_wf [OF assms(1)] by simp
next
  case (remove name)
  then show ?thesis using removeLogger_mgr_wf assms(1) by blast
next
  case (listener nv ov)
  then show ?thesis using listener_mgr_wf assms(1) by blast
next
  case (log l lv fname ln msg)
  show ?thesis by (rule log_frame_mgr_wf [OF ZNS_LOG_frame [OF log] assms(1)])
next
  case (ap_reopen a)
  show ?thesis unfolding ap_reopen by (rule log_frame_mgr_wf [OF log_frame_reopen assms(1)])
next
  case (make_with name lv pattern apps path)
  have "sys_wf s" using assms(1) by (simp add: mgr_wf_def)
  from new_logger_with_wf [OF this] show ?thesis
    unfolding make_with by (intro mgr_wf_same_map [OF assms(1)]) (simp_all add: wf_at_def)
qed (simp_all add: mgr_wf_same_map [OF assms(1)] wf_rules assms(1) [unfolded mgr_wf_def])

interpretation mgr: transition_system "\<lambda>s. s = boot" "mgr_step R d E" mgr_wf for R d E
  by unfold_locales (auto simp: mgr_wf_boot intro: mgr_step_wf)

inductive_simps mgr_step_iff: "mgr_step R d E s t"

lemmas log_steps_wf = mgr.reachable_inv [OF refl]

section \<open>Outcomes of a log statement\<close>

text \<open>
  C6 (LoggerManager, Logger::log). In every state the operations can reach, the setters of
  loggers and appenders included and any logger renamed, no two names share a
  logger, no name is dangling and every attached appender has a formatter; so a log call on any
  existing logger either returns, having changed nothing but streams and output, or runs out of
  stack. It never uses a null formatter.
\<close>

theorem reachable_log_outcome:
  assumes "(mgr_step R d E)\<^sup>*\<^sup>* boot s" and "l < length (s_loggers s)"
  shows "mgr_wf s \<and>
    ((\<exists>t. Logger_log n E l lv ev s = Inr t \<and> log_frame s t) \<or>
     Logger_log n E l lv ev s = Inl StackOverflow)"
proof -
  have wf: "mgr_wf s" by (rule log_steps_wf [OF assms(1)])
  then have "sys_wf s" by (simp add: mgr_wf_def)
  from Logger_log_only_overflow [OF this assms(2), of n E lv ev] Logger_log_frame [of n E l lv ev s] wf
  show ?thesis by (cases "Logger_log n E l lv ev s") auto
qed

theorem reachable_log_outcome_witness:
  "mgr_wf (snd (getLogger ''zn'' boot))"
proof -
  have "(mgr_step UNIV 2 (sample_env (\<lambda>_. True)))\<^sup>*\<^sup>* boot (snd (getLogger ''zn'' boot))"
    by (rule r_into_rtranclp) (rule mgr_step.get)
  moreover have "0 < length (s_loggers (snd (getLogger ''zn'' boot)))"
  proof -
    have "0 < length (s_loggers boot)" by (simp add: boot_eq)
    with getLogger_wf [OF sys_wf_boot, of "''zn''"] show ?thesis by linarith
  qed
  ultimately show ?thesis
    using reachable_log_outcome [where E = "sample_env (\<lambda>_. True)"] by blast
qed

text \<open>
  C7 (Logger::log, FileLogAppender::log). Room for two nested calls is enough: when the root
  logger cannot come back to a file it fails to open, every log call returns, changing only
  streams and output, and the root logger stays harmless.
\<close>

theorem log_returns:
  assumes "sys_wf s" and "root_safe s" and "l < length (s_loggers s)"
  shows "\<exists>t. Logger_log (Suc (Suc d)) E l lv ev s = Inr t \<and> log_frame s t \<and> root_safe t"
  using Logger_log_returns [OF assms, of d E lv ev] by (auto simp: safe_from_def)

theorem log_returns_witness:
  "\<exists>t. Logger_log 2 (sample_env (\<lambda>_. False)) 0 INFO
     (LogEvent ''a.cpp'' 1 0 0 0 0 [] INFO) boot = Inr t \<and> log_frame boot t \<and> root_safe t"
proof -
  have "0 < length (s_loggers boot)" by (simp add: boot_eq)
  from log_returns [OF sys_wf_boot boot_root_safe this, of 0] show ?thesis
    by (simp only: numeral_2_eq_2)
qed

text \<open>
  C8 (FileLogAppender::log). When an appender of the root logger that takes errors cannot open
  its file, the report of the failure is sent to the root logger, reaches the same appender and
  fails again: whatever room the stack has, logging to the root logger exhausts it.
\<close>

theorem failing_root_file_overflows:
  assumes "dead_root E a s" and "l_level (s_loggers s ! s_root s) \<le> lv"
    and "a_level (s_appenders s ! a) \<le> lv"
  shows "Logger_log d E (s_root s) lv ev s = Inl StackOverflow"
  by (rule dead_root_overflows [OF assms])

definition root_with_file :: sys where
  "root_with_file = attach_new 0 (FileLogAppender ''../logs/root.log'') boot"

lemma root_with_file_dead: "dead_root (sample_env (\<lambda>_. False)) 1 root_with_file"
proof -
  have "sys_wf root_with_file"
    unfolding root_with_file_def by (rule sys_wf_attach_new [OF sys_wf_boot]) (simp add: boot_eq)
  then show ?thesis
    by (simp add: dead_root_def dead_file_def root_with_file_def attach_new_eq boot_eq
        with_formatter_def FileLogAppender_def LogAppender_def closed_stream_def sample_env_def
        fresh_logger_def level_order)
qed

theorem failing_root_file_overflows_witness:
  "ZNS_LOG (Logger_log 1000 (sample_env (\<lambda>_. False))) (sample_env (\<lambda>_. False)) 0 INFO ''a.cpp'' 1 ''hi''
     root_with_file = Inl StackOverflow"
proof -
  have root: "s_root root_with_file = 0" "l_level (s_loggers root_with_file ! 0) = DEBUG"
    "a_level (s_appenders root_with_file ! Suc 0) = DEBUG"
    by (simp_all add: root_with_file_def attach_new_eq boot_eq fresh_logger_def
        with_formatter_def FileLogAppender_def LogAppender_def)
  have "Logger_log 1000 (sample_env (\<lambda>_. False)) 0 INFO ev root_with_file = Inl StackOverflow" for ev
    using failing_root_file_overflows [OF root_with_file_dead, of INFO 1000 ev]
    by (simp add: root level_order)
  then show ?thesis by (simp add: ZNS_LOG_eq root level_order)
qed

section \<open>What is printed\<close>

definition console_only :: "sys \<Rightarrow> nat \<Rightarrow> bool" where
  "console_only s l \<longleftrightarrow> (\<forall>a \<in> set (l_appenders (s_loggers s ! l)).
     a_kind (s_appenders s ! a) = StdoutKind \<and> a_formatter (s_appenders s ! a) \<noteq> None)"

definition console_lines :: "env \<Rightarrow> sys \<Rightarrow> nat \<Rightarrow> level \<Rightarrow> event \<Rightarrow> effect list" where
  "console_lines E s l lv ev =
     map (\<lambda>a. Cout (formatter_format E (the (a_formatter (s_appenders s ! a)))
                     (l_name (s_loggers s ! l)) lv ev))
       (filter (\<lambda>a. a_level (s_appenders s ! a) \<le> lv) (l_appenders (s_loggers s ! l)))"

lemma console_loop:
  assumes "\<forall>a \<in> set as. a_kind (s_appenders s ! a) = StdoutKind \<and> a_formatter (s_appenders s ! a) \<noteq> None"
  shows "fold_res (Appender_log report E lv ev l) as (emit es s) =
    Inr (emit (es @ map (\<lambda>a. Cout (formatter_format E (the (a_formatter (s_appenders s ! a)))
                     (l_name (s_loggers s ! l)) lv ev))
               (filter (\<lambda>a. a_level (s_appenders s ! a) \<le> lv) as)) s)"
  using assms
proof (induction as arbitrary: es)
  case Nil
  show ?case by simp
next
  case (Cons a as)
  have join: "emit ys (emit xs s) = emit (xs @ ys) s" for xs ys by (simp add: emit_def)
  obtain f where f: "a_formatter (s_appenders s ! a) = Some f" using Cons.prems by auto
  have "Appender_log report E lv ev l a (emit es s) =
      Inr (emit (es @ (if a_level (s_appenders s ! a) \<le> lv
        then [Cout (formatter_format E f (l_name (s_loggers s ! l)) lv ev)] else [])) s)"
    using Cons.prems f by (simp add: Appender_log_def Stdout_log_def Let_def join)
  then show ?case using Cons.IH Cons.prems f by simp
qed

text \<open>
  C9 (Logger::log, StdoutLogAppender::log). A logger that writes to the console prints, for an
  event at or above its level, one formatted line per appender whose level the event reaches,
  in the order the appenders were added, and nothing below its level; nothing else happens.
\<close>

theorem console_log:
  assumes "console_only s l"
  shows "Logger_log (Suc d) E l lv ev s =
    Inr (emit (if l_level (s_loggers s ! l) \<le> lv then console_lines E s l lv ev else []) s)"
  using console_loop [of "l_appenders (s_loggers s ! l)" s "report_root d E" E lv ev l "[]"] assms
  by (simp add: Logger_log_Suc console_only_def console_lines_def)

theorem console_log_witness:
  "Logger_log 1 (sample_env (\<lambda>_. True)) 0 WARN
     (stream_out ''hello'' (LogEvent ''a.cpp'' 12 0 7 0 0 [] WARN)) boot =
   Inr (emit [Cout (''2025-01-02 03:04:05'' @ [CHR 0x09] @ ''7'' @ [CHR 0x09] @ ''0'' @ [CHR 0x09] @
     ''[WARN]'' @ [CHR 0x09] @ ''[root]'' @ [CHR 0x09] @ ''a.cpp:12'' @ [CHR 0x09] @ ''hello'')] boot)"
  (is "Logger_log 1 ?E 0 WARN ?ev boot = _")
proof -
  have con: "console_only boot 0"
    by (simp add: console_only_def boot_eq StdoutLogAppender_def LogAppender_def)
  have tm: "time_text ?E default_time_format (e_localtime ?E (ev_time ?ev)) = ''2025-01-02 03:04:05''"
  proof -
    have "e_localtime ?E (ev_time ?ev) =
        \<lparr>tm_year = 2025, tm_mon = 0, tm_mday = 2, tm_hour = 3, tm_min = 4, tm_sec = 5\<rparr>" (is "_ = ?t")
      by (simp add: sample_env_def)
    moreover have "strftime_simple default_time_format ?t = ''2025-01-02 03:04:05''" by code_simp
    ultimately show ?thesis by (simp add: time_text_def default_time_simple(1))
  qed
  have nums: "show_u32 7 = ''7''" "show_u32 0 = ''0''" "show_i32 12 = ''12''"
    by code_simp+
  have lines: "console_lines ?E boot 0 WARN ?ev =
    [Cout (formatter_format ?E (fst (LogFormatter default_pattern)) ''root'' WARN ?ev)]"
    by (simp add: console_lines_def boot_eq StdoutLogAppender_def LogAppender_def fresh_logger_def level_order)
  have "l_level (s_loggers boot ! 0) \<le> WARN"
    by (simp add: boot_eq fresh_logger_def level_order)
  then have "Logger_log 1 ?E 0 WARN ?ev boot =
      Inr (emit [Cout (formatter_format ?E (fst (LogFormatter default_pattern)) ''root'' WARN ?ev)] boot)"
    using console_log [OF con, of 0 ?E WARN ?ev] lines by simp
  moreover have "formatter_format ?E (fst (LogFormatter default_pattern)) ''root'' WARN ?ev =
    ''2025-01-02 03:04:05'' @ [CHR 0x09] @ ''7'' @ [CHR 0x09] @ ''0'' @ [CHR 0x09] @
     ''[WARN]'' @ [CHR 0x09] @ ''[root]'' @ [CHR 0x09] @ ''a.cpp:12'' @ [CHR 0x09] @ ''hello''"
    unfolding formatter_format_def LogFormatter_fields default_pattern_tokens
    using tm nums
    by (simp add: item_of_token_def s_format_items_def mk_TimeFormatItem_def default_time_format_def
        ToString_def getContent_def stream_out_def LogEvent_def)
  ultimately show ?thesis by simp
qed

text \<open>
  \<^verbatim>\<open>LoggerManager::getLogger\<close>: the logger made for a name that is not configured has the root
  logger as its fallback, but logging never uses the fallback: whatever is logged to it,
  nothing is printed.
\<close>

theorem unconfigured_logger_is_silent:
  assumes "smap_find (s_map s) name = None"
  shows "l_root (s_loggers (snd (getLogger name s)) ! fst (getLogger name s)) = Some (s_root s) \<and>
    ZNS_LOG (Logger_log (Suc d) E) E (fst (getLogger name s)) lv file line txt (snd (getLogger name s)) =
      Inr (snd (getLogger name s))"
proof -
  let ?l = "fst (getLogger name s)" and ?t = "snd (getLogger name s)"
  have lg: "s_loggers ?t ! ?l = (fresh_logger name DEBUG default_pattern)\<lparr>l_root := Some (s_root s)\<rparr>"
    using assms by (simp add: getLogger_def split_beta upd_logger_nth)
  have "console_only ?t ?l" "console_lines E ?t ?l lv ev = []" for ev
    by (simp_all add: console_only_def console_lines_def lg fresh_logger_def)
  then have "Logger_log (Suc d) E ?l lv ev ?t = Inr ?t" for ev
    using console_loop [of "[]" ?t "report_root d E" E lv ev ?l "[]"]
    by (simp add: Logger_log_Suc lg fresh_logger_def)
  then show ?thesis by (simp add: lg ZNS_LOG_eq)
qed

theorem unconfigured_logger_is_silent_witness:
  "ZNS_LOG (Logger_log 1 (sample_env (\<lambda>_. True))) (sample_env (\<lambda>_. True))
     (fst (getLogger ''thread'' boot)) ERROR ''thread.cpp'' 26 ''pthread_create fail''
     (snd (getLogger ''thread'' boot)) = Inr (snd (getLogger ''thread'' boot))"
proof -
  have "smap_find (s_map boot) ''thread'' = None" by (simp add: boot_eq)
  from unconfigured_logger_is_silent [OF this, of 0 "sample_env (\<lambda>_. True)" ERROR "''thread.cpp''" 26
      "''pthread_create fail''"]
  show ?thesis by simp
qed

end
