(* ===== verification/ManagerNames.thy ===== *)
theory ManagerNames
  imports LogProps
begin

text \<open>
  What the manager's operations leave alone: a logger, once made, keeps its place and its name,
  the root logger stays the root logger, and a name is bound to a logger of that name.
\<close>

section \<open>Loggers keep their names\<close>

definition keeps :: "sys \<Rightarrow> sys \<Rightarrow> bool" where
  "keeps s t \<longleftrightarrow> length (s_loggers s) \<le> length (s_loggers t) \<and> s_root t = s_root s \<and>
     (\<forall>l < length (s_loggers s). l_name (s_loggers t ! l) = l_name (s_loggers s ! l))"

lemma keeps_refl [simp]: "keeps s s"
  by (simp add: keeps_def)

lemma keeps_trans [trans]: "keeps s t \<Longrightarrow> keeps t u \<Longrightarrow> keeps s u"
  by (auto simp: keeps_def)

named_theorems keeps_rules \<open>operations that keep the loggers and their names\<close>

lemma keeps_emit [keeps_rules]: "keeps s t \<Longrightarrow> keeps s (emit es t)"
  by (simp add: keeps_def)

lemma keeps_map [keeps_rules]: "keeps s t \<Longrightarrow> keeps s (t\<lparr>s_map := m\<rparr>)"
  by (simp add: keeps_def)

lemma keeps_upd_appender [keeps_rules]: "keeps s t \<Longrightarrow> keeps s (upd_appender a f t)"
  by (simp add: keeps_def)

lemma keeps_upd_logger [keeps_rules]:
  assumes "keeps s t" and "\<And>lg. l_name (f lg) = l_name lg"
  shows "keeps s (upd_logger l f t)"
proof -
  have "l_name (s_loggers (upd_logger l f t) ! l') = l_name (s_loggers t ! l')"
    if "l' < length (s_loggers t)" for l'
    using that assms(2) by (cases "l' = l") (simp_all add: upd_logger_def)
  with assms(1) show ?thesis by (simp add: keeps_def)
qed

lemma keeps_new_logger [keeps_rules]: "keeps s t \<Longrightarrow> keeps s (snd (new_logger n lv p t))"
  by (simp add: keeps_def nth_append)

lemma keeps_new_appender [keeps_rules]: "keeps s t \<Longrightarrow> keeps s (snd (new_appender ap t))"
  by (simp add: keeps_def new_appender_def)

lemma keeps_new_formatter [keeps_rules]: "keeps s t \<Longrightarrow> keeps s (snd (new_formatter p t))"
  by (simp add: new_formatter_eq keeps_emit)

lemma keeps_addAppender [keeps_rules]: "keeps s t \<Longrightarrow> keeps s (addAppender l a t)"
  unfolding addAppender_def Let_def by (intro keeps_rules) (auto intro: keeps_rules)

lemma keeps_attach_new [keeps_rules]: "keeps s t \<Longrightarrow> keeps s (attach_new l ap t)"
  unfolding attach_new_def split_beta by (intro keeps_rules)

lemma keeps_setters [keeps_rules]:
  "keeps s t \<Longrightarrow> keeps s (setLevel l lv t)"
  "keeps s t \<Longrightarrow> keeps s (setFormatter l p t)"
  "keeps s t \<Longrightarrow> keeps s (clearAppenders l t)"
  "keeps s t \<Longrightarrow> keeps s (delAppender l a t)"
  "keeps s t \<Longrightarrow> keeps s (reformat_appender p a t)"
  unfolding setLevel_def setFormatter_def clearAppenders_def delAppender_def reformat_appender_def split_beta
  by (auto intro!: keeps_rules)

lemma keeps_fold [keeps_rules]:
  "keeps s t \<Longrightarrow> (\<And>x u. keeps s u \<Longrightarrow> keeps s (f x u)) \<Longrightarrow> keeps s (fold f xs t)"
  by (rule fold_keeps [where P = "keeps s"])

lemma keeps_log_frame: "keeps s t \<Longrightarrow> log_frame t u \<Longrightarrow> keeps s u"
  using log_frame_loggers [of t u] by (simp add: keeps_def)

text \<open>The same, but for the names of the loggers in \<open>R\<close>.\<close>

definition keeps_but :: "nat set \<Rightarrow> sys \<Rightarrow> sys \<Rightarrow> bool" where
  "keeps_but R s t \<longleftrightarrow> length (s_loggers s) \<le> length (s_loggers t) \<and> s_root t = s_root s \<and>
     (\<forall>l < length (s_loggers s). l \<notin> R \<longrightarrow> l_name (s_loggers t ! l) = l_name (s_loggers s ! l))"

lemma keeps_but_refl: "keeps_but R s s"
  by (simp add: keeps_but_def)

lemma keeps_but_trans: "keeps_but R s t \<Longrightarrow> keeps_but R t u \<Longrightarrow> keeps_but R s u"
  by (auto simp: keeps_but_def)

lemma keeps_but_keeps: "keeps s t \<Longrightarrow> keeps_but R s t"
  by (simp add: keeps_def keeps_but_def)

lemma keeps_but_setName: "l \<in> R \<Longrightarrow> keeps_but R s (setName l name s)"
proof -
  assume l: "l \<in> R"
  have "l_name (s_loggers (setName l name s) ! l') = l_name (s_loggers s ! l')" if "l' \<notin> R" for l'
  proof -
    have "l \<noteq> l'" using l that by blast
    then show ?thesis by (simp add: setName_def upd_logger_def)
  qed
  then show ?thesis by (simp add: keeps_but_def) (simp add: setName_def)
qed

section \<open>The manager's operations\<close>

lemma keeps_getLogger [keeps_rules]: "keeps s t \<Longrightarrow> keeps s (snd (getLogger name t))"
  unfolding getLogger_def split_beta Let_def
  by (auto split: option.splits intro!: keeps_rules)

lemma keeps_updateAppender [keeps_rules]: "keeps s t \<Longrightarrow> keeps s (updateAppender l ld t)"
proof -
  assume "keeps s t"
  have "keeps s (define_appender l ld def u)" if "keeps s u" for l def u
    using that unfolding define_appender_def split_beta Let_def
    by (auto split: option.splits intro!: keeps_rules)
  with \<open>keeps s t\<close> show ?thesis
    unfolding updateAppender_def by (intro keeps_rules)
qed

lemma keeps_configureLogger [keeps_rules]: "keeps s t \<Longrightarrow> keeps s (configureLogger ld t)"
  unfolding configureLogger_def split_beta Let_def
  by (auto split: option.splits intro!: keeps_rules)

lemma keeps_update_appender_entry:
  assumes "keeps s (snd ct)"
  shows "keeps s (snd (update_appender_entry l path appender ct))"
proof -
  have "keeps s (snd (repath path a ct'))" if "keeps s (snd ct')" for a ct'
    using that unfolding repath_def split_beta by (auto split: option.splits intro!: keeps_rules)
  then have "keeps s (snd (fold (repath path) as ct'))" if "keeps s (snd ct')" for as ct'
    using that by (intro fold_keeps [where P = "\<lambda>ct. keeps s (snd ct)"]) auto
  from this [OF assms] show ?thesis
    using assms by (auto simp: update_appender_entry_def split_beta intro!: keeps_rules)
qed

lemma keeps_update_parts:
  assumes "keeps s u"
  shows "keeps s (snd (fold (update_appender_entry l path) apps
      (update_pattern l pattern (update_level l lv (False, u)))))"
proof -
  have "keeps s (snd (update_pattern l pattern (update_level l lv (False, u))))"
    using assms by (auto simp: update_pattern_def update_level_def split_beta intro!: keeps_rules)
  then show ?thesis
    by (intro fold_keeps [where P = "\<lambda>ct. keeps s (snd ct)"] keeps_update_appender_entry) auto
qed

lemma keeps_updateLogger [keeps_rules]:
  assumes "keeps s t"
  shows "keeps s (snd (updateLogger name lv pattern apps path t))"
proof (cases "smap_find (s_map t) name")
  case None
  with assms show ?thesis by (simp add: updateLogger_def)
next
  case (Some l0)
  with assms show ?thesis
    by (simp add: updateLogger_def split_beta keeps_getLogger keeps_update_parts)
qed

lemma keeps_new_logger_with [keeps_rules]:
  "keeps s t \<Longrightarrow> keeps s (snd (new_logger_with name lv pattern apps path t))"
  unfolding new_logger_with_def split_beta by (auto intro!: keeps_rules)

lemma keeps_mgr_log: "mgr_log d E lv line msg t = Inr u \<Longrightarrow> keeps s t \<Longrightarrow> keeps s u"
  unfolding mgr_log_def by (rule keeps_log_frame [OF _ ZNS_LOG_frame])

lemma keeps_removeLogger: "removeLogger d E name t = Inr u \<Longrightarrow> keeps s t \<Longrightarrow> keeps s u"
  by (auto simp: removeLogger_def rbind_Inr_iff split: option.splits
      intro!: keeps_rules intro: keeps_mgr_log)

lemma keeps_createLogger:
  assumes "createLogger d E name lv pattern apps path t = Inr (l, u)" and "keeps s t"
  shows "keeps s u"
  using assms
  by (auto simp: createLogger_def rbind_Inr_iff split_beta Let_def split: option.splits if_splits
      intro!: keeps_rules elim!: keeps_mgr_log)

lemma keeps_listener:
  assumes "LogInit_listener d E nv ov t = Inr u" and "keeps s t"
  shows "keeps s u"
proof -
  obtain v where v: "fold_res (drop_unnamed d E nv) (s_map t) t = Inr v" "u = fold configureLogger nv v"
    using assms(1) by (auto simp: LogInit_listener_def rbind_Inr_iff)
  have "keeps s v"
    by (rule fold_res_inv [where P = "keeps s", OF v(1) assms(2)])
      (auto simp: drop_unnamed_def rbind_Inr_iff split: if_splits intro: keeps_mgr_log keeps_removeLogger)
  then show ?thesis unfolding v(2) by (intro keeps_rules)
qed

lemma keeps_appender_setters [keeps_rules]:
  "keeps s t \<Longrightarrow> keeps s (appender_setFormatter a v t)"
  "keeps s t \<Longrightarrow> keeps s (appender_setLevel a lv t)"
  "keeps s t \<Longrightarrow> keeps s (setHasCustomFormatter a flag t)"
  by (simp_all add: appender_setFormatter_def appender_setLevel_def setHasCustomFormatter_def
      keeps_upd_appender)

lemma mgr_step_keeps:
  assumes "mgr_step R d E s t"
  shows "keeps_but R s t"
  using assms
proof (cases rule: mgr_step.cases)
  case (create name lv pattern apps path l)
  then show ?thesis by (blast intro: keeps_but_keeps keeps_createLogger keeps_refl)
next
  case (remove name)
  then show ?thesis by (blast intro: keeps_but_keeps keeps_removeLogger keeps_refl)
next
  case (listener nv ov)
  then show ?thesis by (blast intro: keeps_but_keeps keeps_listener keeps_refl)
next
  case (log l lv fname ln msg)
  then show ?thesis by (intro keeps_but_keeps keeps_log_frame [OF keeps_refl ZNS_LOG_frame])
next
  case (rename l name)
  then show ?thesis by (simp add: keeps_but_setName)
next
  case (ap_reopen a)
  then show ?thesis by (simp add: keeps_but_keeps keeps_log_frame [OF keeps_refl log_frame_reopen])
qed (auto intro!: keeps_rules keeps_but_keeps)

section \<open>A name is bound to a logger of that name\<close>

text \<open>\<open>R\<close> is the set of loggers that may have been renamed.\<close>

definition named :: "nat set \<Rightarrow> sys \<Rightarrow> bool" where
  "named R s \<longleftrightarrow>
     (\<forall>k l. smap_find (s_map s) k = Some l \<longrightarrow> l \<notin> R \<longrightarrow> l_name (s_loggers s ! l) = k)"

definition mgr_named :: "nat set \<Rightarrow> sys \<Rightarrow> bool" where
  "mgr_named R s \<longleftrightarrow> mgr_wf s \<and> named R s"

lemma mgr_named_wf: "mgr_named R s \<Longrightarrow> sys_wf s"
  by (simp add: mgr_named_def mgr_wf_def)

lemma named_keeps:
  assumes "mgr_named R s" and "keeps_but R s t"
    and "\<And>k l. smap_find (s_map t) k = Some l \<Longrightarrow> smap_find (s_map s) k = Some l"
  shows "named R t"
  unfolding named_def
proof (intro allI impI)
  fix k l
  assume "l \<notin> R" and "smap_find (s_map t) k = Some l"
  then have k: "smap_find (s_map s) k = Some l" by (intro assms(3))
  with sys_wf_lookup [OF mgr_named_wf [OF assms(1)] k] show "l_name (s_loggers t ! l) = k"
    using assms(1,2) \<open>l \<notin> R\<close> by (simp add: mgr_named_def named_def keeps_but_def)
qed

lemma named_bind:
  assumes "mgr_named R s" and "keeps s t" and "l \<notin> R \<Longrightarrow> l_name (s_loggers t ! l) = name"
    and "smap_find (s_map t) = (\<lambda>k. if k = name then Some l else smap_find (s_map s) k)"
  shows "named R t"
  using assms sys_wf_lookup [OF mgr_named_wf [OF assms(1)]]
  by (simp add: mgr_named_def named_def keeps_def)

lemma getLogger_name:
  assumes "mgr_named R s" and "fst (getLogger name s) \<notin> R"
  shows "l_name (s_loggers (snd (getLogger name s)) ! fst (getLogger name s)) = name"
  using assms
  by (cases "smap_find (s_map s) name")
    (auto simp: mgr_named_def named_def getLogger_def split_beta upd_logger_nth fresh_logger_def)

lemma getLogger_named: "mgr_named R s \<Longrightarrow> mgr_named R (snd (getLogger name s))"
  using named_bind [OF _ keeps_getLogger [OF keeps_refl] getLogger_name] getLogger_spec [of s name]
    getLogger_mgr_wf [of s name]
  by (auto simp: mgr_named_def mgr_wf_def)

lemma updateLogger_map:
  assumes "mgr_named R s" and "\<And>l. smap_find (s_map s) name = Some l \<Longrightarrow> l \<notin> R"
  shows "s_map (snd (updateLogger name lv pattern apps path s)) = s_map s"
proof (cases "smap_find (s_map s) name")
  case None
  then show ?thesis by (simp add: updateLogger_def)
next
  case (Some l)
  then have "l_name (s_loggers s ! l) = name" using assms by (simp add: mgr_named_def named_def)
  then show ?thesis
    using updateLogger_Some [OF mgr_named_wf [OF assms(1)] Some, of lv pattern apps path] Some
    by (simp add: wf_at_def getLogger_def)
qed

text \<open>
  The code looks the logger up again under the name it has now; for one that was renamed this
  makes a logger of the new name and updates that one.
\<close>

lemma updateLogger_named:
  assumes "mgr_named R s"
  shows "mgr_named R (snd (updateLogger name lv pattern apps path s))"
proof (cases "smap_find (s_map s) name")
  case None
  with assms show ?thesis by (simp add: updateLogger_def)
next
  case (Some l0)
  let ?g = "getLogger (l_name (s_loggers s ! l0)) s"
  let ?t = "snd (updateLogger name lv pattern apps path s)"
  have g: "mgr_named R (snd ?g)" by (rule getLogger_named [OF assms])
  have "keeps (snd ?g) ?t"
    using Some by (simp add: updateLogger_def split_beta keeps_update_parts)
  moreover have "s_map ?t = s_map (snd ?g)"
    using updateLogger_Some [OF mgr_named_wf [OF assms] Some] by (simp add: wf_at_def)
  ultimately have "named R ?t" by (intro named_keeps [OF g keeps_but_keeps]) simp_all
  with updateLogger_mgr_wf [of s] assms show ?thesis by (simp add: mgr_named_def)
qed

lemma updateLogger_find:
  assumes "sys_wf s" and "smap_find (s_map s) name = Some l"
  shows "smap_find (s_map (snd (updateLogger name lv pattern apps path s))) name = Some l"
  using updateLogger_Some [OF assms, of lv pattern apps path]
    getLogger_spec [OF assms(1), of "l_name (s_loggers s ! l)"] assms(2)
  by (cases "smap_find (s_map s) (l_name (s_loggers s ! l))")
    (auto simp: wf_at_def getLogger_def split_beta)

lemma log_frame_named: "mgr_named R s \<Longrightarrow> log_frame s t \<Longrightarrow> mgr_named R t"
  using named_keeps [OF _ keeps_but_keeps [OF keeps_log_frame [OF keeps_refl]]]
    log_frame_mgr_wf log_frame_loggers(3)
  by (auto simp: mgr_named_def)

lemma mgr_log_named: "mgr_log d E lv line msg s = Inr t \<Longrightarrow> mgr_named R s \<Longrightarrow> mgr_named R t"
  unfolding mgr_log_def by (rule log_frame_named [OF _ ZNS_LOG_frame])

lemma keeps_nameD: "keeps s t \<Longrightarrow> l < length (s_loggers s) \<Longrightarrow> l_name (s_loggers t ! l) = l_name (s_loggers s ! l)"
  by (simp add: keeps_def)

lemma configureLogger_named:
  assumes "mgr_named R s"
  shows "mgr_named R (configureLogger ld s)"
proof -
  note spec = configureLogger_spec [OF mgr_named_wf [OF assms], of ld]
  have keep: "keeps s (configureLogger ld s)" by (intro keeps_rules keeps_refl)
  have name: "l_name (s_loggers (configureLogger ld s) ! target ld s) = ld_name ld"
    if "target ld s \<notin> R"
  proof (cases "smap_find (s_map s) (ld_name ld)")
    case (Some l)
    then have "l < length (s_loggers s)" by (rule sys_wf_lookup [OF mgr_named_wf [OF assms]])
    then show ?thesis
      using Some assms keeps_nameD [OF keep] that by (simp add: target_def mgr_named_def named_def)
  next
    case None
    let ?n = "snd (new_logger (ld_name ld) (ld_level ld) (ld_formatter ld) s)"
    have "keeps ?n (configureLogger ld s)"
      using None by (simp add: configureLogger_def split_beta keeps_updateAppender keeps_map)
    from keeps_nameD [OF this, of "length (s_loggers s)"] None show ?thesis
      by (simp add: target_def fresh_logger_def)
  qed
  have "named R (configureLogger ld s)"
    by (rule named_bind [OF assms keep name]) (use spec in blast)+
  then show ?thesis using configureLogger_mgr_wf [of s ld] assms by (simp add: mgr_named_def)
qed

lemma removeLogger_named:
  assumes "removeLogger d E name s = Inr t" and "mgr_named R s"
  shows "mgr_named R t"
proof -
  have wf: "mgr_wf t" using removeLogger_mgr_wf [OF assms(1)] assms(2) by (simp add: mgr_named_def)
  have "smap_ok (s_map s)" using mgr_named_wf [OF assms(2)] by (simp add: sys_wf_def)
  then have "smap_find (s_map t) k = Some l \<Longrightarrow> smap_find (s_map s) k = Some l" for k l
    using assms(1) unfolding removeLogger_def mgr_log_def
    by (auto simp: rbind_Inr_iff smap_find_erase log_frame_loggers(3) split: option.splits if_splits
        dest!: ZNS_LOG_frame)
  with wf named_keeps [OF assms(2) keeps_but_keeps [OF keeps_removeLogger [OF assms(1) keeps_refl]]]
  show ?thesis
    by (simp add: mgr_named_def)
qed

lemma createLogger_named:
  assumes "createLogger d E name lv pattern apps path s = Inr (l, t)" and "mgr_named R s"
  shows "mgr_named R t \<and> smap_find (s_map t) name = Some l"
proof (cases "smap_find (s_map s) name")
  case (Some l')
  then obtain s1 where s1: "mgr_log d E INFO 543
        (''LoggerManager::createLogger: logger '' @ name @ '' already exists'') s = Inr s1"
    using assms(1) by (auto simp: createLogger_def rbind_Inr_iff)
  have n1: "mgr_named R s1" by (rule mgr_log_named [OF s1 assms(2)])
  let ?s2 = "snd (updateLogger name lv pattern apps path s1)"
  have n2: "mgr_named R ?s2" by (rule updateLogger_named [OF n1])
  have "s_map s1 = s_map s" using s1 log_frame_loggers(3) [OF ZNS_LOG_frame] by (simp add: mgr_log_def)
  then have "smap_find (s_map ?s2) name = Some l'"
    using Some updateLogger_find [OF mgr_named_wf [OF n1]] by simp
  moreover have "l = l' \<and> (t = ?s2 \<or> (\<exists>msg. mgr_log d E INFO 545 msg ?s2 = Inr t))"
    using assms(1) Some s1
    by (auto simp: createLogger_def split_beta rbind_Inr_iff split: if_splits)
  ultimately show ?thesis
    using n2 mgr_log_named [OF _ n2] log_frame_loggers(3) [OF ZNS_LOG_frame] unfolding mgr_log_def
    by metis
next
  case None
  let ?n = "snd (new_logger name lv pattern s)"
  let ?w = "snd (new_logger_with name lv pattern apps path s)"
  let ?u = "fold (\<lambda>a t. reformat_appender pattern a (upd_appender a (\<lambda>ap. ap\<lparr>a_level := lv\<rparr>) t))
              (l_appenders (s_loggers ?w ! length (s_loggers s))) ?w"
  have sys: "sys_wf s" by (rule mgr_named_wf [OF assms(2)])
  note w = new_logger_with_wf [OF sys, of name lv pattern apps path]
  have t: "t = ?u\<lparr>s_map := smap_set name l (s_map ?u)\<rparr>" "l = length (s_loggers s)"
    using assms(1) None w by (auto simp: createLogger_def split_beta Let_def)
  have nw: "keeps ?n ?w"
    unfolding new_logger_with_def split_beta snd_conv by (rule keeps_fold) (auto intro!: keeps_rules(7-))
  have "keeps ?n t" unfolding t(1)
    by (intro keeps_map keeps_fold nw) (intro keeps_setters keeps_upd_appender)
  then have name: "l_name (s_loggers t ! l) = name"
    using keeps_nameD [of ?n t "length (s_loggers s)"] t(2) by (simp add: fresh_logger_def)
  have "s_map ?u = s_map s"
  proof -
    have "wf_at (length (s_loggers s)) (s_map s) ?u"
      by (rule fold_keeps [where P = "wf_at (length (s_loggers s)) (s_map s)", OF conjunct1 [OF w]])
        (rule wf_at_reformat, simp_all)
    then show ?thesis by (simp add: wf_at_def)
  qed
  then have find: "smap_find (s_map t) = (\<lambda>k. if k = name then Some l else smap_find (s_map s) k)"
    by (simp add: t(1) smap_find_set fun_eq_iff)
  have "named R t"
    by (rule named_bind [OF assms(2) keeps_createLogger [OF assms(1) keeps_refl] name find])
  with createLogger_mgr_wf [OF assms(1)] assms(2) find show ?thesis by (simp add: mgr_named_def)
qed

lemma listener_named:
  assumes "LogInit_listener d E nv ov s = Inr t" and "mgr_named R s"
  shows "mgr_named R t"
proof -
  obtain u where u: "fold_res (drop_unnamed d E nv) (s_map s) s = Inr u" "t = fold configureLogger nv u"
    using assms(1) by (auto simp: LogInit_listener_def rbind_Inr_iff)
  have "mgr_named R u"
    by (rule fold_res_inv [where P = "mgr_named R", OF u(1) assms(2)])
      (auto simp: drop_unnamed_def rbind_Inr_iff split: if_splits intro: mgr_log_named removeLogger_named)
  then have "mgr_named R (fold configureLogger nv u)"
    by (rule fold_keeps [where P = "mgr_named R"]) (rule configureLogger_named)
  with u(2) show ?thesis by simp
qed

section \<open>The manager's state machine keeps handles and names\<close>

lemma mgr_step_same_map:
  assumes "mgr_named R s" and "mgr_step R d E s t" and "s_map t = s_map s"
  shows "mgr_named R t"
  using named_keeps [OF assms(1) mgr_step_keeps [OF assms(2)]] mgr_step_wf [OF _ assms(2)] assms
  by (simp add: mgr_named_def)

lemma mgr_step_named:
  assumes "mgr_named R s" and step: "mgr_step R d E s t"
  shows "mgr_named R t"
  using step
proof (cases rule: mgr_step.cases)
  case (get name)
  then show ?thesis using getLogger_named [OF assms(1)] by simp
next
  case (create name lv pattern apps path l)
  then show ?thesis using createLogger_named assms(1) by blast
next
  case (update name lv pattern apps path)
  then show ?thesis using updateLogger_named [OF assms(1)] by simp
next
  case (configure ld)
  then show ?thesis using configureLogger_named [OF assms(1)] by simp
next
  case (remove name)
  then show ?thesis using removeLogger_named assms(1) by blast
next
  case (listener nv ov)
  then show ?thesis using listener_named assms(1) by blast
next
  case (log l lv fname ln msg)
  show ?thesis by (rule log_frame_named [OF assms(1) ZNS_LOG_frame [OF log]])
next
  case (ap_reopen a)
  show ?thesis unfolding ap_reopen by (rule log_frame_named [OF assms(1) log_frame_reopen])
next
  case (make_with name lv pattern apps path)
  have "s_map t = s_map s"
    using new_logger_with_wf [OF mgr_named_wf [OF assms(1)]] by (simp add: make_with wf_at_def)
  then show ?thesis by (rule mgr_step_same_map [OF assms(1) step])
qed (rule mgr_step_same_map [OF assms(1) step], simp)+

lemma mgr_named_boot: "mgr_named R boot"
  by (simp add: mgr_named_def mgr_wf_boot) (simp add: named_def boot_eq fresh_logger_def)

interpretation mgr_track: tracked_system "\<lambda>s. s = boot" "mgr_step R d E" "mgr_named R" "keeps_but R"
  for R d E
  by unfold_locales
    (auto simp: mgr_named_boot keeps_but_refl
      intro: keeps_but_trans mgr_step_keeps mgr_step_named)

end
