(* ===== verification/FileProps.thy ===== *)
theory FileProps
  imports LogProps
begin

text \<open>
  File appenders: what ends up in the file. The contents of a file are read off the trace; a
  stream opened without \<^verbatim>\<open>std::ios::app\<close> truncates the file. The reading is right while one stream at a
  time writes to the file: every stream has its own position, so that two streams on one file
  overwrite each other, which is not modelled. A stream that is closed because its appender is
  destroyed leaves no effect in the trace; closing writes nothing, since every line is flushed.
\<close>

section \<open>The contents of a file\<close>

fun file_effect :: "string \<Rightarrow> effect \<Rightarrow> string \<Rightarrow> string" where
  "file_effect p (FOpen q) c = (if q = p then [] else c)"
| "file_effect p (FWrite q t) c = (if q = p then c @ t else c)"
| "file_effect p (Cout t) c = c"
| "file_effect p (FClose q) c = c"
| "file_effect p (FFlush q) c = c"

definition file_content :: "string \<Rightarrow> effect list \<Rightarrow> string" where
  "file_content p es = fold (file_effect p) es []"

lemma file_content_append: "file_content p (es @ fs) = fold (file_effect p) fs (file_content p es)"
  by (simp add: file_content_def)

section \<open>A logger with one file appender\<close>

text \<open>
  Logger \<open>l\<close> has the one appender \<open>a\<close>, which writes to \<open>path\<close> with formatter \<open>f\<close>; its stream is
  \<open>st\<close>. The disk lets the file be opened and written at all times.
\<close>

definition file_logger :: "sys \<Rightarrow> nat \<Rightarrow> nat \<Rightarrow> string \<Rightarrow> formatter \<Rightarrow> fstream \<Rightarrow> bool" where
  "file_logger s l a path f st \<longleftrightarrow> l_appenders (s_loggers s ! l) = [a] \<and> a < length (s_appenders s) \<and>
     a_kind (s_appenders s ! a) = FileKind path st \<and> a_formatter (s_appenders s ! a) = Some f"

definition disk_ok :: "env \<Rightarrow> string \<Rightarrow> bool" where
  "disk_ok E path \<longleftrightarrow> (\<forall>h. e_can_open E h path \<and> e_can_write E h path)"

definition takes :: "sys \<Rightarrow> nat \<Rightarrow> nat \<Rightarrow> level \<Rightarrow> bool" where
  "takes s l a lv \<longleftrightarrow> l_level (s_loggers s ! l) \<le> lv \<and> a_level (s_appenders s ! a) \<le> lv"

definition opened :: "string \<Rightarrow> fstream" where
  "opened path = \<lparr>st_open = Some path, st_fail = False\<rparr>"

lemma reopen_closed:
  assumes "st_open st = None" and "e_can_open E h path"
  shows "reopen_stream E h path st = (opened path, [FOpen path], True)"
  using assms by (simp add: reopen_stream_def stream_close_def stream_open_def opened_def)

lemma write_opened:
  "e_can_write E h q \<Longrightarrow> stream_write E h t (opened q) = (opened q, [FWrite q t, FFlush q])"
  by (simp add: stream_write_def opened_def)

text \<open>One call: the file is opened if it is not open yet, and the line is written and flushed.\<close>

lemma file_log_step:
  assumes fl: "file_logger s l a path f st" and disk: "disk_ok E path" "disk_ok E q"
    and st: "st_open st = None \<and> q = path \<or> st = opened q"
  shows "Logger_log (Suc d) E l lv ev s = Inr
     (if takes s l a lv
      then emit ((if st_open st = None then [FOpen path] else []) @
             [FWrite q (formatter_format E f (l_name (s_loggers s ! l)) lv ev), FFlush q])
           (upd_appender a (\<lambda>ap. ap\<lparr>a_kind := FileKind path (opened q)\<rparr>) s)
      else s)"
proof -
  have s: "l_appenders (s_loggers s ! l) = [a]" "a < length (s_appenders s)"
    "a_kind (s_appenders s ! a) = FileKind path st" "a_formatter (s_appenders s ! a) = Some f"
    using fl by (auto simp: file_logger_def)
  have E: "e_can_open E h path" "e_can_write E h q" for h using disk by (auto simp: disk_ok_def)
  have "Appender_log (report_root d E) E lv ev l a s = Inr
     (if a_level (s_appenders s ! a) \<le> lv
      then emit ((if st_open st = None then [FOpen path] else []) @
             [FWrite q (formatter_format E f (l_name (s_loggers s ! l)) lv ev), FFlush q])
           (upd_appender a (\<lambda>ap. ap\<lparr>a_kind := FileKind path (opened q)\<rparr>) s)
      else s)"
  proof (cases "st_open st = None")
    case True
    then have "q = path" using st by (auto simp: opened_def)
    with True s E show ?thesis
      by (simp add: Appender_log_def File_log_def Let_def is_open_def reopen_def reopen_closed
          upd_appender_nth file_write_def write_opened)
        (simp add: opened_def upd_appender_def emit_def)
  next
    case False
    with st have "st = opened q" by (elim disjE conjE) simp_all
    with s E show ?thesis
      by (simp add: Appender_log_def File_log_def Let_def is_open_def file_write_def write_opened)
        (simp add: opened_def)
  qed
  then show ?thesis using s(1) by (auto simp: Logger_log_Suc takes_def)
qed

lemma file_logger_opened:
  assumes "file_logger s l a path f st"
  shows "file_logger (emit es (upd_appender a (\<lambda>ap. ap\<lparr>a_kind := FileKind path st'\<rparr>) s)) l a path f st'"
    and "takes (emit es (upd_appender a (\<lambda>ap. ap\<lparr>a_kind := FileKind path st'\<rparr>) s)) l a lv = takes s l a lv"
  using assms by (simp_all add: file_logger_def takes_def upd_appender_nth)

definition log_all :: "nat \<Rightarrow> env \<Rightarrow> nat \<Rightarrow> (level \<times> event) list \<Rightarrow> sys \<Rightarrow> sys res" where
  "log_all d E l = fold_res (\<lambda>(lv, ev). Logger_log d E l lv ev)"

lemma log_all_opened:
  assumes "file_logger s l a path f (opened q)" and "disk_ok E path" and "disk_ok E q"
  shows "\<exists>t. log_all (Suc d) E l evs s = Inr t \<and>
     file_content q (s_out t) = file_content q (s_out s) @
       concat (map (\<lambda>(lv, ev). formatter_format E f (l_name (s_loggers s ! l)) lv ev)
         (filter (\<lambda>e. takes s l a (fst e)) evs)) \<and>
     (\<forall>p. p \<noteq> q \<longrightarrow> file_content p (s_out t) = file_content p (s_out s))"
  using assms(1)
proof (induction evs arbitrary: s)
  case Nil
  then show ?case by (simp add: log_all_def)
next
  case (Cons e evs)
  obtain lv ev where e: "e = (lv, ev)" by (cases e)
  let ?u = "if takes s l a lv then
      emit [FWrite q (formatter_format E f (l_name (s_loggers s ! l)) lv ev), FFlush q]
           (upd_appender a (\<lambda>ap. ap\<lparr>a_kind := FileKind path (opened q)\<rparr>) s) else s"
  have st: "Logger_log (Suc d) E l lv ev s = Inr ?u"
    using file_log_step [OF Cons.prems assms(2,3), of d lv ev] by (simp add: opened_def)
  have u: "file_logger ?u l a path f (opened q)" "\<And>lv'. takes ?u l a lv' = takes s l a lv'"
    "s_loggers ?u = s_loggers s"
    using file_logger_opened [OF Cons.prems] Cons.prems by auto
  from Cons.IH [OF u(1)] show ?case
    unfolding u(2) u(3) using st e
    by (auto simp: log_all_def file_content_append)
qed

text \<open>
  C10 (FileLogAppender::log, reopen). The file of a logger with one file appender: the first
  event that passes both levels opens and truncates the file, every such event adds its line
  in order, and nothing else is written to it (no other stream being open on that file).
\<close>

theorem file_log_sequence:
  assumes "file_logger s l a path f st" and "disk_ok E path"
    and "st_open st = None \<or> st = opened path"
  shows "\<exists>t. log_all (Suc d) E l evs s = Inr t \<and>
     file_content path (s_out t) =
       (if st_open st = None \<and> (\<exists>e \<in> set evs. takes s l a (fst e)) then []
        else file_content path (s_out s)) @
       concat (map (\<lambda>(lv, ev). formatter_format E f (l_name (s_loggers s ! l)) lv ev)
         (filter (\<lambda>e. takes s l a (fst e)) evs))"
proof (cases "st_open st = None")
  case False
  with assms have "st = opened path" by blast
  with log_all_opened [of s l a path f path E d evs] assms False show ?thesis by auto
next
  case closed: True
  show ?thesis
  proof (induction evs)
    case Nil
    show ?case by (simp add: log_all_def)
  next
    case (Cons e evs)
    obtain lv ev where e: "e = (lv, ev)" by (cases e)
    note step = file_log_step [OF assms(1,2,2), of d lv ev]
    show ?case
    proof (cases "takes s l a lv")
      case False
      then show ?thesis using Cons step closed e by (auto simp: log_all_def)
    next
      case True
      let ?u = "emit [FOpen path, FWrite path (formatter_format E f (l_name (s_loggers s ! l)) lv ev), FFlush path]
           (upd_appender a (\<lambda>ap. ap\<lparr>a_kind := FileKind path (opened path)\<rparr>) s)"
      have st: "Logger_log (Suc d) E l lv ev s = Inr ?u"
        using step closed True by simp
      have u: "file_logger ?u l a path f (opened path)" "\<And>lv'. takes ?u l a lv' = takes s l a lv'"
        "s_loggers ?u = s_loggers s"
        using file_logger_opened [OF assms(1)] by auto
      from log_all_opened [OF u(1) assms(2,2), of d evs] show ?thesis
        unfolding u(2) u(3) using st e closed True
        by (auto simp: log_all_def file_content_append)
    qed
  qed
qed

definition zn_file_state :: sys where
  "zn_file_state = attach_new 1 (FileLogAppender ''zn.log'') (snd (new_logger ''zn'' INFO ''%p %m%n'' boot))"

lemma zn_file_logger:
  "file_logger zn_file_state 1 1 ''zn.log'' (fst (LogFormatter ''%p %m%n'')) closed_stream"
  "s_out zn_file_state = map Cout (snd (LogFormatter default_pattern)) @ map Cout (snd (LogFormatter ''%p %m%n''))"
  "l_level (s_loggers zn_file_state ! Suc 0) = INFO" "a_level (s_appenders zn_file_state ! Suc 0) = DEBUG"
  by (simp_all add: zn_file_state_def attach_new_eq new_logger_eq boot_eq file_logger_def fresh_logger_def
      with_formatter_def FileLogAppender_def LogAppender_def emit_def)

lemma pmn_items: "f_items (fst (LogFormatter ''%p %m%n'')) =
    [LevelFormatItem, StringFormatItem '' '', MessageFormatItem, NewLineFormatItem]"
  by code_simp

lemma pmn_line: "formatter_format E (fst (LogFormatter ''%p %m%n'')) name lv ev =
    ToString lv @ '' '' @ getContent ev @ ''\<newline>''"
  unfolding formatter_format_def pmn_items by simp

lemma zn_takes: "takes zn_file_state (Suc 0) (Suc 0) lv \<longleftrightarrow> INFO \<le> lv"
  by (cases lv) (simp_all add: takes_def zn_file_logger level_order)

theorem file_log_sequence_witness:
  "\<exists>t. log_all 1 (sample_env (\<lambda>_. True)) 1
      [(WARN, stream_out ''one'' (LogEvent ''a.cpp'' 1 0 7 0 0 [] WARN)),
       (DEBUG, stream_out ''two'' (LogEvent ''a.cpp'' 2 0 7 0 0 [] DEBUG)),
       (FATAL, stream_out ''three'' (LogEvent ''a.cpp'' 3 0 7 0 0 [] FATAL))] zn_file_state = Inr t \<and>
     file_content ''zn.log'' (s_out t) = ''WARN one'' @ ''\<newline>'' @ ''FATAL three'' @ ''\<newline>''"
proof -
  let ?evs = "[(WARN, stream_out ''one'' (LogEvent ''a.cpp'' 1 0 7 0 0 [] WARN)),
       (DEBUG, stream_out ''two'' (LogEvent ''a.cpp'' 2 0 7 0 0 [] DEBUG)),
       (FATAL, stream_out ''three'' (LogEvent ''a.cpp'' 3 0 7 0 0 [] FATAL))]"
  have disk: "disk_ok (sample_env (\<lambda>_. True)) ''zn.log''" by (simp add: disk_ok_def sample_env_def)
  have closed: "st_open closed_stream = None \<or> closed_stream = opened ''zn.log''"
    by (simp add: closed_stream_def)
  from file_log_sequence [OF zn_file_logger(1) disk closed, of 0 ?evs] show ?thesis
    by (simp add: zn_takes level_order closed_stream_def pmn_line ToString_def getContent_LogEvent)
qed

text \<open>
  \<^verbatim>\<open>FileLogAppender::setFilepath\<close>: giving an appender whose stream is open another path
  changes only the name it reports: every later line still goes to the old file, and the new
  one is not touched.
\<close>

theorem setFilepath_keeps_open_file:
  assumes "file_logger s l a path f (opened path)" and "disk_ok E path" and "disk_ok E new"
    and "new \<noteq> path"
  shows "getFilepath (s_appenders (upd_appender a (setFilepath new) s) ! a) = Some new \<and>
    (\<exists>t. log_all (Suc d) E l evs (upd_appender a (setFilepath new) s) = Inr t \<and>
     file_content path (s_out t) = file_content path (s_out s) @
       concat (map (\<lambda>(lv, ev). formatter_format E f (l_name (s_loggers s ! l)) lv ev)
         (filter (\<lambda>e. takes s l a (fst e)) evs)) \<and>
     file_content new (s_out t) = file_content new (s_out s))"
proof -
  let ?s = "upd_appender a (setFilepath new) s"
  have fl: "file_logger ?s l a new f (opened path)"
    using assms(1) by (simp add: file_logger_def upd_appender_nth setFilepath_def)
  have "takes ?s l a lv = takes s l a lv" for lv
    using assms(1) by (simp add: file_logger_def takes_def upd_appender_nth setFilepath_def split: akind.splits)
  with log_all_opened [OF fl assms(3,2), of d evs] assms(4) fl show ?thesis
    by (auto simp: file_logger_def getFilepath_def)
qed

definition file_define :: "LogDefine \<Rightarrow> LogAppenderDefine \<Rightarrow> bool" where
  "file_define ld def \<longleftrightarrow> ld_appender ld = [def] \<and> lad_type def = ''file''"

definition define_takes :: "LogDefine \<Rightarrow> LogAppenderDefine \<Rightarrow> level \<Rightarrow> bool" where
  "define_takes ld def lv \<longleftrightarrow>
     ld_level ld \<le> lv \<and> (if hasCustomLevel def then lad_level def else ld_level ld) \<le> lv"

lemma configure_file_logger:
  assumes "sys_wf s" and "file_define ld def" and "smap_find (s_map s) (ld_name ld) = Some l"
  shows "\<exists>a. file_logger (configureLogger ld s) l a (lad_path def)
       (fst (LogFormatter (if hasCustomFormatter def then lad_formatter def else ld_formatter ld))) closed_stream \<and>
     (\<forall>lv. takes (configureLogger ld s) l a lv = define_takes ld def lv) \<and>
     l_name (s_loggers (configureLogger ld s) ! l) = l_name (s_loggers s ! l) \<and>
     (\<forall>p. file_content p (s_out (configureLogger ld s)) = file_content p (s_out s))"
proof -
  have l: "l < length (s_loggers s)" by (rule sys_wf_lookup [OF assms(1,3)])
  have couts: "fold (file_effect p) (map Cout ts) c = c" for p ts c
    by (induction ts arbitrary: c) simp_all
  have "s_out (setFormatter l p t) = s_out t @ map Cout (snd (LogFormatter p))" for p t
    by (simp add: setFormatter_def new_formatter_eq)
  moreover have "s_out (setLevel l lv t) = s_out t" for lv t by (simp add: setLevel_def)
  ultimately show ?thesis using assms l
    by (intro exI [where x = "length (s_appenders s)"])
      (simp add: configureLogger_def updateAppender_def file_define_def define_appender_def
        clearAppenders_def Let_def new_formatter_eq attach_new_eq upd_logger_nth file_logger_def
        with_formatter_def FileLogAppender_def LogAppender_def takes_def define_takes_def
        file_content_append couts)
qed

definition zn_open_state :: sys where
  "zn_open_state = emit [FOpen ''zn.log'']
     (upd_appender 1 (\<lambda>ap. ap\<lparr>a_kind := FileKind ''zn.log'' (opened ''zn.log'')\<rparr>) zn_file_state)"

theorem setFilepath_keeps_open_file_witness:
  "\<exists>t. log_all 1 (sample_env (\<lambda>_. True)) 1
      [(WARN, stream_out ''one'' (LogEvent ''a.cpp'' 1 0 7 0 0 [] WARN))]
      (upd_appender 1 (setFilepath ''new.log'') zn_open_state) = Inr t \<and>
     file_content ''zn.log'' (s_out t) = ''WARN one'' @ ''\<newline>'' \<and> file_content ''new.log'' (s_out t) = []"
proof -
  let ?evs = "[(WARN, stream_out ''one'' (LogEvent ''a.cpp'' 1 0 7 0 0 [] WARN))]"
  have fl: "file_logger zn_open_state 1 1 ''zn.log'' (fst (LogFormatter ''%p %m%n'')) (opened ''zn.log'')"
    unfolding zn_open_state_def by (rule file_logger_opened [OF zn_file_logger(1)])
  have takes: "takes zn_open_state (Suc 0) (Suc 0) WARN"
    using file_logger_opened(2) [OF zn_file_logger(1), of "[FOpen ''zn.log'']" "opened ''zn.log''" WARN]
    by (simp add: zn_open_state_def zn_takes level_order)
  have disk: "disk_ok (sample_env (\<lambda>_. True)) p" for p by (simp add: disk_ok_def sample_env_def)
  have couts: "fold (file_effect p) (map Cout ts) c = c" for p ts c
    by (induction ts arbitrary: c) simp_all
  have empty: "file_content p (s_out zn_open_state) = []" for p
    by (simp add: zn_open_state_def zn_file_logger(2) file_content_def couts del: map_append)
  from setFilepath_keeps_open_file [OF fl disk disk, of "''new.log''" 0 ?evs] show ?thesis
    by (auto simp: takes empty pmn_line ToString_def getContent_LogEvent)
qed

text \<open>
  C11 (LoggerManager::configureLogger). Configuring a logger again with the same file makes a
  new appender; its first line truncates the file, so everything logged before is lost. (The
  appender it replaces is destroyed, so that no second stream is open on the file, unless another
  logger has one or a caller of \<^verbatim>\<open>getAppenders\<close> keeps the old appender.)
\<close>

theorem reconfigured_file_is_truncated:
  assumes "sys_wf s" and "file_define ld def" and "smap_find (s_map s) (ld_name ld) = Some l"
    and "disk_ok E (lad_path def)"
  shows "\<exists>t. log_all (Suc d) E l evs (configureLogger ld s) = Inr t \<and>
     file_content (lad_path def) (s_out t) =
       (if \<exists>e \<in> set evs. define_takes ld def (fst e) then [] else file_content (lad_path def) (s_out s)) @
       concat (map (\<lambda>(lv, ev). formatter_format E
           (fst (LogFormatter (if hasCustomFormatter def then lad_formatter def else ld_formatter ld)))
           (l_name (s_loggers s ! l)) lv ev)
         (filter (\<lambda>e. define_takes ld def (fst e)) evs))"
proof -
  obtain a where a: "file_logger (configureLogger ld s) l a (lad_path def)
       (fst (LogFormatter (if hasCustomFormatter def then lad_formatter def else ld_formatter ld))) closed_stream"
    "\<And>lv. takes (configureLogger ld s) l a lv = define_takes ld def lv"
    "l_name (s_loggers (configureLogger ld s) ! l) = l_name (s_loggers s ! l)"
    "\<And>p. file_content p (s_out (configureLogger ld s)) = file_content p (s_out s)"
    using configure_file_logger [OF assms(1-3)] by blast
  have closed: "st_open closed_stream = None" by (simp add: closed_stream_def)
  from file_log_sequence [OF a(1) assms(4) disjI1 [OF closed], of d evs] show ?thesis
    unfolding a(2-4) by (simp add: closed)
qed

definition zn_define :: LogDefine where
  "zn_define = \<lparr>ld_name = ''zn'', ld_level = INFO, ld_formatter = ''%p %m%n'',
     ld_appender = [(new_LogAppenderDefine ''file'')\<lparr>lad_path := ''zn.log''\<rparr>]\<rparr>"

theorem reconfigured_file_is_truncated_witness:
  "\<exists>t. log_all 1 (sample_env (\<lambda>_. True)) 1
      [(WARN, stream_out ''new'' (LogEvent ''a.cpp'' 1 0 7 0 0 [] WARN))]
      (configureLogger zn_define
        (emit [FOpen ''zn.log'', FWrite ''zn.log'' ''old lines''] (snd (getLogger ''zn'' boot)))) = Inr t \<and>
     file_content ''zn.log'' (s_out t) = ''WARN new'' @ ''\<newline>''"
proof -
  let ?s = "emit [FOpen ''zn.log'', FWrite ''zn.log'' ''old lines''] (snd (getLogger ''zn'' boot))"
  let ?evs = "[(WARN, stream_out ''new'' (LogEvent ''a.cpp'' 1 0 7 0 0 [] WARN))]"
  let ?def = "(new_LogAppenderDefine ''file'')\<lparr>lad_path := ''zn.log''\<rparr>"
  have wf: "sys_wf ?s" using getLogger_wf [OF sys_wf_boot] by simp
  have def: "file_define zn_define ?def" by (simp add: file_define_def zn_define_def new_LogAppenderDefine_def)
  have find: "smap_find (s_map ?s) (ld_name zn_define) = Some 1"
    by (simp add: zn_define_def getLogger_def boot_eq new_logger_eq)
  have disk: "disk_ok (sample_env (\<lambda>_. True)) (lad_path ?def)" by (simp add: disk_ok_def sample_env_def)
  have takes: "define_takes zn_define ?def WARN"
    by (simp add: define_takes_def zn_define_def new_LogAppenderDefine_def hasCustomLevel_def level_order)
  have fmt: "(if hasCustomFormatter ?def then lad_formatter ?def else ld_formatter zn_define) = ''%p %m%n''"
    by (simp add: hasCustomFormatter_def zn_define_def new_LogAppenderDefine_def)
  from reconfigured_file_is_truncated [OF wf def find disk, of 0 ?evs] show ?thesis
    unfolding fmt by (simp add: takes pmn_line ToString_def getContent_LogEvent)
qed

end
