(* ===== verification/ManagerProps.thy ===== *)
theory ManagerProps
  imports ManagerNames FileProps
begin

text \<open>
  The promises of the logger manager: stable handles, configuration by definitions and its
  description, creation and update of loggers.
\<close>

section \<open>Handles and names\<close>

lemma setName_lookup:
  assumes "smap_find (s_map t) name = Some l" and "l < length (s_loggers t)"
  shows "getLogger name (setName l other t) = (l, setName l other t)"
    and "l_name (s_loggers (setName l other t) ! l) = other"
  using assms by (simp_all add: getLogger_def, simp add: setName_def upd_logger_nth)

text \<open>
  An update of a logger that was renamed does not reach it: the code looks the new name up and
  makes and updates another logger.
\<close>

lemma update_follows_new_name:
  assumes "sys_wf t" and "smap_find (s_map t) name = Some l" and "smap_find (s_map t) other = None"
  shows "smap_find (s_map (snd (updateLogger name lv pattern apps path (setName l other t)))) other =
    Some (length (s_loggers t))"
proof -
  let ?u = "setName l other t"
  have wf: "sys_wf ?u" by (rule sys_wf_setName [OF assms(1)])
  have find: "smap_find (s_map ?u) name = Some l" using assms(2) by simp
  have new: "l_name (s_loggers ?u ! l) = other"
    by (rule setName_lookup(2) [OF assms(2) sys_wf_lookup [OF assms(1,2)]])
  have "fst (getLogger other ?u) = length (s_loggers t)"
    using assms(3) by (simp add: getLogger_def split_beta)
  then show ?thesis
    using updateLogger_Some [OF wf find, of lv pattern apps path] getLogger_spec [OF wf, of other]
    by (simp add: new wf_at_def)
qed

text \<open>
  C12 (LoggerManager::getLogger, Logger::setName). In every reachable state a lookup yields a
  logger, asking again yields the same logger and changes nothing, and different names yield
  different loggers. Whatever is called afterwards, setters and renaming included, the handle
  stays valid, also when the manager drops the logger, and the root logger stays the root logger.
  Unless the program renames it
  (\<open>R\<close> holds the loggers that are ever renamed), the logger carries the name asked for and keeps
  it. Renaming it right after the lookup does not move it: the manager still has it under the old name.
\<close>

theorem getLogger_stable:
  assumes "(mgr_step R d E)\<^sup>*\<^sup>* boot s" and "getLogger name s = (l, t)"
  shows "getLogger name t = (l, t) \<and>
    (\<forall>other. other \<noteq> name \<longrightarrow> fst (getLogger other t) \<noteq> l) \<and>
    (\<forall>u. (mgr_step R d E)\<^sup>*\<^sup>* t u \<longrightarrow>
       l < length (s_loggers u) \<and> s_root u = s_root boot \<and>
       (l \<notin> R \<longrightarrow> l_name (s_loggers u ! l) = name)) \<and>
    (\<forall>other. getLogger name (setName l other t) = (l, setName l other t) \<and>
       l_name (s_loggers (setName l other t) ! l) = other)"
proof -
  have s: "mgr_named R s" by (rule mgr_track.reachable_inv [OF refl assms(1)])
  have sys: "sys_wf s" by (rule mgr_named_wf [OF s])
  have t: "mgr_named R t" using getLogger_named [OF s, of name] assms(2) by simp
  have name: "l_name (s_loggers t ! l) = name" if "l \<notin> R"
    using getLogger_name [OF s, of name] assms(2) that by simp
  have spec: "smap_find (s_map t) name = Some l" "l < length (s_loggers t)"
    using getLogger_spec [OF sys, of name] assms(2) by (auto simp: wf_at_def)
  have other: "fst (getLogger other t) \<noteq> l" if "other \<noteq> name" for other
  proof (cases "smap_find (s_map t) other")
    case None
    then show ?thesis using spec(2) by (simp add: getLogger_def split_beta)
  next
    case (Some l')
    then show ?thesis using t spec(1) that by (auto simp: getLogger_def mgr_named_def mgr_wf_def map_inj_def)
  qed
  have "l < length (s_loggers u) \<and> s_root u = s_root boot \<and>
      (l \<notin> R \<longrightarrow> l_name (s_loggers u ! l) = name)"
    if later: "(mgr_step R d E)\<^sup>*\<^sup>* t u" for u
  proof -
    have "keeps_but R t u" by (rule mgr_track.rel_steps [OF later t])
    moreover have "keeps_but R boot s" by (rule mgr_track.rel_steps [OF assms(1) mgr_named_boot])
    moreover have "keeps s t" using keeps_getLogger [OF keeps_refl, of s name] assms(2) by simp
    ultimately show ?thesis using spec(2) name by (auto simp: keeps_def keeps_but_def)
  qed
  with other spec(1) setName_lookup [OF spec] show ?thesis by (simp add: getLogger_def)
qed

theorem getLogger_stable_witness:
  "l_name (s_loggers (snd (getLogger ''zn'' boot)) ! fst (getLogger ''zn'' boot)) = ''zn'' \<and>
   l_name (s_loggers (setName (fst (getLogger ''zn'' boot)) ''db'' (snd (getLogger ''zn'' boot)))
     ! fst (getLogger ''zn'' boot)) = ''db''"
  using getLogger_stable [OF rtranclp.rtrancl_refl, of "''zn''" "fst (getLogger ''zn'' boot)"
      "snd (getLogger ''zn'' boot)" "{}" 2 "sample_env (\<lambda>_. True)"]
  by auto

section \<open>Configuration by definitions\<close>

text \<open>
  What a definition amounts to once applied: entries of an unknown type are dropped, an entry
  without a level has the logger's, a console entry has no path.
\<close>

definition norm_appender :: "LogDefine \<Rightarrow> LogAppenderDefine \<Rightarrow> LogAppenderDefine" where
  "norm_appender ld def = def\<lparr>
     lad_path := (if lad_type def = ''file'' then lad_path def else []),
     lad_level := (if hasCustomLevel def then lad_level def else ld_level ld)\<rparr>"

definition norm_define :: "LogDefine \<Rightarrow> LogDefine" where
  "norm_define ld = ld\<lparr>ld_appender :=
     map (norm_appender ld)
       (filter (\<lambda>def. lad_type def = ''file'' \<or> lad_type def = ''stdout'') (ld_appender ld))\<rparr>"

fun describe_aview :: "aview \<Rightarrow> LogAppenderDefine" where
  "describe_aview (ty, path, lv, f, custom) =
     \<lparr>lad_type = ty, lad_path = (if ty = ''file'' then (case path of None \<Rightarrow> [] | Some p \<Rightarrow> p) else []),
      lad_level = lv,
      lad_formatter = (if custom then (case f of None \<Rightarrow> [] | Some f \<Rightarrow> f_pattern f) else [])\<rparr>"

lemma describe_appender_view: "describe_appender ap = describe_aview (appender_view ap)"
  by (simp add: describe_appender_def appender_view_def)

lemma describe_logger_view:
  "describe_logger s (name, l) =
     (case logger_view s l of (lv, f, vs) \<Rightarrow>
        \<lparr>ld_name = name, ld_level = lv, ld_formatter = f_pattern f, ld_appender = map describe_aview vs\<rparr>)"
  by (simp add: describe_logger_def logger_view_def Let_def describe_appender_view)

lemma f_pattern_LogFormatter [simp]: "f_pattern (fst (LogFormatter p)) = p"
  by (simp add: LogFormatter_def formatter_init_def split_beta)

lemma describe_spec_appender:
  "map describe_aview (spec_appender ld def) =
     (if lad_type def = ''file'' \<or> lad_type def = ''stdout'' then [norm_appender ld def] else [])"
  by (cases def) (auto simp: spec_appender_def norm_appender_def hasCustomFormatter_def)

lemma describe_configured:
  assumes "logger_view t l = spec_view ld"
  shows "describe_logger t (ld_name ld, l) = norm_define ld"
proof -
  have "map describe_aview (concat (map (spec_appender ld) defs)) =
      map (norm_appender ld) (filter (\<lambda>def. lad_type def = ''file'' \<or> lad_type def = ''stdout'') defs)" for defs
    by (induction defs) (auto simp: describe_spec_appender)
  then show ?thesis
    using assms by (cases ld) (simp add: describe_logger_view spec_view_def norm_define_def map_concat)
qed

lemma listener_and_describe:
  assumes "mgr_wf s" and "root_safe s" and "sorted_wrt ld_less nv"
  shows "\<exists>t. LogInit_listener (Suc (Suc d)) E nv ov s = Inr t \<and> describe_all t = map norm_define nv \<and>
    (\<forall>ld \<in> set nv. \<exists>l. smap_find (s_map t) (ld_name ld) = Some l \<and> logger_view t l = spec_view ld)"
proof -
  have s: "sys_wf s" "map_inj s" using assms(1) by (auto simp: mgr_wf_def)
  obtain t where t: "LogInit_listener (Suc (Suc d)) E nv ov s = Inr t" "sys_wf t"
    "dom (smap_find (s_map t)) = ld_name ` set nv" "configured nv t"
    using listener_syncs [OF s(1) assms(2) s(2) assms(3)] by blast
  have ok: "smap_ok (s_map t)" using t(2) by (simp add: sys_wf_def)
  have "sorted_wrt (<) (map ld_name nv)"
    using assms(3) by (simp add: sorted_wrt_map ld_less_def [abs_def])
  moreover have "set (map fst (s_map t)) = set (map ld_name nv)"
    using t(3) by (simp add: smap_find_eq_map_of [abs_def] dom_map_of_conv_image_fst)
  ultimately have keys: "map fst (s_map t) = map ld_name nv"
    using ok by (simp add: smap_ok_def strict_sorted_equal)
  have "describe_all t = map norm_define nv"
  proof (rule nth_equalityI)
    show len: "length (describe_all t) = length (map norm_define nv)"
      using arg_cong [OF keys, of length] by (simp add: describe_all_def)
    fix i assume "i < length (describe_all t)"
    then have i: "i < length (s_map t)" "i < length nv" using len by (simp_all add: describe_all_def)
    have key: "fst (s_map t ! i) = ld_name (nv ! i)"
      using i arg_cong [OF keys, of "\<lambda>xs. xs ! i"] by simp
    obtain l where l: "smap_find (s_map t) (ld_name (nv ! i)) = Some l" "logger_view t l = spec_view (nv ! i)"
      using bspec [OF t(4) [unfolded configured_def] nth_mem [OF i(2)]] by blast
    have "(fst (s_map t ! i), snd (s_map t ! i)) \<in> set (s_map t)" using i(1) by simp
    from smap_find_of_in [OF ok this] l(1) key have "s_map t ! i = (ld_name (nv ! i), l)"
      by (simp add: prod_eq_iff)
    with describe_configured [OF l(2)] i show "describe_all t ! i = map norm_define nv ! i"
      by (simp add: describe_all_def)
  qed
  with t show ?thesis by (auto simp: configured_def)
qed

text \<open>
  C13 (LogInit, LoggerManager::configureLogger, toYamlString). When the configuration variable
  takes a new set of definitions, the listener returns, exactly the named loggers are left, and
  the manager describes itself by the very set of definitions, with inherited levels filled in
  and entries of unknown type dropped.
\<close>

theorem listener_then_describe:
  assumes "mgr_wf s" and "root_safe s" and "sorted_wrt ld_less nv"
  shows "\<exists>t. LogInit_listener (Suc (Suc d)) E nv ov s = Inr t \<and> describe_all t = map norm_define nv \<and>
    (\<forall>ld \<in> set nv. \<exists>l. smap_find (s_map t) (ld_name ld) = Some l \<and> logger_view t l = spec_view ld)"
  by (rule listener_and_describe [OF assms])

theorem listener_then_describe_witness:
  "\<exists>t. LogInit_listener 2 (sample_env (\<lambda>_. True)) [zn_define] [] boot = Inr t \<and>
     describe_all t = [zn_define\<lparr>ld_appender :=
       [\<lparr>lad_type = ''file'', lad_path = ''zn.log'', lad_level = INFO, lad_formatter = []\<rparr>]\<rparr>]"
proof -
  have "sorted_wrt ld_less [zn_define]" by simp
  from listener_then_describe [OF mgr_wf_boot boot_root_safe this, of 0 "sample_env (\<lambda>_. True)" "[]"]
  show ?thesis
    by (auto simp: numeral_2_eq_2 norm_define_def zn_define_def norm_appender_def new_LogAppenderDefine_def
        hasCustomLevel_def)
qed

section \<open>The root logger under configuration\<close>

text \<open>A logger the map does not bind is out of reach of \<open>configureLogger\<close>.\<close>

definition unbound :: "nat \<Rightarrow> sys \<Rightarrow> bool" where
  "unbound r s \<longleftrightarrow> sys_wf s \<and> r < length (s_loggers s) \<and> (\<forall>k. smap_find (s_map s) k \<noteq> Some r)"

lemma unbound_configureLogger:
  assumes "unbound r s"
  shows "unbound r (configureLogger ld s) \<and> logger_view (configureLogger ld s) r = logger_view s r"
proof -
  have s: "sys_wf s" "r < length (s_loggers s)" using assms by (auto simp: unbound_def)
  note spec = configureLogger_spec [OF s(1), of ld]
  have "r \<noteq> target ld s"
    using assms by (auto simp: unbound_def target_def split: option.splits)
  with spec s assms logger_view_touches [of "target ld s" s "configureLogger ld s" r] show ?thesis
    by (auto simp: unbound_def touches_def)
qed

lemma unbound_configure_all:
  assumes "unbound r s"
  shows "unbound r (fold configureLogger ds s) \<and> logger_view (fold configureLogger ds s) r = logger_view s r"
  using assms
proof (induction ds arbitrary: s)
  case Nil
  then show ?case by simp
next
  case (Cons ld ds)
  from unbound_configureLogger [OF Cons.prems, of ld] Cons.IH [of "configureLogger ld s"]
  show ?case by simp
qed

lemma smap_erase_absent: "smap_find m k = None \<Longrightarrow> smap_erase k m = m"
  by (induction m) (auto split: if_splits)

lemma removeLogger_frame:
  assumes "removeLogger d E name s = Inr t"
  shows "\<exists>u. log_frame s u \<and> t = u\<lparr>s_map := smap_erase name (s_map u)\<rparr>"
proof (cases "smap_find (s_map s) name")
  case None
  then have f: "log_frame s t"
    using assms by (auto simp: removeLogger_def mgr_log_def dest: ZNS_LOG_frame)
  with None have "t = t\<lparr>s_map := smap_erase name (s_map t)\<rparr>"
    by (simp add: log_frame_loggers(3) smap_erase_absent)
  with f show ?thesis by blast
next
  case (Some l)
  then obtain s1 s2 where "log_frame s s1" "log_frame s1 s2" "t = s2\<lparr>s_map := smap_erase name (s_map s2)\<rparr>"
    using assms unfolding removeLogger_def mgr_log_def
    by (auto simp: rbind_Inr_iff dest: ZNS_LOG_frame)
  then show ?thesis using log_frame_trans by blast
qed

lemma logger_view_frame:
  assumes "log_frame s t" and "sys_wf s" and "l < length (s_loggers s)"
  shows "logger_view t l = logger_view s l"
proof -
  have "appender_view (s_appenders t ! a) = appender_view (s_appenders s ! a)"
    if "a \<in> set (l_appenders (s_loggers s ! l))" for a
  proof -
    have "appender_ready s a" by (rule wf_appender_ready [OF assms(2,3) that])
    with assms(1) skel_appender_fields [of t s a] show ?thesis
      by (simp add: appender_view_def log_frame_def appender_ready_def)
  qed
  then show ?thesis using log_frame_loggers(1) [OF assms(1)] by (simp add: logger_view_def)
qed

text \<open>The removal loop takes names out of the map and does nothing to the loggers.\<close>

definition shrunk :: "nat \<Rightarrow> string set \<Rightarrow> sys \<Rightarrow> sys \<Rightarrow> bool" where
  "shrunk r ks s v \<longleftrightarrow> mgr_wf v \<and> r < length (s_loggers v) \<and> logger_view v r = logger_view s r \<and>
     s_root v = s_root s \<and>
     smap_find (s_map v) = (\<lambda>k. if k \<in> ks then None else smap_find (s_map s) k)"

lemma shrunk_frame:
  assumes "mgr_wf s" and "r < length (s_loggers s)" and "log_frame s u"
  shows "shrunk r {} s u" and "shrunk r {name} s (u\<lparr>s_map := smap_erase name (s_map u)\<rparr>)"
proof -
  have s: "sys_wf s" using assms(1) by (simp add: mgr_wf_def)
  show u: "shrunk r {} s u"
    using assms log_frame_mgr_wf [OF assms(3,1)] logger_view_frame [OF assms(3) s assms(2)]
      log_frame_loggers [OF assms(3)]
    by (simp add: shrunk_def)
  have ok: "smap_ok (s_map u)" using u by (simp add: shrunk_def mgr_wf_def sys_wf_def)
  show "shrunk r {name} s (u\<lparr>s_map := smap_erase name (s_map u)\<rparr>)"
    using u by (auto simp: shrunk_def mgr_wf_def sys_wf_map_erase map_inj_def smap_find_erase [OF ok] fun_eq_iff
        split: if_splits)
qed

lemma drop_loop_shrunk:
  assumes "fold_res (drop_unnamed d E nv) es s = Inr v" and "mgr_wf s" and "r < length (s_loggers s)"
  shows "shrunk r (fst ` set es - ld_name ` set nv) s v"
  using assms
proof (induction es arbitrary: s)
  case Nil
  then show ?case by (simp add: shrunk_def)
next
  case (Cons e es)
  obtain u where u: "drop_unnamed d E nv e s = Inr u" "fold_res (drop_unnamed d E nv) es u = Inr v"
    using Cons.prems(1) by (auto simp: rbind_Inr_iff)
  have su: "shrunk r ({fst e} - ld_name ` set nv) s u"
  proof (cases "fst e \<in> ld_name ` set nv")
    case True
    then show ?thesis using u(1) shrunk_frame(1) [OF Cons.prems(2,3) log_frame_refl] by (simp add: drop_unnamed_def)
  next
    case False
    then obtain s1 where s1: "log_frame s s1" "removeLogger d E (fst e) s1 = Inr u"
      using u(1) by (auto simp: drop_unnamed_def rbind_Inr_iff mgr_log_def dest: ZNS_LOG_frame)
    from removeLogger_frame [OF s1(2)] obtain w
      where "log_frame s1 w" "u = w\<lparr>s_map := smap_erase (fst e) (s_map w)\<rparr>" by blast
    moreover have "{fst e} - ld_name ` set nv = {fst e}" using False by (simp add: insert_Diff_if)
    ultimately show ?thesis using shrunk_frame(2) [OF Cons.prems(2,3) log_frame_trans [OF s1(1)]] by simp
  qed
  have "shrunk r (fst ` set es - ld_name ` set nv) u v"
    using su by (intro Cons.IH [OF u(2)]) (auto simp: shrunk_def)
  with su show ?case by (auto simp: shrunk_def fun_eq_iff)
qed

lemma drop_unbinds_root:
  assumes "fold_res (drop_unnamed d E nv) (s_map s) s = Inr v" and "mgr_wf s"
    and "smap_find (s_map s) ''root'' = Some (s_root s)" and "''root'' \<notin> ld_name ` set nv"
  shows "unbound (s_root s) v \<and> logger_view v (s_root s) = logger_view s (s_root s) \<and> s_root v = s_root s"
proof -
  have r: "s_root s < length (s_loggers s)" using assms(2) by (simp add: mgr_wf_def sys_wf_def)
  have sv: "shrunk (s_root s) (fst ` set (s_map s) - ld_name ` set nv) s v"
    by (rule drop_loop_shrunk [OF assms(1,2) r])
  have "k = ''root''" if "smap_find (s_map s) k = Some (s_root s)" for k
    using that assms(2,3) by (auto simp: mgr_wf_def map_inj_def)
  moreover have "''root'' \<in> fst ` set (s_map s)" using smap_find_in [OF assms(3)] by force
  ultimately have "smap_find (s_map v) k \<noteq> Some (s_root s)" for k
    using sv assms(4) by (auto simp: shrunk_def split: if_splits)
  with sv show ?thesis by (simp add: unbound_def shrunk_def mgr_wf_def)
qed

lemma unbound_root_fold:
  assumes "unbound (s_root v) v"
  shows "unbound (s_root v) (fold configureLogger nv v) \<and>
    logger_view (fold configureLogger nv v) (s_root v) = logger_view v (s_root v) \<and>
    s_root (fold configureLogger nv v) = s_root v"
proof -
  have "keeps v (fold configureLogger nv v)" by (intro keeps_rules) simp
  then show ?thesis using unbound_configure_all [OF assms, of nv] by (simp add: keeps_def)
qed

lemma root_safe_configure:
  assumes "unbound (s_root v) v" and "root_safe v"
  shows "root_safe (configureLogger ld v)"
proof -
  have v: "sys_wf v" "s_root v < length (s_loggers v)" using assms by (auto simp: unbound_def)
  have "touches (target ld v) v (configureLogger ld v)" using configureLogger_spec [OF v(1)] by blast
  moreover have "s_root v \<noteq> target ld v"
    using assms(1) by (auto simp: unbound_def target_def split: option.splits)
  moreover have "appender_ready v a" if "a \<in> set (l_appenders (s_loggers v ! s_root v))" for a
    by (rule wf_appender_ready [OF v that])
  ultimately show ?thesis
    using assms(2) v(2) by (auto simp: root_safe_def quiet_appender_def touches_def appender_ready_def)
qed

text \<open>One more run of the listener leaves a root logger that is unbound as it is.\<close>

definition detached_root :: "sys \<Rightarrow> sys \<Rightarrow> bool" where
  "detached_root s t \<longleftrightarrow> mgr_wf t \<and> unbound (s_root s) t \<and> s_root t = s_root s \<and>
     logger_view t (s_root s) = logger_view s (s_root s)"

lemma detached_root_listener:
  assumes "detached_root s t" and "LogInit_listener d E nv ov t = Inr u"
  shows "detached_root s u"
proof -
  have t: "mgr_wf t" "unbound (s_root s) t" "s_root t = s_root s"
    "logger_view t (s_root s) = logger_view s (s_root s)"
    using assms(1) by (auto simp: detached_root_def)
  obtain w where w: "fold_res (drop_unnamed d E nv) (s_map t) t = Inr w" "u = fold configureLogger nv w"
    using assms(2) by (auto simp: LogInit_listener_def rbind_Inr_iff)
  have "shrunk (s_root s) (fst ` set (s_map t) - ld_name ` set nv) t w"
    by (rule drop_loop_shrunk [OF w(1) t(1)]) (use t(2) in \<open>simp add: unbound_def\<close>)
  then have "unbound (s_root w) w" "logger_view w (s_root w) = logger_view s (s_root s)" "s_root w = s_root s"
    using t by (auto simp: unbound_def shrunk_def mgr_wf_def)
  with unbound_root_fold [of w nv] w(2) listener_mgr_wf [OF assms(2) t(1)] show ?thesis
    by (simp add: detached_root_def)
qed

text \<open>
  C14 (LogInit, LoggerManager). A configuration that does not name the root logger takes it out
  of the map but leaves it in place as the logger of \<^verbatim>\<open>ZNS_LOG_ROOT\<close>; however many
  configurations follow, one that names \<^verbatim>\<open>root\<close> makes or sets up another logger and never
  reaches the one \<^verbatim>\<open>ZNS_LOG_ROOT\<close> logs to.
\<close>

theorem dropped_root_is_never_reconfigured:
  assumes "mgr_wf s" and "smap_find (s_map s) ''root'' = Some (s_root s)"
    and "LogInit_listener d E nv1 ov1 s = Inr t" and "''root'' \<notin> ld_name ` set nv1"
    and "fold_res (\<lambda>(new_value, old_value). LogInit_listener d E new_value old_value) later t = Inr u"
  shows "s_root u = s_root s \<and> smap_find (s_map u) ''root'' \<noteq> Some (s_root u) \<and>
    logger_view u (s_root u) = logger_view s (s_root s)"
proof -
  obtain v where v: "fold_res (drop_unnamed d E nv1) (s_map s) s = Inr v" "t = fold configureLogger nv1 v"
    using assms(3) by (auto simp: LogInit_listener_def rbind_Inr_iff)
  have uv: "unbound (s_root s) v" "logger_view v (s_root s) = logger_view s (s_root s)" "s_root v = s_root s"
    using drop_unbinds_root [OF v(1) assms(1,2,4)] by auto
  then have "detached_root s t"
    using unbound_root_fold [of v nv1] v(2) listener_mgr_wf [OF assms(3,1)]
    by (simp add: detached_root_def)
  then have "detached_root s u"
    by (rule fold_res_inv [where P = "detached_root s", OF assms(5)])
      (auto intro: detached_root_listener)
  then show ?thesis by (auto simp: detached_root_def unbound_def)
qed

definition root_define :: LogDefine where
  "root_define = \<lparr>ld_name = ''root'', ld_level = FATAL, ld_formatter = ''%m%n'', ld_appender = []\<rparr>"

theorem dropped_root_is_never_reconfigured_witness:
  "\<exists>t u. LogInit_listener 2 (sample_env (\<lambda>_. True)) [zn_define] [] boot = Inr t \<and>
     LogInit_listener 2 (sample_env (\<lambda>_. True)) [root_define] [zn_define] t = Inr u \<and>
     fst (logger_view u (s_root u)) = DEBUG"
proof -
  let ?E = "sample_env (\<lambda>_. True)"
  have s: "sys_wf boot" "map_inj boot" using mgr_wf_boot by (auto simp: mgr_wf_def)
  have find: "smap_find (s_map boot) ''root'' = Some (s_root boot)" by (simp add: boot_eq)
  have no: "''root'' \<notin> ld_name ` set [zn_define]" by (simp add: zn_define_def)
  obtain v where v: "fold_res (drop_unnamed (Suc (Suc 0)) ?E [zn_define]) (s_map boot) boot = Inr v" "root_safe v"
    using drop_unnamed_loop [OF s(1) boot_root_safe] unfolding dropped_def by blast
  let ?t = "fold configureLogger [zn_define] v"
  have t: "LogInit_listener (Suc (Suc 0)) ?E [zn_define] [] boot = Inr ?t"
    using v(1) by (simp add: LogInit_listener_def)
  have wf: "sys_wf ?t" "map_inj ?t" using listener_mgr_wf [OF t mgr_wf_boot] by (auto simp: mgr_wf_def)
  have "unbound (s_root v) v" using drop_unbinds_root [OF v(1) mgr_wf_boot find no] by simp
  then have "root_safe ?t" using root_safe_configure v(2) by simp
  from listener_syncs [OF wf(1) this wf(2), of "[root_define]" 0 ?E "[zn_define]"]
  obtain u where u: "LogInit_listener (Suc (Suc 0)) ?E [root_define] [zn_define] ?t = Inr u" by auto
  then have later: "fold_res (\<lambda>(nv, ov). LogInit_listener (Suc (Suc 0)) ?E nv ov)
      [([root_define], [zn_define])] ?t = Inr u" by simp
  from dropped_root_is_never_reconfigured [OF mgr_wf_boot find t no later] t u show ?thesis
    by (auto simp: numeral_2_eq_2 logger_view_def boot_eq fresh_logger_def)
qed

end
