(* ===== verification/UpdateProps.thy ===== *)
theory UpdateProps
  imports ManagerProps
begin

text \<open>
  \<^verbatim>\<open>LoggerManager::updateLogger\<close> and \<^verbatim>\<open>LoggerManager::createLogger\<close>: what a logger looks like
  afterwards, and what the returned flag means.
\<close>

section \<open>Changing a list of appenders\<close>

definition upd_all :: "(appender \<Rightarrow> appender) \<Rightarrow> nat list \<Rightarrow> sys \<Rightarrow> sys" where
  "upd_all f as t = fold (\<lambda>a u. upd_appender a f u) as t"

lemma upd_all_fields [simp]:
  "s_loggers (upd_all f as t) = s_loggers t" "s_map (upd_all f as t) = s_map t"
  "s_root (upd_all f as t) = s_root t" "length (s_appenders (upd_all f as t)) = length (s_appenders t)"
  "s_out (upd_all f as t) = s_out t"
  unfolding upd_all_def by (induction as arbitrary: t) simp_all

lemma upd_all_nth:
  assumes "\<And>ap. f (f ap) = f ap" and "b < length (s_appenders t)"
  shows "s_appenders (upd_all f as t) ! b =
    (if b \<in> set as then f (s_appenders t ! b) else s_appenders t ! b)"
  using assms(2)
proof (induction as arbitrary: t)
  case Nil
  then show ?case by (simp add: upd_all_def)
next
  case (Cons a as)
  have "upd_all f (a # as) t = upd_all f as (upd_appender a f t)" by (simp add: upd_all_def)
  moreover have "s_appenders (upd_appender a f t) ! b = (if b = a then f (s_appenders t ! b) else s_appenders t ! b)"
    using Cons.prems by (simp add: upd_appender_def)
  ultimately show ?case using Cons.IH [of "upd_appender a f t"] Cons.prems assms(1) by auto
qed

lemma upd_appender_id: "f (s_appenders t ! a) = s_appenders t ! a \<Longrightarrow> upd_appender a f t = t"
  by (simp add: upd_appender_def)

lemma setFilepath_idem [simp]: "setFilepath p (setFilepath p ap) = setFilepath p ap"
  by (simp add: setFilepath_def split: akind.splits)

lemma setFilepath_same: "getFilepath ap = None \<or> getFilepath ap = Some p \<Longrightarrow> setFilepath p ap = ap"
  by (cases ap) (auto simp: setFilepath_def getFilepath_def split: akind.splits)

lemma setFilepath_fields [simp]:
  "getAppenderType (setFilepath p ap) = getAppenderType ap"
  "getFilepath (setFilepath p ap) = None \<or> getFilepath (setFilepath p ap) = Some p"
  "a_level (setFilepath p ap) = a_level ap" "a_formatter (setFilepath p ap) = a_formatter ap"
  by (auto simp: setFilepath_def getAppenderType_def getFilepath_def split: akind.splits)

text \<open>The path loop of \<open>updateLogger\<close> gives every file appender the path.\<close>

lemma repath_upd: "snd (repath p a (c, t)) = upd_appender a (setFilepath p) t"
proof -
  have "upd_appender a (setFilepath p) t = t"
    if "getFilepath (s_appenders t ! a) = None \<or> getFilepath (s_appenders t ! a) = Some p"
    by (rule upd_appender_id) (rule setFilepath_same [OF that])
  then show ?thesis by (auto simp: repath_def split: option.splits)
qed

lemma repath_all: "snd (fold (repath p) as (c, t)) = upd_all (setFilepath p) as t"
proof (induction as arbitrary: c t)
  case Nil
  show ?case by (simp add: upd_all_def)
next
  case (Cons a as)
  then show ?case
    using repath_upd [of p a c t] by (cases "repath p a (c, t)") (simp add: upd_all_def)
qed

section \<open>The flag\<close>

lemma flag_repath: "fst ct \<or> snd ct = s \<Longrightarrow> fst (repath p a ct) \<or> snd (repath p a ct) = s"
  by (cases ct) (auto simp: repath_def split: option.splits)

lemma flag_entry:
  assumes "fst ct \<or> snd ct = s"
  shows "fst (update_appender_entry l p ty ct) \<or> snd (update_appender_entry l p ty ct) = s"
proof -
  let ?r = "fold (repath p) (l_appenders (s_loggers (snd ct) ! l)) ct"
  have "fst ?r \<or> snd ?r = s"
    by (rule fold_keeps [where P = "\<lambda>ct. fst ct \<or> snd ct = s", OF assms]) (rule flag_repath)
  then show ?thesis using assms
    by (cases ct; cases ?r) (auto simp: update_appender_entry_def)
qed

lemma flag_updateLogger:
  assumes "mgr_named R s" and "\<And>l. smap_find (s_map s) name = Some l \<Longrightarrow> l \<notin> R"
  shows "fst (updateLogger name lv pattern apps path s) \<or> snd (updateLogger name lv pattern apps path s) = s"
proof (cases "smap_find (s_map s) name")
  case None
  then show ?thesis by (simp add: updateLogger_def)
next
  case (Some l)
  then have get: "getLogger (l_name (s_loggers s ! l)) s = (l, s)"
    using assms by (simp add: mgr_named_def named_def getLogger_def)
  have "fst (update_level l lv (False, s)) \<or> snd (update_level l lv (False, s)) = s"
    by (simp add: update_level_def)
  then have "fst (update_pattern l pattern (update_level l lv (False, s))) \<or>
      snd (update_pattern l pattern (update_level l lv (False, s))) = s"
    by (auto simp: update_pattern_def split: prod.splits)
  then show ?thesis
    unfolding updateLogger_def Some option.case get prod.case
    by (rule fold_keeps [where P = "\<lambda>ct. fst ct \<or> snd ct = s"]) (rule flag_entry)
qed

section \<open>The logger after an update\<close>

text \<open>What holds of the logger once the types in \<open>seen\<close> have been gone through.\<close>

definition prints_as :: "sys \<Rightarrow> nat \<Rightarrow> level \<times> formatter option" where
  "prints_as t a = (a_level (s_appenders t ! a), a_formatter (s_appenders t ! a))"

definition updated ::
  "nat \<Rightarrow> level \<Rightarrow> string \<Rightarrow> string \<Rightarrow> nat list \<Rightarrow> (level \<times> formatter option) list \<Rightarrow> string set \<Rightarrow> sys \<Rightarrow> bool" where
  "updated l lv pattern path old vs seen t \<longleftrightarrow>
     sys_wf t \<and> l < length (s_loggers t) \<and>
     l_level (s_loggers t ! l) = lv \<and> f_pattern (l_formatter (s_loggers t ! l)) = pattern \<and>
     (\<exists>new. l_appenders (s_loggers t ! l) = old @ new) \<and> map (prints_as t) old = vs \<and>
     (\<forall>ty \<in> seen \<inter> {''stdout'', ''file''}. has_type ty l t) \<and>
     (''file'' \<in> seen \<longrightarrow> (\<forall>a \<in> set (l_appenders (s_loggers t ! l)).
        getFilepath (s_appenders t ! a) \<in> {None, Some path}))"

lemma has_type_attach:
  assumes "sys_wf t" and "l < length (s_loggers t)"
  shows "has_type ty l (attach_new l ap t) \<longleftrightarrow> has_type ty l t \<or> getAppenderType ap = ty"
proof -
  have "(s_appenders t @ xs) ! a = s_appenders t ! a" if "a \<in> set (l_appenders (s_loggers t ! l))" for a xs
    using wf_appender_ready [OF assms that] by (simp add: appender_ready_def nth_append)
  moreover have "getAppenderType (with_formatter f ap) = getAppenderType ap" for f
    by (simp add: with_formatter_def getAppenderType_def)
  ultimately show ?thesis
    using assms(2) by (auto simp: has_type_def list_ex_iff attach_new_logger)
qed

lemma paths_attach:
  assumes "sys_wf t" and "l < length (s_loggers t)"
  shows "(\<forall>a \<in> set (l_appenders (s_loggers (attach_new l ap t) ! l)).
            getFilepath (s_appenders (attach_new l ap t) ! a) \<in> S) \<longleftrightarrow>
         getFilepath ap \<in> S \<and> (\<forall>a \<in> set (l_appenders (s_loggers t ! l)). getFilepath (s_appenders t ! a) \<in> S)"
proof -
  have "(s_appenders t @ xs) ! a = s_appenders t ! a" if "a \<in> set (l_appenders (s_loggers t ! l))" for a xs
    using wf_appender_ready [OF assms that] by (simp add: appender_ready_def nth_append)
  moreover have "getFilepath (with_formatter f ap) = getFilepath ap" for f
    by (simp add: with_formatter_def getFilepath_def)
  ultimately show ?thesis
    using assms(2) by (auto simp: attach_new_logger)
qed

lemma new_appender_types [simp]:
  "getAppenderType StdoutLogAppender = ''stdout''" "getAppenderType (FileLogAppender p) = ''file''"
  "getFilepath StdoutLogAppender = None" "getFilepath (FileLogAppender p) = Some p"
  by (simp_all add: StdoutLogAppender_def FileLogAppender_def LogAppender_def getAppenderType_def getFilepath_def)

lemma prints_as_attach:
  assumes "sys_wf t" and "l < length (s_loggers t)" and "a \<in> set (l_appenders (s_loggers t ! l))"
  shows "prints_as (attach_new l ap t) a = prints_as t a"
  using wf_appender_ready [OF assms] assms(2) by (simp add: prints_as_def appender_ready_def nth_append)

lemma updated_stdout:
  assumes "updated l lv pattern path old vs seen t"
  shows "updated l lv pattern path old vs (insert ''stdout'' seen) (attach_new l StdoutLogAppender t)"
proof -
  have t: "sys_wf t" "l < length (s_loggers t)" using assms by (auto simp: updated_def)
  show ?thesis
    using assms unfolding updated_def has_type_attach [OF t] paths_attach [OF t]
    by (auto simp: sys_wf_attach_new attach_new_logger prints_as_attach [OF t])
qed

lemma updated_file:
  assumes "updated l lv pattern path old vs seen t"
    and "\<forall>a \<in> set (l_appenders (s_loggers t ! l)). getFilepath (s_appenders t ! a) \<in> {None, Some path}"
  shows "updated l lv pattern path old vs (insert ''file'' seen) (attach_new l (FileLogAppender path) t)"
proof -
  have t: "sys_wf t" "l < length (s_loggers t)" using assms by (auto simp: updated_def)
  show ?thesis
    using assms unfolding updated_def has_type_attach [OF t] paths_attach [OF t]
    by (auto simp: sys_wf_attach_new attach_new_logger prints_as_attach [OF t])
qed

lemma sys_wf_upd_all:
  assumes "sys_wf t" and "\<And>ap. a_formatter (f ap) = a_formatter ap"
  shows "sys_wf (upd_all f as t)"
  unfolding upd_all_def
  by (rule fold_keeps [where P = sys_wf, OF assms(1)]) (rule sys_wf_upd_appender, simp_all add: assms(2))

lemma updated_repath:
  fixes t l path
  defines "u \<equiv> upd_all (setFilepath path) (l_appenders (s_loggers t ! l)) t"
  assumes "updated l lv pattern path old vs seen t"
  shows "updated l lv pattern path old vs seen u"
    and "\<forall>a \<in> set (l_appenders (s_loggers u ! l)). getFilepath (s_appenders u ! a) \<in> {None, Some path}"
    and "has_type ty l u = has_type ty l t"
proof -
  have t: "sys_wf t" "l < length (s_loggers t)" using assms(2) by (auto simp: updated_def)
  have app: "s_appenders u ! a = setFilepath path (s_appenders t ! a)"
    if "a \<in> set (l_appenders (s_loggers t ! l))" for a
    using wf_appender_ready [OF t that] that by (simp add: u_def upd_all_nth appender_ready_def)
  show paths: "\<forall>a \<in> set (l_appenders (s_loggers u ! l)). getFilepath (s_appenders u ! a) \<in> {None, Some path}"
    using app setFilepath_fields(2) by (auto simp: u_def)
  have ty: "has_type ty l u = has_type ty l t" for ty
    using app by (auto simp: has_type_def list_ex_iff u_def)
  then show "has_type ty l u = has_type ty l t" .
  have pr: "prints_as u a = prints_as t a" if "a \<in> set (l_appenders (s_loggers t ! l))" for a
    using app [OF that] by (simp add: prints_as_def)
  have "sys_wf u" unfolding u_def by (rule sys_wf_upd_all [OF t(1)]) simp
  then show "updated l lv pattern path old vs seen u"
    using assms(2) paths ty pr by (auto simp: updated_def) (auto simp: u_def)
qed

lemma updated_entry:
  assumes "updated l lv pattern path old vs seen (snd ct)"
  shows "updated l lv pattern path old vs (insert ty seen) (snd (update_appender_entry l path ty ct))"
proof -
  obtain c t where ct: "ct = (c, t)" by (cases ct)
  have u: "updated l lv pattern path old vs seen t" using assms ct by simp
  consider "ty = ''stdout''" | "ty = ''file''" | "ty \<noteq> ''stdout''" "ty \<noteq> ''file''" by blast
  then show ?thesis
  proof cases
    case 1
    then show ?thesis
      using updated_stdout [OF u] u ct by (auto simp: update_appender_entry_def updated_def)
  next
    case 2
    let ?r = "upd_all (setFilepath path) (l_appenders (s_loggers t ! l)) t"
    note r = updated_repath [OF u]
    have snd: "snd (update_appender_entry l path ty ct) =
        (if has_type ''file'' l t then ?r else attach_new l (FileLogAppender path) ?r)"
      using 2 ct repath_all [of path "l_appenders (s_loggers t ! l)" c t]
      by (cases "fold (repath path) (l_appenders (s_loggers t ! l)) (c, t)")
        (simp add: update_appender_entry_def)
    show ?thesis
    proof (cases "has_type ''file'' l t")
      case True
      then show ?thesis using snd 2 r by (auto simp: updated_def)
    next
      case False
      then show ?thesis using snd 2 updated_file [OF r(1,2)] by simp
    qed
  next
    case 3
    then show ?thesis using u ct by (auto simp: update_appender_entry_def updated_def)
  qed
qed

lemma updated_entries:
  "updated l lv pattern path old vs seen (snd ct) \<Longrightarrow>
     updated l lv pattern path old vs (set apps \<union> seen) (snd (fold (update_appender_entry l path) apps ct))"
proof (induction apps arbitrary: ct seen)
  case Nil
  then show ?case by simp
next
  case (Cons ty apps)
  from Cons.IH [OF updated_entry [OF Cons.prems, of ty]] show ?case by simp
qed

text \<open>Giving each appender of a list a new formatter, after a change \<open>f\<close>.\<close>

definition reformat_with :: "(appender \<Rightarrow> appender) \<Rightarrow> string \<Rightarrow> nat list \<Rightarrow> sys \<Rightarrow> sys" where
  "reformat_with f pattern as t = fold (\<lambda>a u. reformat_appender pattern a (upd_appender a f u)) as t"

lemma reformat_with_fields [simp]:
  "s_loggers (reformat_with f p as t) = s_loggers t" "s_map (reformat_with f p as t) = s_map t"
  "s_root (reformat_with f p as t) = s_root t"
  "length (s_appenders (reformat_with f p as t)) = length (s_appenders t)"
  unfolding reformat_with_def
  by (induction as arbitrary: t) (simp_all add: reformat_appender_def new_formatter_eq)

lemma reformat_with_nth:
  assumes "\<And>ap. (f ((f ap)\<lparr>a_formatter := Some (fst (LogFormatter p))\<rparr>))\<lparr>a_formatter := Some (fst (LogFormatter p))\<rparr> =
      (f ap)\<lparr>a_formatter := Some (fst (LogFormatter p))\<rparr>"
    and "b < length (s_appenders t)"
  shows "s_appenders (reformat_with f p as t) ! b =
      (if b \<in> set as then (f (s_appenders t ! b))\<lparr>a_formatter := Some (fst (LogFormatter p))\<rparr>
       else s_appenders t ! b)"
  using assms(2)
proof (induction as arbitrary: t)
  case Nil
  then show ?case by (simp add: reformat_with_def)
next
  case (Cons a as)
  let ?t = "reformat_appender p a (upd_appender a f t)"
  have "s_appenders ?t ! b =
      (if b = a then (f (s_appenders t ! b))\<lparr>a_formatter := Some (fst (LogFormatter p))\<rparr> else s_appenders t ! b)"
    using Cons.prems
    by (auto simp: reformat_appender_def new_formatter_eq upd_appender_nth) (simp add: upd_appender_def)
  moreover have "length (s_appenders ?t) = length (s_appenders t)"
    by (simp add: reformat_appender_def new_formatter_eq)
  moreover have "reformat_with f p (a # as) t = reformat_with f p as ?t" by (simp add: reformat_with_def)
  ultimately show ?case using Cons.IH [of ?t] Cons.prems assms(1) by auto
qed

text \<open>The appenders a logger has before the update, as they print after it.\<close>

definition kept_prints :: "sys \<Rightarrow> nat \<Rightarrow> string \<Rightarrow> (level \<times> formatter option) list" where
  "kept_prints s l pattern =
     map (\<lambda>a. (a_level (s_appenders s ! a),
               if pattern \<noteq> f_pattern (l_formatter (s_loggers s ! l))
               then Some (fst (LogFormatter pattern)) else a_formatter (s_appenders s ! a)))
       (l_appenders (s_loggers s ! l))"

lemma updated_start:
  assumes "sys_wf s" and "l < length (s_loggers s)"
  shows "updated l lv pattern path (l_appenders (s_loggers s ! l)) (kept_prints s l pattern) {}
    (snd (update_pattern l pattern (update_level l lv (False, s))))"
proof -
  let ?s1 = "snd (update_level l lv (False, s))"
  have s1: "s_loggers ?s1 = (s_loggers s)[l := (s_loggers s ! l)\<lparr>l_level := lv\<rparr>]" "s_appenders ?s1 = s_appenders s"
    by (auto simp: update_level_def setLevel_def upd_logger_def)
  have wf1: "sys_wf ?s1" using assms by (simp add: update_level_def sys_wf_setLevel)
  have l1: "s_loggers ?s1 ! l = (s_loggers s ! l)\<lparr>l_level := lv\<rparr>" using s1 assms(2) by simp
  have snd: "snd (update_pattern l pattern (update_level l lv (False, s))) =
     (if pattern \<noteq> f_pattern (l_formatter (s_loggers s ! l)) then
        reformat_with (\<lambda>ap. ap\<lparr>a_custom := False\<rparr>) pattern
          (l_appenders (s_loggers s ! l)) (setFormatter l pattern ?s1) else ?s1)"
    using l1 by (simp add: update_pattern_def split_beta reformat_with_def)
  have ready: "a < length (s_appenders s)" if "a \<in> set (l_appenders (s_loggers s ! l))" for a
    using wf_appender_ready [OF assms that] by (simp add: appender_ready_def)
  show ?thesis
  proof (cases "pattern = f_pattern (l_formatter (s_loggers s ! l))")
    case True
    then show ?thesis
      using snd l1 wf1 s1 assms(2) by (simp add: updated_def kept_prints_def prints_as_def)
  next
    case False
    let ?t = "reformat_with (\<lambda>ap. ap\<lparr>a_custom := False\<rparr>) pattern
          (l_appenders (s_loggers s ! l)) (setFormatter l pattern ?s1)"
    have "wf_at l (s_map ?s1) (setFormatter l pattern ?s1)"
      using wf1 s1 assms(2) by (simp add: wf_at_def sys_wf_setFormatter)
    then have "wf_at l (s_map ?s1) ?t" unfolding reformat_with_def
      by (rule fold_keeps [where P = "wf_at l (s_map ?s1)"]) (rule wf_at_reformat, simp_all)
    moreover have "l < length (s_loggers ?s1)" using s1 assms(2) by simp
    ultimately show ?thesis
      using False snd l1 s1 ready
      by (simp add: updated_def kept_prints_def prints_as_def reformat_with_nth wf_at_def)
  qed
qed

text \<open>
  C15 (LoggerManager::updateLogger). For a logger that was not renamed
  (see C12): afterwards it has the level and the pattern asked
  for, its old appenders are still there, in front, at the levels they had and with the new
  formatter where the pattern changed, every listed type has an appender, and with \<^verbatim>\<open>file\<close>
  listed every file appender has the given path. The answer \<^verbatim>\<open>false\<close> means that nothing at all
  changed.
\<close>

theorem updateLogger_contract:
  assumes "mgr_named R s" and "smap_find (s_map s) name = Some l" and "l \<notin> R"
    and "updateLogger name lv pattern apps path s = (changed, t)"
  shows "(changed \<or> t = s) \<and> s_map t = s_map s \<and>
    l_level (s_loggers t ! l) = lv \<and> f_pattern (l_formatter (s_loggers t ! l)) = pattern \<and>
    take (length (l_appenders (s_loggers s ! l))) (l_appenders (s_loggers t ! l)) = l_appenders (s_loggers s ! l) \<and>
    map (prints_as t) (l_appenders (s_loggers s ! l)) = kept_prints s l pattern \<and>
    (\<forall>ty \<in> set apps \<inter> {''stdout'', ''file''}. has_type ty l t) \<and>
    (''file'' \<in> set apps \<longrightarrow> (\<forall>a \<in> set (l_appenders (s_loggers t ! l)).
       getFilepath (s_appenders t ! a) \<in> {None, Some path}))"
proof -
  have wf: "sys_wf s" by (rule mgr_named_wf [OF assms(1)])
  have l: "l < length (s_loggers s)" by (rule sys_wf_lookup [OF wf assms(2)])
  have get: "getLogger (l_name (s_loggers s ! l)) s = (l, s)"
    using assms(1-3) by (simp add: mgr_named_def named_def getLogger_def)
  have t: "t = snd (fold (update_appender_entry l path) apps
      (update_pattern l pattern (update_level l lv (False, s))))"
    using assms(2,4) get by (simp add: updateLogger_def)
  have "updated l lv pattern path (l_appenders (s_loggers s ! l)) (kept_prints s l pattern) (set apps \<union> {}) t"
    unfolding t by (rule updated_entries [OF updated_start [OF wf l]])
  moreover have "changed \<or> t = s"
    using flag_updateLogger [OF assms(1), of name lv pattern apps path] assms(2-4) by simp
  moreover have "s_map t = s_map s"
    using updateLogger_map [OF assms(1), of name lv pattern apps path] assms(2-4) by simp
  ultimately show ?thesis by (auto simp: updated_def)
qed

theorem updateLogger_contract_witness:
  "fst (updateLogger ''root'' ERROR default_pattern [''stdout''] [] boot) \<and>
   l_level (s_loggers (snd (updateLogger ''root'' ERROR default_pattern [''stdout''] [] boot)) ! 0) = ERROR"
proof -
  let ?r = "updateLogger ''root'' ERROR default_pattern [''stdout''] [] boot"
  have find: "smap_find (s_map boot) ''root'' = Some 0" by (simp add: boot_eq)
  have eq: "?r = (fst ?r, snd ?r)" by simp
  note c = updateLogger_contract [OF mgr_named_boot [of "{}"] find _ eq]
  have "l_level (s_loggers boot ! 0) \<noteq> ERROR" by (simp add: boot_eq fresh_logger_def)
  with c show ?thesis by auto
qed

section \<open>A new logger\<close>

text \<open>What \<open>createLogger\<close> makes of one entry of the list of appender types.\<close>

definition created_aview :: "level \<Rightarrow> string \<Rightarrow> string \<Rightarrow> string \<Rightarrow> aview list" where
  "created_aview lv pattern path ty =
     (if ty = ''stdout'' then [(ty, None, lv, Some (fst (LogFormatter pattern)), False)]
      else if ty = ''file'' then [(ty, Some path, lv, Some (fst (LogFormatter pattern)), False)]
      else [])"

lemma new_appender_custom: "a_custom StdoutLogAppender = False" "a_custom (FileLogAppender p) = False"
  by (simp_all add: StdoutLogAppender_def FileLogAppender_def LogAppender_def)

lemma new_logger_with_others:
  assumes "l < length (s_loggers s)"
  shows "s_loggers (snd (new_logger_with name lv pattern apps path s)) ! l = s_loggers s ! l"
proof -
  let ?l = "length (s_loggers s)"
  let ?P = "\<lambda>t. ?l < length (s_loggers t) \<and> s_loggers t ! l = s_loggers s ! l"
  have "?P (attach_new ?l ap t)" if "?P t" for ap t
    using that assms by (simp add: attach_new_logger)
  then have "?P (fold (\<lambda>appender t.
       if appender = ''stdout'' then attach_new ?l StdoutLogAppender t
       else if appender = ''file'' then attach_new ?l (FileLogAppender path) t else t) apps
       (snd (new_logger name lv pattern s)))"
    by (intro fold_keeps [where P = ?P]) (use assms in \<open>simp_all add: nth_append\<close>)
  then show ?thesis unfolding new_logger_with_def split_beta new_logger_fields by simp
qed

lemma new_logger_with_types:
  assumes "sys_wf s"
  shows "l_level (s_loggers (snd (new_logger_with name lv pattern apps path s)) ! length (s_loggers s)) = lv \<and>
    l_formatter (s_loggers (snd (new_logger_with name lv pattern apps path s)) ! length (s_loggers s)) =
      fst (LogFormatter pattern) \<and>
    map (\<lambda>a. (getAppenderType (s_appenders (snd (new_logger_with name lv pattern apps path s)) ! a),
             getFilepath (s_appenders (snd (new_logger_with name lv pattern apps path s)) ! a),
             a_custom (s_appenders (snd (new_logger_with name lv pattern apps path s)) ! a)))
      (l_appenders (s_loggers (snd (new_logger_with name lv pattern apps path s)) ! length (s_loggers s))) =
    concat (map (\<lambda>ty. if ty = ''stdout'' then [(ty, None, False)]
                       else if ty = ''file'' then [(ty, Some path, False)] else []) apps)"
proof -
  let ?l = "length (s_loggers s)"
  let ?f = "\<lambda>appender t. if appender = ''stdout'' then attach_new ?l StdoutLogAppender t
         else if appender = ''file'' then attach_new ?l (FileLogAppender path) t else t"
  let ?sig = "\<lambda>t a. (getAppenderType (s_appenders t ! a), getFilepath (s_appenders t ! a), a_custom (s_appenders t ! a))"
  let ?mk = "\<lambda>ty. if ty = ''stdout'' then [(ty, None, False)]
                 else if ty = ''file'' then [(ty, Some path, False)] else []"
  have att: "sys_wf (attach_new ?l ap t) \<and> ?l < length (s_loggers (attach_new ?l ap t)) \<and>
      l_level (s_loggers (attach_new ?l ap t) ! ?l) = l_level (s_loggers t ! ?l) \<and>
      l_formatter (s_loggers (attach_new ?l ap t) ! ?l) = l_formatter (s_loggers t ! ?l) \<and>
      map (?sig (attach_new ?l ap t)) (l_appenders (s_loggers (attach_new ?l ap t) ! ?l)) =
        map (?sig t) (l_appenders (s_loggers t ! ?l)) @ [(getAppenderType ap, getFilepath ap, a_custom ap)]"
    if t: "sys_wf t" "?l < length (s_loggers t)" for t ap
  proof -
    have "?sig (attach_new ?l ap t) a = ?sig t a" if "a \<in> set (l_appenders (s_loggers t ! ?l))" for a
      using wf_appender_ready [OF t that] t by (simp add: appender_ready_def nth_append)
    then show ?thesis
      using t by (simp add: sys_wf_attach_new attach_new_logger)
        (simp add: with_formatter_def getAppenderType_def getFilepath_def)
  qed
  have "sys_wf (fold ?f apps t) \<and> ?l < length (s_loggers (fold ?f apps t)) \<and>
      l_level (s_loggers (fold ?f apps t) ! ?l) = l_level (s_loggers t ! ?l) \<and>
      l_formatter (s_loggers (fold ?f apps t) ! ?l) = l_formatter (s_loggers t ! ?l) \<and>
      map (?sig (fold ?f apps t)) (l_appenders (s_loggers (fold ?f apps t) ! ?l)) =
        map (?sig t) (l_appenders (s_loggers t ! ?l)) @ concat (map ?mk apps)"
    if "sys_wf t" "?l < length (s_loggers t)" for t
    using that
  proof (induction apps arbitrary: t)
    case Nil
    then show ?case by simp
  next
    case (Cons ty apps)
    have u: "sys_wf (?f ty t)" "?l < length (s_loggers (?f ty t))"
      "l_level (s_loggers (?f ty t) ! ?l) = l_level (s_loggers t ! ?l)"
      "l_formatter (s_loggers (?f ty t) ! ?l) = l_formatter (s_loggers t ! ?l)"
      "map (?sig (?f ty t)) (l_appenders (s_loggers (?f ty t) ! ?l)) =
        map (?sig t) (l_appenders (s_loggers t ! ?l)) @ ?mk ty"
      using Cons.prems att [OF Cons.prems, of StdoutLogAppender] att [OF Cons.prems, of "FileLogAppender path"]
      by (simp_all add: new_appender_custom)
    from Cons.IH [OF u(1,2)] show ?case unfolding u(3-5) by simp
  qed
  from this [of "snd (new_logger name lv pattern s)"] show ?thesis
    using assms unfolding new_logger_with_def split_beta new_logger_fields
    by (simp add: sys_wf_new_logger fresh_logger_def)
qed

text \<open>
  C16 (LoggerManager::createLogger). For a name that is free the call returns a new logger bound
  to the name, at the level and with the pattern asked for and one appender per listed type, in
  order, each at the logger's level and with its pattern, the file appenders on the given path;
  entries of another type are ignored and every other logger stays as it is.
\<close>

theorem createLogger_new:
  assumes "sys_wf s" and "smap_find (s_map s) name = None"
  shows "\<exists>t. createLogger d E name lv pattern apps path s = Inr (length (s_loggers s), t) \<and>
    smap_find (s_map t) = (\<lambda>k. if k = name then Some (length (s_loggers s)) else smap_find (s_map s) k) \<and>
    logger_view t (length (s_loggers s)) =
      (lv, fst (LogFormatter pattern), concat (map (created_aview lv pattern path) apps)) \<and>
    (\<forall>l < length (s_loggers s). s_loggers t ! l = s_loggers s ! l)"
proof -
  let ?l = "length (s_loggers s)"
  let ?w = "snd (new_logger_with name lv pattern apps path s)"
  let ?as = "l_appenders (s_loggers ?w ! ?l)"
  let ?u = "reformat_with (\<lambda>ap. ap\<lparr>a_level := lv\<rparr>) pattern ?as ?w"
  let ?t = "?u\<lparr>s_map := smap_set name ?l (s_map ?u)\<rparr>"
  note w = new_logger_with_wf [OF assms(1), of name lv pattern apps path]
  note ty = new_logger_with_types [OF assms(1), of name lv pattern apps path]
  have wf: "sys_wf ?w" "?l < length (s_loggers ?w)" "s_map ?w = s_map s" using w by (auto simp: wf_at_def)
  have create: "createLogger d E name lv pattern apps path s = Inr (?l, ?t)"
    using assms(2) w by (simp add: createLogger_def split_beta Let_def reformat_with_def)
  have app: "s_appenders ?u ! a =
      (s_appenders ?w ! a)\<lparr>a_level := lv, a_formatter := Some (fst (LogFormatter pattern))\<rparr>"
    if "a \<in> set ?as" for a
    using wf_appender_ready [OF wf(1,2) that] that by (simp add: reformat_with_nth appender_ready_def)
  let ?view = "\<lambda>(ty, path, custom). (ty, path, lv, Some (fst (LogFormatter pattern)), custom)"
  have "map (\<lambda>a. appender_view (s_appenders ?t ! a)) ?as =
      map ?view (map (\<lambda>a. (getAppenderType (s_appenders ?w ! a), getFilepath (s_appenders ?w ! a),
         a_custom (s_appenders ?w ! a))) ?as)"
    by (simp add: app appender_view_def) (simp add: getAppenderType_def getFilepath_def)
  also have "\<dots> = concat (map (created_aview lv pattern path) apps)"
    using ty by (simp add: map_concat) (auto simp: created_aview_def intro!: arg_cong [of _ _ concat])
  finally have "logger_view ?t ?l = (lv, fst (LogFormatter pattern), concat (map (created_aview lv pattern path) apps))"
    using ty by (simp add: logger_view_def)
  with create wf(3) show ?thesis
    by (auto simp: smap_find_set fun_eq_iff new_logger_with_others)
qed

theorem createLogger_new_witness:
  "\<exists>t. createLogger 0 (sample_env (\<lambda>_. True)) ''zn'' WARN ''%m%n'' [''file'', ''socket'', ''stdout''] ''zn.log'' boot
      = Inr (1, t) \<and>
    logger_view t 1 = (WARN, fst (LogFormatter ''%m%n''),
      [(''file'', Some ''zn.log'', WARN, Some (fst (LogFormatter ''%m%n'')), False),
       (''stdout'', None, WARN, Some (fst (LogFormatter ''%m%n'')), False)])"
proof -
  have free: "smap_find (s_map boot) ''zn'' = None" by (simp add: boot_eq)
  have len: "length (s_loggers boot) = 1" by (simp add: boot_eq)
  from createLogger_new [OF sys_wf_boot free, of 0 "sample_env (\<lambda>_. True)" WARN "''%m%n''"
      "[''file'', ''socket'', ''stdout'']" "''zn.log''"]
  show ?thesis unfolding len by (auto simp: created_aview_def)
qed

end
