(* ===== verification/ConfigVar.thy ===== *)
theory ConfigVar
  imports ManagerProps
begin

text \<open>
  \<^verbatim>\<open>class ConfigVar<T>\<close> (\<^verbatim>\<open>server/config.h\<close>). The types a variable can have are given by what the
  template uses of them: a name (\<^verbatim>\<open>typeid\<close>), \<^verbatim>\<open>operator==\<close> and the two casts; their values
  share one type \<open>'v\<close>. A listener acts on the logging system and may throw; it may be an empty
  \<^verbatim>\<open>std::function\<close>. Listeners that change the registry itself are not covered.
\<close>

section \<open>Calls that may throw\<close>

text \<open>The error thrown, if any, and the state at that point.\<close>

type_synonym 's eff = "err option \<times> 's"

fun is_exception :: "err \<Rightarrow> bool" where
  "is_exception (InvalidArgument m) = True"
| "is_exception (LogicError m) = True"
| "is_exception (RuntimeError m) = True"
| "is_exception (ForeignException m) = True"
| "is_exception e = False"

fun what :: "err \<Rightarrow> string" where
  "what (InvalidArgument m) = m"
| "what (LogicError m) = m"
| "what (RuntimeError m) = m"
| "what (ForeignException m) = m"
| "what e = []"

definition effect_of :: "('s \<Rightarrow> 's res) \<Rightarrow> 's \<Rightarrow> 's eff" where
  "effect_of f s = (case f s of Inl e \<Rightarrow> (Some e, s) | Inr t \<Rightarrow> (None, t))"

section \<open>State\<close>

record 'v vtype =
  vt_name :: string
  vt_eq :: "'v \<Rightarrow> 'v \<Rightarrow> bool"
  vt_from :: "string \<Rightarrow> 'v res"
  vt_to :: "'v \<Rightarrow> string res"

type_synonym 'v callback = "('v \<Rightarrow> 'v \<Rightarrow> sys \<Rightarrow> sys eff) option"

record 'v cvar =
  cv_name :: string
  cv_description :: string
  cv_type :: "'v vtype"
  cv_value :: 'v
  cv_cbs :: "(int, 'v callback) smap"

definition ConfigVar :: "'v vtype \<Rightarrow> string \<Rightarrow> 'v \<Rightarrow> string \<Rightarrow> 'v cvar" where
  "ConfigVar T name default_value description =
     \<lparr>cv_name = name, cv_description = description, cv_type = T, cv_value = default_value, cv_cbs = []\<rparr>"

section \<open>Operations\<close>

definition call_cb :: "'v callback \<Rightarrow> 'v \<Rightarrow> 'v \<Rightarrow> sys \<Rightarrow> sys eff" where
  "call_cb cb new_value old_value s =
     (case cb of None \<Rightarrow> (Some (ForeignException ''bad_function_call''), s)
      | Some f \<Rightarrow> f new_value old_value s)"

fun run_cbs :: "'v callback list \<Rightarrow> 'v \<Rightarrow> 'v \<Rightarrow> sys \<Rightarrow> sys eff" where
  "run_cbs [] new_value old_value s = (None, s)"
| "run_cbs (cb # cbs) new_value old_value s =
     (case call_cb cb new_value old_value s of
        (Some e, t) \<Rightarrow> (Some e, t)
      | (None, t) \<Rightarrow> run_cbs cbs new_value old_value t)"

definition setValue :: "'v \<Rightarrow> 'v cvar \<Rightarrow> sys \<Rightarrow> err option \<times> 'v cvar \<times> sys" where
  "setValue val var s =
     (if vt_eq (cv_type var) (cv_value var) val then (None, var, s)
      else (case run_cbs (map snd (cv_cbs var)) val (cv_value var) s of
              (r, t) \<Rightarrow> (r, var\<lparr>cv_value := val\<rparr>, t)))"

text \<open>A log statement of \<^verbatim>\<open>config.h\<close> on the root logger.\<close>

definition config_log :: "nat \<Rightarrow> env \<Rightarrow> level \<Rightarrow> i32 \<Rightarrow> string \<Rightarrow> sys \<Rightarrow> sys res" where
  "config_log d E lv line msg s = ZNS_LOG (Logger_log d E) E (s_root s) lv (e_config_h E) line msg s"

text \<open>The \<^verbatim>\<open>catch (const std::exception& e)\<close> of \<^verbatim>\<open>fromString\<close>.\<close>

definition fromString_failed ::
  "nat \<Rightarrow> env \<Rightarrow> err \<Rightarrow> 'v cvar \<Rightarrow> sys \<Rightarrow> bool res \<times> 'v cvar \<times> sys" where
  "fromString_failed d E e var s =
     (if is_exception e then
        (case config_log d E ERROR 234
                (''ConfigVar::fromString() error, name='' @ cv_name var @ '' exception: '' @ what e) s of
           Inl e' \<Rightarrow> (Inl e', var, s)
         | Inr t \<Rightarrow> (Inr False, var, t))
      else (Inl e, var, s))"

definition fromString ::
  "nat \<Rightarrow> env \<Rightarrow> string \<Rightarrow> 'v cvar \<Rightarrow> sys \<Rightarrow> bool res \<times> 'v cvar \<times> sys" where
  "fromString d E val var s =
     (case vt_from (cv_type var) val of
        Inl e \<Rightarrow> fromString_failed d E e var s
      | Inr v \<Rightarrow>
          (case setValue v var s of
             (None, var', t) \<Rightarrow> (Inr True, var', t)
           | (Some e, var', t) \<Rightarrow> fromString_failed d E e var' t))"

definition toString :: "nat \<Rightarrow> env \<Rightarrow> 'v cvar \<Rightarrow> sys \<Rightarrow> (string \<times> sys) res" where
  "toString d E var s =
     (case vt_to (cv_type var) (cv_value var) of
        Inr str \<Rightarrow> Inr (str, s)
      | Inl e \<Rightarrow>
          if is_exception e then
            rbind (config_log d E ERROR 224
                     (''ConfigVar::toString() error, name='' @ cv_name var @ '' exception: '' @ what e) s)
              (\<lambda>t. Inr ([], t))
          else Inl e)"

definition addListener :: "int \<Rightarrow> 'v callback \<Rightarrow> 'v cvar \<Rightarrow> 'v cvar" where
  "addListener listenerId cb var = var\<lparr>cv_cbs := smap_set listenerId cb (cv_cbs var)\<rparr>"

definition removeListener :: "int \<Rightarrow> 'v cvar \<Rightarrow> 'v cvar" where
  "removeListener listenerId var = var\<lparr>cv_cbs := smap_erase listenerId (cv_cbs var)\<rparr>"

definition getListener :: "int \<Rightarrow> 'v cvar \<Rightarrow> 'v callback" where
  "getListener listenerId var = (case smap_find (cv_cbs var) listenerId of None \<Rightarrow> None | Some cb \<Rightarrow> cb)"

section \<open>Listeners\<close>

definition cvar_wf :: "'v cvar \<Rightarrow> bool" where
  "cvar_wf var \<longleftrightarrow> smap_ok (cv_cbs var)"

lemma setValue_fields:
  assumes "setValue v var s = (r, var', t)"
  shows "cv_name var' = cv_name var" "cv_type var' = cv_type var" "cv_cbs var' = cv_cbs var"
    "cv_value var' = (if vt_eq (cv_type var) (cv_value var) v then cv_value var else v)"
  using assms by (auto simp: setValue_def split: prod.splits if_splits)

lemma fromString_failed_var: "fst (snd (fromString_failed d E e var s)) = var"
  by (simp add: fromString_failed_def split: sum.splits)

lemma fromString_var:
  "fst (snd (fromString d E val var s)) =
     (case vt_from (cv_type var) val of Inl e \<Rightarrow> var | Inr v \<Rightarrow> fst (snd (setValue v var s)))"
  by (auto simp: fromString_def fromString_failed_var split: sum.splits prod.splits option.splits)

lemma fromString_fields:
  assumes "fromString d E val var s = (r, var', t)"
  shows "cv_name var' = cv_name var \<and> cv_type var' = cv_type var \<and> cv_cbs var' = cv_cbs var"
proof (cases "vt_from (cv_type var) val")
  case (Inl e)
  then show ?thesis using assms fromString_var [of d E val var s] by simp
next
  case (Inr v)
  obtain r1 var1 t1 where sv: "setValue v var s = (r1, var1, t1)" by (cases "setValue v var s") auto
  have "var' = var1" using assms Inr sv fromString_var [of d E val var s] by simp
  with setValue_fields(1-3) [OF sv] show ?thesis by simp
qed

text \<open>
  The states \<open>us\<close> a sequence of listeners goes through: each but the last is left by a listener
  that returned.
\<close>

definition returned_through :: "'v callback list \<Rightarrow> 'v \<Rightarrow> 'v \<Rightarrow> sys list \<Rightarrow> bool" where
  "returned_through cbs v old us \<longleftrightarrow>
     (\<forall>i. Suc i < length us \<longrightarrow> i < length cbs \<and> call_cb (cbs ! i) v old (us ! i) = (None, us ! Suc i))"

lemma run_cbs_states:
  assumes "run_cbs cbs v old s = (r, t)"
  shows "\<exists>us. us \<noteq> [] \<and> us ! 0 = s \<and> returned_through cbs v old us \<and>
    (case r of None \<Rightarrow> length us = Suc (length cbs) \<and> t = last us
     | Some e \<Rightarrow> length us \<le> length cbs \<and> call_cb (cbs ! (length us - 1)) v old (last us) = (Some e, t))"
  using assms
proof (induction cbs arbitrary: s)
  case Nil
  then show ?case by (intro exI [where x = "[s]"]) (auto simp: returned_through_def)
next
  case (Cons cb cbs)
  obtain r1 u where u: "call_cb cb v old s = (r1, u)" by force
  show ?case
  proof (cases r1)
    case (Some e)
    with Cons.prems u show ?thesis
      by (intro exI [where x = "[s]"]) (auto simp: returned_through_def)
  next
    case None
    with Cons.prems u have "run_cbs cbs v old u = (r, t)" by simp
    from Cons.IH [OF this] obtain us where us: "us \<noteq> []" "us ! 0 = u" "returned_through cbs v old us"
      "case r of None \<Rightarrow> length us = Suc (length cbs) \<and> t = last us
       | Some e \<Rightarrow> length us \<le> length cbs \<and> call_cb (cbs ! (length us - 1)) v old (last us) = (Some e, t)"
      by blast
    have "returned_through (cb # cbs) v old (s # us)"
      using us(1-3) u None by (auto simp: returned_through_def nth_Cons split: nat.splits)
    moreover have "(cb # cbs) ! length us = cbs ! (length us - 1)" using us(1) by (cases us) simp_all
    ultimately show ?thesis
      using us by (intro exI [where x = "s # us"]) (auto split: option.splits)
  qed
qed

text \<open>
  C21 (ConfigVar::setValue). An equal value changes nothing and notifies nobody. A new value is
  stored before the listeners run; they run once each, in the order of their ids, with the new
  and the old value, up to the first one that throws; the value stays the new one even then.
\<close>

theorem setValue_notifies:
  assumes "cvar_wf var" and "setValue v var s = (r, var', t)"
  shows "if vt_eq (cv_type var) (cv_value var) v then r = None \<and> var' = var \<and> t = s
    else var' = var\<lparr>cv_value := v\<rparr> \<and> sorted_wrt (<) (map fst (cv_cbs var)) \<and>
      (\<exists>us. us \<noteq> [] \<and> us ! 0 = s \<and>
         returned_through (map snd (cv_cbs var)) v (cv_value var) us \<and>
         (case r of
            None \<Rightarrow> length us = Suc (length (cv_cbs var)) \<and> t = last us
          | Some e \<Rightarrow> length us \<le> length (cv_cbs var) \<and>
              call_cb (snd (cv_cbs var ! (length us - 1))) v (cv_value var) (last us) = (Some e, t)))"
proof (cases "vt_eq (cv_type var) (cv_value var) v")
  case True
  with assms(2) show ?thesis by (auto simp: setValue_def)
next
  case False
  then have run: "run_cbs (map snd (cv_cbs var)) v (cv_value var) s = (r, t)" and var': "var' = var\<lparr>cv_value := v\<rparr>"
    using assms(2) by (auto simp: setValue_def split: prod.splits)
  from run_cbs_states [OF run, unfolded length_map] obtain us where us: "us \<noteq> []" "us ! 0 = s"
    "returned_through (map snd (cv_cbs var)) v (cv_value var) us"
    "case r of None \<Rightarrow> length us = Suc (length (cv_cbs var)) \<and> t = last us
     | Some e \<Rightarrow> length us \<le> length (cv_cbs var) \<and>
         call_cb (map snd (cv_cbs var) ! (length us - 1)) v (cv_value var) (last us) = (Some e, t)"
    by blast
  have "map snd (cv_cbs var) ! (length us - 1) = snd (cv_cbs var ! (length us - 1))"
    if "length us \<le> length (cv_cbs var)"
    using that us(1) by (cases us) simp_all
  with us False var' assms(1) show ?thesis
    by (auto simp: cvar_wf_def smap_ok_def split: option.splits)
qed

definition flag_type :: "bool vtype" where
  "flag_type = \<lparr>vt_name = ''bool'', vt_eq = (=),
     vt_from = (\<lambda>str. if str = ''1'' then Inr True else if str = ''0'' then Inr False
                  else Inl (ForeignException ''bad lexical cast'')),
     vt_to = (\<lambda>v. Inr (if v then ''1'' else ''0''))\<rparr>"

theorem setValue_notifies_witness:
  "setValue True (addListener 1 (Some (\<lambda>nv ov u. (Some (RuntimeError ''no''), emit [Cout ''1''] u)))
     (addListener 2 (Some (\<lambda>nv ov u. (None, emit [Cout ''2''] u))) (ConfigVar flag_type ''tcp.nodelay'' False []))) boot =
   (Some (RuntimeError ''no''),
    (addListener 1 (Some (\<lambda>nv ov u. (Some (RuntimeError ''no''), emit [Cout ''1''] u)))
     (addListener 2 (Some (\<lambda>nv ov u. (None, emit [Cout ''2''] u))) (ConfigVar flag_type ''tcp.nodelay'' True []))),
    emit [Cout ''1''] boot)"
proof -
  let ?v = "addListener 1 (Some (\<lambda>nv ov u. (Some (RuntimeError ''no''), emit [Cout ''1''] u)))
     (addListener 2 (Some (\<lambda>nv ov u. (None, emit [Cout ''2''] u))) (ConfigVar flag_type ''tcp.nodelay'' False []))"
  obtain r var' t where sv: "setValue True ?v boot = (r, var', t)" by (cases "setValue True ?v boot") auto
  have "cvar_wf ?v"
    by (simp add: cvar_wf_def addListener_def ConfigVar_def smap_ok_def)
  from setValue_notifies [OF this sv] have "var' = ?v\<lparr>cv_value := True\<rparr>"
    by (simp add: addListener_def ConfigVar_def flag_type_def)
  moreover have "r = Some (RuntimeError ''no'')" "t = emit [Cout ''1''] boot"
    using sv by (simp_all add: setValue_def addListener_def ConfigVar_def flag_type_def call_cb_def)
  ultimately show ?thesis using sv by (simp add: addListener_def ConfigVar_def)
qed

section \<open>Setting a variable from text\<close>

lemma config_log_returns:
  assumes "sys_wf s" and "root_safe s"
  shows "\<exists>t. config_log (Suc (Suc d)) E lv line msg s = Inr t \<and> log_frame s t"
proof -
  have "s_root s < length (s_loggers s)" using assms(1) by (simp add: sys_wf_def)
  from ZNS_LOG_returns [OF assms this] show ?thesis unfolding config_log_def safe_from_def by blast
qed

lemma fromString_failed_returns:
  assumes "sys_wf s" and "root_safe s" and "is_exception e"
  shows "\<exists>t. fromString_failed (Suc (Suc d)) E e var s = (Inr False, var, t) \<and> log_frame s t"
proof -
  obtain t where "config_log (Suc (Suc d)) E ERROR 234
      (''ConfigVar::fromString() error, name='' @ cv_name var @ '' exception: '' @ what e) s = Inr t" "log_frame s t"
    using config_log_returns [OF assms(1,2)] by blast
  then show ?thesis using assms(3) by (simp add: fromString_failed_def)
qed

text \<open>
  C22 (ConfigVar::fromString). A text the cast rejects leaves the variable alone and answers
  false; a text for an equal value answers true and notifies nobody; a new value is stored, and
  the answer is true when every listener returns and false when one throws: false does not mean
  that the value is the old one.
\<close>

theorem fromString_outcome:
  "case vt_from (cv_type var) val of
     Inl e \<Rightarrow> is_exception e \<and> sys_wf s \<and> root_safe s \<longrightarrow>
       (\<exists>t. fromString (Suc (Suc d)) E val var s = (Inr False, var, t) \<and> log_frame s t)
   | Inr v \<Rightarrow>
       if vt_eq (cv_type var) (cv_value var) v then fromString (Suc (Suc d)) E val var s = (Inr True, var, s)
       else (case run_cbs (map snd (cv_cbs var)) v (cv_value var) s of
          (None, t) \<Rightarrow> fromString (Suc (Suc d)) E val var s = (Inr True, var\<lparr>cv_value := v\<rparr>, t)
        | (Some e, t) \<Rightarrow> is_exception e \<and> sys_wf t \<and> root_safe t \<longrightarrow>
            (\<exists>u. fromString (Suc (Suc d)) E val var s = (Inr False, var\<lparr>cv_value := v\<rparr>, u) \<and> log_frame t u))"
  using fromString_failed_returns
  by (auto simp: fromString_def setValue_def split: sum.splits prod.splits option.splits)

theorem fromString_outcome_witness:
  "\<exists>u. fromString 2 (sample_env (\<lambda>_. True)) ''1'' (addListener 1 None (ConfigVar flag_type ''tcp.nodelay'' False [])) boot =
     (Inr False, addListener 1 None (ConfigVar flag_type ''tcp.nodelay'' True []), u)"
proof -
  let ?var = "addListener 1 None (ConfigVar flag_type ''tcp.nodelay'' False [])"
  have run: "run_cbs (map snd (cv_cbs ?var)) True (cv_value ?var) boot =
      (Some (ForeignException ''bad_function_call''), boot)"
    by (simp add: addListener_def ConfigVar_def call_cb_def)
  have ty: "vt_from (cv_type ?var) ''1'' = Inr True" "\<not> vt_eq (cv_type ?var) (cv_value ?var) True"
    by (simp_all add: addListener_def ConfigVar_def flag_type_def)
  have "\<exists>u. fromString (Suc (Suc 0)) (sample_env (\<lambda>_. True)) ''1'' ?var boot = (Inr False, ?var\<lparr>cv_value := True\<rparr>, u)"
    using fromString_outcome [where var = ?var and val = "''1''" and s = boot and d = 0 and E = "sample_env (\<lambda>_. True)"] ty run sys_wf_boot boot_root_safe
    by auto
  then show ?thesis by (simp add: numeral_2_eq_2 addListener_def ConfigVar_def)
qed

end
