(* ===== verification/Yaml.thy ===== *)
theory Yaml
  imports ZPrelude
begin

text \<open>
  yaml-cpp as the code uses it. The library is not part of the repository: its operations are a
  record of functions, an argument of every definition that uses them, over a type of node
  contents. What the code relies on is the predicate \<open>yaml_laws\<close>: documents built with
  \<^verbatim>\<open>operator[]\<close>, assignment and \<^verbatim>\<open>push_back\<close> read back as built, also after \<^verbatim>\<open>Dump\<close> or
  \<^verbatim>\<open>operator<<\<close> and \<^verbatim>\<open>Load\<close>. A concrete library of trees shows that the laws can hold.
  Strings stand for the texts yaml-cpp writes and reads back unchanged, which are those in valid
  UTF-8; where the laws are used for patterns, paths and names, these are taken to be such texts.
\<close>

section \<open>The operations\<close>

record 'n yaml =
  y_Load :: "string \<Rightarrow> 'n res"
  y_LoadFile :: "string \<Rightarrow> 'n res"
  y_Dump :: "'n \<Rightarrow> string"
  y_print :: "'n \<Rightarrow> string"
  y_null :: 'n
  y_str :: "string \<Rightarrow> 'n"
  y_IsDefined :: "'n \<Rightarrow> bool"
  y_IsScalar :: "'n \<Rightarrow> bool"
  y_IsMap :: "'n \<Rightarrow> bool"
  y_Scalar :: "'n \<Rightarrow> string"
  y_as_string :: "'n \<Rightarrow> string res"
  y_size :: "'n \<Rightarrow> nat"
  y_index :: "'n \<Rightarrow> nat \<Rightarrow> 'n"
  y_get :: "'n \<Rightarrow> string \<Rightarrow> 'n"
  y_pairs :: "'n \<Rightarrow> ('n \<times> 'n) list"
  y_push_back :: "'n \<Rightarrow> 'n \<Rightarrow> 'n"
  y_set :: "'n \<Rightarrow> string \<Rightarrow> 'n \<Rightarrow> 'n"

section \<open>The laws\<close>

definition y_seq :: "'n yaml \<Rightarrow> 'n list \<Rightarrow> 'n" where
  "y_seq Y ms = foldl (y_push_back Y) (y_null Y) ms"

definition y_map :: "'n yaml \<Rightarrow> (string \<times> 'n) list \<Rightarrow> 'n" where
  "y_map Y kvs = foldl (\<lambda>n (k, v). y_set Y n k v) (y_null Y) kvs"

inductive built :: "'n yaml \<Rightarrow> 'n \<Rightarrow> bool" for Y :: "'n yaml" where
  str: "built Y (y_str Y s)"
| seq: "\<forall>m \<in> set ms. built Y m \<Longrightarrow> built Y (y_seq Y ms)"
| map: "distinct (map fst kvs) \<Longrightarrow> \<forall>m \<in> snd ` set kvs. built Y m \<Longrightarrow> built Y (y_map Y kvs)"

definition reads_back :: "'n yaml \<Rightarrow> bool" where
  "reads_back Y \<longleftrightarrow> (\<forall>n. built Y n \<longrightarrow> y_Load Y (y_Dump Y n) = Inr n \<and> y_Load Y (y_print Y n) = Inr n)"

definition str_laws :: "'n yaml \<Rightarrow> bool" where
  "str_laws Y \<longleftrightarrow> (\<forall>s. y_as_string Y (y_str Y s) = Inr s \<and> y_IsScalar Y (y_str Y s) \<and>
     y_Scalar Y (y_str Y s) = s \<and> y_IsDefined Y (y_str Y s) \<and> \<not> y_IsMap Y (y_str Y s))"

definition seq_laws :: "'n yaml \<Rightarrow> bool" where
  "seq_laws Y \<longleftrightarrow> (\<forall>ms. y_size Y (y_seq Y ms) = length ms \<and> \<not> y_IsMap Y (y_seq Y ms) \<and>
     \<not> y_IsScalar Y (y_seq Y ms) \<and> (ms \<noteq> [] \<longrightarrow> y_IsDefined Y (y_seq Y ms)) \<and>
     (\<forall>i < length ms. y_index Y (y_seq Y ms) i = ms ! i))"

text \<open>A key that is not there gives an undefined node, which \<^verbatim>\<open>push_back\<close> takes as an empty one.\<close>

definition map_laws :: "'n yaml \<Rightarrow> bool" where
  "map_laws Y \<longleftrightarrow> (\<forall>kvs. distinct (map fst kvs) \<longrightarrow>
     (kvs \<noteq> [] \<longrightarrow> y_IsMap Y (y_map Y kvs) \<and> \<not> y_IsScalar Y (y_map Y kvs)) \<and>
     y_pairs Y (y_map Y kvs) = map (\<lambda>(k, v). (y_str Y k, v)) kvs \<and>
     (\<forall>k. case map_of kvs k of
        Some v \<Rightarrow> y_get Y (y_map Y kvs) k = v \<and>
          (\<forall>w. y_set Y (y_map Y kvs) k w = y_map Y (map (\<lambda>(j, v). (j, if j = k then w else v)) kvs))
      | None \<Rightarrow> \<not> y_IsDefined Y (y_get Y (y_map Y kvs) k) \<and>
          (\<forall>m. y_push_back Y (y_get Y (y_map Y kvs) k) m = y_push_back Y (y_null Y) m)))"

definition yaml_laws :: "'n yaml \<Rightarrow> bool" where
  "yaml_laws Y \<longleftrightarrow> reads_back Y \<and> str_laws Y \<and> seq_laws Y \<and> map_laws Y"

lemma yaml_laws_str:
  assumes "yaml_laws Y"
  shows "y_as_string Y (y_str Y s) = Inr s" "y_IsScalar Y (y_str Y s)" "y_Scalar Y (y_str Y s) = s"
    "y_IsDefined Y (y_str Y s)" "\<not> y_IsMap Y (y_str Y s)"
  using assms by (auto simp: yaml_laws_def str_laws_def)

lemma yaml_laws_seq:
  assumes "yaml_laws Y"
  shows "y_size Y (y_seq Y ms) = length ms" "\<not> y_IsScalar Y (y_seq Y ms)" "\<not> y_IsMap Y (y_seq Y ms)"
    "ms \<noteq> [] \<Longrightarrow> y_IsDefined Y (y_seq Y ms)"
    "i < length ms \<Longrightarrow> y_index Y (y_seq Y ms) i = ms ! i"
  using assms by (auto simp: yaml_laws_def seq_laws_def)

lemma yaml_laws_map:
  assumes "yaml_laws Y" and "distinct (map fst kvs)"
  shows "kvs \<noteq> [] \<Longrightarrow> y_IsMap Y (y_map Y kvs)" "kvs \<noteq> [] \<Longrightarrow> \<not> y_IsScalar Y (y_map Y kvs)"
    "y_pairs Y (y_map Y kvs) = map (\<lambda>(k, v). (y_str Y k, v)) kvs"
    "map_of kvs k = Some v \<Longrightarrow> y_get Y (y_map Y kvs) k = v"
    "map_of kvs k = Some v \<Longrightarrow>
       y_set Y (y_map Y kvs) k w = y_map Y (map (\<lambda>(j, v). (j, if j = k then w else v)) kvs)"
    "map_of kvs k = None \<Longrightarrow> \<not> y_IsDefined Y (y_get Y (y_map Y kvs) k)"
    "map_of kvs k = None \<Longrightarrow>
       y_push_back Y (y_get Y (y_map Y kvs) k) m = y_push_back Y (y_null Y) m"
proof -
  have law: "(kvs \<noteq> [] \<longrightarrow> y_IsMap Y (y_map Y kvs) \<and> \<not> y_IsScalar Y (y_map Y kvs)) \<and>
     y_pairs Y (y_map Y kvs) = map (\<lambda>(k, v). (y_str Y k, v)) kvs \<and>
     (case map_of kvs k of
        Some v \<Rightarrow> y_get Y (y_map Y kvs) k = v \<and>
          (\<forall>w. y_set Y (y_map Y kvs) k w = y_map Y (map (\<lambda>(j, v). (j, if j = k then w else v)) kvs))
      | None \<Rightarrow> \<not> y_IsDefined Y (y_get Y (y_map Y kvs) k) \<and>
          (\<forall>m. y_push_back Y (y_get Y (y_map Y kvs) k) m = y_push_back Y (y_null Y) m))"
    using assms unfolding yaml_laws_def map_laws_def by blast
  then show "kvs \<noteq> [] \<Longrightarrow> y_IsMap Y (y_map Y kvs)" "kvs \<noteq> [] \<Longrightarrow> \<not> y_IsScalar Y (y_map Y kvs)"
    "y_pairs Y (y_map Y kvs) = map (\<lambda>(k, v). (y_str Y k, v)) kvs"
    by auto
  show "map_of kvs k = Some v \<Longrightarrow> y_get Y (y_map Y kvs) k = v" using law by simp
  show "map_of kvs k = Some v \<Longrightarrow>
       y_set Y (y_map Y kvs) k w = y_map Y (map (\<lambda>(j, v). (j, if j = k then w else v)) kvs)"
    using law by simp
  show "map_of kvs k = None \<Longrightarrow> \<not> y_IsDefined Y (y_get Y (y_map Y kvs) k)" using law by simp
  show "map_of kvs k = None \<Longrightarrow>
       y_push_back Y (y_get Y (y_map Y kvs) k) m = y_push_back Y (y_null Y) m"
    using law by simp
qed

lemma yaml_laws_load:
  assumes "yaml_laws Y" and "built Y n"
  shows "y_Load Y (y_Dump Y n) = Inr n" "y_Load Y (y_print Y n) = Inr n"
  using assms by (auto simp: yaml_laws_def reads_back_def)

lemma y_seq_snoc: "y_push_back Y (y_seq Y ms) m = y_seq Y (ms @ [m])"
  by (simp add: y_seq_def)

lemma y_map_snoc: "y_set Y (y_map Y kvs) k v = y_map Y (kvs @ [(k, v)])"
  by (simp add: y_map_def)

lemma y_null_eq: "y_null Y = y_seq Y []" "y_null Y = y_map Y []"
  by (simp_all add: y_seq_def y_map_def)

section \<open>A library of trees\<close>

datatype ynode = YUndef | YNull | YScalar string | YSeq "ynode list" | YMap "(string \<times> ynode) list"

definition enc_str :: "string \<Rightarrow> string" where
  "enc_str s = concat (map (\<lambda>c. [CHR ''x'', c]) s) @ ''.''"

fun enc :: "ynode \<Rightarrow> string" where
  "enc YUndef = ''U''"
| "enc YNull = ''N''"
| "enc (YScalar s) = ''S'' @ enc_str s"
| "enc (YSeq ns) = ''['' @ concat (map enc ns) @ '']''"
| "enc (YMap kvs) = ''{'' @ concat (map (\<lambda>(k, v). enc_str k @ enc v) kvs) @ ''}''"

fun dec_str :: "string \<Rightarrow> (string \<times> string) option" where
  "dec_str [] = None"
| "dec_str [c] = (if c = CHR ''.'' then Some ([], []) else None)"
| "dec_str (c # d # r) =
     (if c = CHR ''.'' then Some ([], d # r)
      else (case dec_str r of None \<Rightarrow> None | Some (s, t) \<Rightarrow> Some (d # s, t)))"

fun dec :: "nat \<Rightarrow> string \<Rightarrow> (ynode \<times> string) option"
  and dec_list :: "nat \<Rightarrow> string \<Rightarrow> (ynode list \<times> string) option"
  and dec_pairs :: "nat \<Rightarrow> string \<Rightarrow> ((string \<times> ynode) list \<times> string) option" where
  "dec 0 s = None"
| "dec (Suc k) [] = None"
| "dec (Suc k) (c # r) =
     (if c = CHR ''U'' then Some (YUndef, r)
      else if c = CHR ''N'' then Some (YNull, r)
      else if c = CHR ''S'' then map_option (\<lambda>(s, t). (YScalar s, t)) (dec_str r)
      else if c = CHR ''['' then map_option (\<lambda>(ns, t). (YSeq ns, t)) (dec_list k r)
      else if c = CHR ''{'' then map_option (\<lambda>(ns, t). (YMap ns, t)) (dec_pairs k r)
      else None)"
| "dec_list 0 s = None"
| "dec_list (Suc k) [] = None"
| "dec_list (Suc k) (c # r) =
     (if c = CHR '']'' then Some ([], r)
      else (case dec k (c # r) of None \<Rightarrow> None
            | Some (n, t) \<Rightarrow> map_option (\<lambda>(ns, u). (n # ns, u)) (dec_list k t)))"
| "dec_pairs 0 s = None"
| "dec_pairs (Suc k) [] = None"
| "dec_pairs (Suc k) (c # r) =
     (if c = CHR ''}'' then Some ([], r)
      else (case dec_str (c # r) of None \<Rightarrow> None
            | Some (key, t) \<Rightarrow> (case dec k t of None \<Rightarrow> None
               | Some (n, u) \<Rightarrow> map_option (\<lambda>(ns, w). ((key, n) # ns, w)) (dec_pairs k u))))"

lemma dec_enc_str: "dec_str (enc_str s @ r) = Some (s, r)"
proof (induction s)
  case Nil
  show ?case by (cases r) (simp_all add: enc_str_def)
next
  case (Cons c s)
  then show ?case by (simp add: enc_str_def)
qed

lemma enc_Cons: "\<exists>c r. enc n = c # r \<and> c \<noteq> CHR '']''"
  by (cases n) simp_all

lemma enc_str_Cons: "\<exists>c r. enc_str s = c # r \<and> c \<noteq> CHR ''}''"
  by (cases s) (simp_all add: enc_str_def)

lemma dec_list_enc:
  assumes "\<And>n k r. n \<in> set ns \<Longrightarrow> length (enc n) \<le> k \<Longrightarrow> dec k (enc n @ r) = Some (n, r)"
    and "Suc (length (concat (map enc ns))) \<le> k"
  shows "dec_list k (concat (map enc ns) @ CHR '']'' # r) = Some (ns, r)"
  using assms
proof (induction ns arbitrary: k)
  case Nil
  then show ?case by (cases k) simp_all
next
  case (Cons n ns)
  obtain j where k: "k = Suc j" using Cons.prems(2) by (cases k) simp_all
  obtain c t where c: "enc n = c # t" "c \<noteq> CHR '']''" using enc_Cons by blast
  let ?r = "concat (map enc ns) @ CHR '']'' # r"
  have "length (enc n) \<le> j" using Cons.prems(2) k c by simp
  then have "dec j (enc n @ ?r) = Some (n, ?r)" by (intro Cons.prems(1)) simp_all
  moreover have "dec_list j ?r = Some (ns, r)" using Cons.prems k c by (intro Cons.IH) simp_all
  ultimately show ?case using k c by simp
qed

lemma dec_pairs_enc:
  assumes "\<And>key n k r. (key, n) \<in> set kvs \<Longrightarrow> length (enc n) \<le> k \<Longrightarrow> dec k (enc n @ r) = Some (n, r)"
    and "Suc (length (concat (map (\<lambda>(k, v). enc_str k @ enc v) kvs))) \<le> k"
  shows "dec_pairs k (concat (map (\<lambda>(k, v). enc_str k @ enc v) kvs) @ CHR ''}'' # r) = Some (kvs, r)"
  using assms
proof (induction kvs arbitrary: k)
  case Nil
  then show ?case by (cases k) simp_all
next
  case (Cons e kvs)
  obtain key n where e: "e = (key, n)" by (cases e)
  obtain j where k: "k = Suc j" using Cons.prems(2) by (cases k) simp_all
  obtain c t where c: "enc_str key = c # t" "c \<noteq> CHR ''}''" using enc_str_Cons by blast
  let ?r = "concat (map (\<lambda>(k, v). enc_str k @ enc v) kvs) @ CHR ''}'' # r"
  have key: "dec_str (enc_str key @ enc n @ ?r) = Some (key, enc n @ ?r)" by (rule dec_enc_str)
  have "length (enc n) \<le> j" using Cons.prems(2) k e c by simp
  then have "dec j (enc n @ ?r) = Some (n, ?r)" using e by (intro Cons.prems(1) [where key = key]) simp_all
  moreover have "dec_pairs j ?r = Some (kvs, r)"
  proof (rule Cons.IH)
    show "dec k' (enc n' @ r') = Some (n', r')"
      if "(key', n') \<in> set kvs" "length (enc n') \<le> k'" for key' n' k' r'
      using that by (intro Cons.prems(1) [where key = key']) simp_all
  qed (use Cons.prems(2) k e c in simp)
  ultimately show ?case using key k c e by simp
qed

lemma dec_enc: "length (enc n) \<le> k \<Longrightarrow> dec k (enc n @ r) = Some (n, r)"
proof (induction n arbitrary: k r)
  case (YSeq ns)
  then obtain j where k: "k = Suc j" by (cases k) simp_all
  then have "dec_list j (concat (map enc ns) @ CHR '']'' # r) = Some (ns, r)"
    using YSeq by (intro dec_list_enc) simp_all
  then show ?case using k by simp
next
  case (YMap kvs)
  then obtain j where k: "k = Suc j" by (cases k) simp_all
  then have "dec_pairs j (concat (map (\<lambda>(k, v). enc_str k @ enc v) kvs) @ CHR ''}'' # r) = Some (kvs, r)"
    using YMap by (intro dec_pairs_enc) fastforce+
  then show ?case using k by simp
next
  case (YScalar s)
  then show ?case by (cases k) (simp_all add: dec_enc_str)
qed (case_tac [!] k, simp_all)


text \<open>The operations on trees.\<close>

definition tree_Load :: "string \<Rightarrow> ynode res" where
  "tree_Load s = (case dec (length s) s of
      Some (n, []) \<Rightarrow> Inr n | _ \<Rightarrow> Inl (ForeignException ''yaml-cpp: error''))"

definition tree_get :: "ynode \<Rightarrow> string \<Rightarrow> ynode" where
  "tree_get n k = (case n of
      YMap kvs \<Rightarrow> (case map_of kvs k of None \<Rightarrow> YUndef | Some v \<Rightarrow> v)
    | _ \<Rightarrow> YUndef)"

definition tree_set :: "ynode \<Rightarrow> string \<Rightarrow> ynode \<Rightarrow> ynode" where
  "tree_set n k w = (case n of
      YMap kvs \<Rightarrow>
        (if k \<in> fst ` set kvs then YMap (map (\<lambda>(j, v). (j, if j = k then w else v)) kvs)
         else YMap (kvs @ [(k, w)]))
    | _ \<Rightarrow> YMap [(k, w)])"

definition tree_push_back :: "ynode \<Rightarrow> ynode \<Rightarrow> ynode" where
  "tree_push_back n m = (case n of YSeq ns \<Rightarrow> YSeq (ns @ [m]) | _ \<Rightarrow> YSeq [m])"

definition tree_yaml :: "(string \<Rightarrow> string option) \<Rightarrow> ynode yaml" where
  "tree_yaml disk = \<lparr>y_Load = tree_Load,
     y_LoadFile = (\<lambda>f. case disk f of None \<Rightarrow> Inl (ForeignException ''bad file'') | Some s \<Rightarrow> tree_Load s),
     y_Dump = enc, y_print = enc, y_null = YNull, y_str = YScalar,
     y_IsDefined = (\<lambda>n. n \<noteq> YUndef),
     y_IsScalar = (\<lambda>n. case n of YScalar _ \<Rightarrow> True | _ \<Rightarrow> False),
     y_IsMap = (\<lambda>n. case n of YMap _ \<Rightarrow> True | _ \<Rightarrow> False),
     y_Scalar = (\<lambda>n. case n of YScalar s \<Rightarrow> s | _ \<Rightarrow> []),
     y_as_string = (\<lambda>n. case n of YScalar s \<Rightarrow> Inr s | _ \<Rightarrow> Inl (ForeignException ''bad conversion'')),
     y_size = (\<lambda>n. case n of YSeq ns \<Rightarrow> length ns | YMap kvs \<Rightarrow> length kvs | _ \<Rightarrow> 0),
     y_index = (\<lambda>n i. case n of YSeq ns \<Rightarrow> if i < length ns then ns ! i else YUndef | _ \<Rightarrow> YUndef),
     y_get = tree_get,
     y_pairs = (\<lambda>n. case n of YMap kvs \<Rightarrow> map (\<lambda>(k, v). (YScalar k, v)) kvs | _ \<Rightarrow> []),
     y_push_back = tree_push_back, y_set = tree_set\<rparr>"

lemma tree_Load_enc: "tree_Load (enc n) = Inr n"
  using dec_enc [where r = "[]"] by (simp add: tree_Load_def)

lemma tree_reads_back: "reads_back (tree_yaml disk)"
  by (simp add: reads_back_def tree_yaml_def tree_Load_enc)

lemma tree_str_laws: "str_laws (tree_yaml disk)"
  by (simp add: str_laws_def tree_yaml_def)

lemma tree_seq: "y_seq (tree_yaml disk) ms = (if ms = [] then YNull else YSeq ms)"
  by (induction ms rule: rev_induct) (auto simp: y_seq_def tree_yaml_def tree_push_back_def)

lemma tree_seq_laws: "seq_laws (tree_yaml disk)"
  by (simp add: seq_laws_def tree_seq) (simp add: tree_yaml_def)

lemma tree_map:
  "distinct (map fst kvs) \<Longrightarrow> y_map (tree_yaml disk) kvs = (if kvs = [] then YNull else YMap kvs)"
  by (induction kvs rule: rev_induct) (auto simp: y_map_def tree_yaml_def tree_set_def)

lemma tree_map_laws: "map_laws (tree_yaml disk)"
proof -
  have dist: "map fst (map (\<lambda>(j, v). (j, if j = k then w else v)) kvs) = map fst kvs"
    for kvs :: "(string \<times> ynode) list" and k w by (induction kvs) auto
  have mem: "map_of kvs k = Some v \<Longrightarrow> k \<in> fst ` set kvs" for kvs :: "(string \<times> ynode) list" and k v
    by (force dest: map_of_SomeD)
  show ?thesis
    unfolding map_laws_def
  proof (intro allI impI conjI)
    fix kvs :: "(string \<times> ynode) list" and k
    assume d: "distinct (map fst kvs)"
    show "kvs \<noteq> [] \<Longrightarrow> y_IsMap (tree_yaml disk) (y_map (tree_yaml disk) kvs)"
      "kvs \<noteq> [] \<Longrightarrow> \<not> y_IsScalar (tree_yaml disk) (y_map (tree_yaml disk) kvs)"
      "y_pairs (tree_yaml disk) (y_map (tree_yaml disk) kvs) = map (\<lambda>(k, v). (y_str (tree_yaml disk) k, v)) kvs"
      unfolding tree_map [OF d] by (simp_all add: tree_yaml_def)
    show "case map_of kvs k of
        Some v \<Rightarrow> y_get (tree_yaml disk) (y_map (tree_yaml disk) kvs) k = v \<and>
          (\<forall>w. y_set (tree_yaml disk) (y_map (tree_yaml disk) kvs) k w =
             y_map (tree_yaml disk) (map (\<lambda>(j, v). (j, if j = k then w else v)) kvs))
      | None \<Rightarrow> \<not> y_IsDefined (tree_yaml disk) (y_get (tree_yaml disk) (y_map (tree_yaml disk) kvs) k) \<and>
          (\<forall>m. y_push_back (tree_yaml disk) (y_get (tree_yaml disk) (y_map (tree_yaml disk) kvs) k) m =
             y_push_back (tree_yaml disk) (y_null (tree_yaml disk)) m)"
    proof (cases "map_of kvs k")
      case None
      then show ?thesis unfolding tree_map [OF d]
        by (auto simp: tree_yaml_def tree_get_def tree_push_back_def)
    next
      case (Some v)
      have d': "distinct (map fst (map (\<lambda>(j, v). (j, if j = k then w else v)) kvs))" for w
        unfolding dist by (rule d)
      from Some mem [OF Some] show ?thesis
        unfolding option.case(2) tree_map [OF d] tree_map [OF d']
        by (auto simp: tree_yaml_def tree_get_def tree_set_def)
    qed
  qed
qed

lemma tree_yaml_laws: "yaml_laws (tree_yaml disk)"
  by (simp add: yaml_laws_def tree_reads_back tree_str_laws tree_seq_laws tree_map_laws)

end
