(* ===== verification/ConfigRegistry.thy ===== *)
theory ConfigRegistry
  imports ConfigVar Yaml Transitions
begin

text \<open>
  \<^verbatim>\<open>class Config\<close> (\<^verbatim>\<open>server/config.h\<close>, \<^verbatim>\<open>server/config.cpp\<close>): the registry of configuration
  variables and the loader of YAML documents. Variables are shared objects, kept in a store and
  referred to by their index. The depth argument of \<open>ListAllYamlMember\<close> is the stack the
  recursion has left.
\<close>

record 'v cfg =
  c_vars :: "'v cvar list"
  c_datas :: "(string, nat) smap"
  c_sys :: sys

definition upd_var :: "nat \<Rightarrow> ('v cvar \<Rightarrow> 'v cvar) \<Rightarrow> 'v cfg \<Rightarrow> 'v cfg" where
  "upd_var i f c = c\<lparr>c_vars := (c_vars c)[i := f (c_vars c ! i)]\<rparr>"

section \<open>Lookup and creation\<close>

definition LookupBase :: "string \<Rightarrow> 'v cfg \<Rightarrow> nat option" where
  "LookupBase name c = smap_find (c_datas c) name"

text \<open>\<^verbatim>\<open>dynamic_pointer_cast<ConfigVar<T>>\<close>.\<close>

definition cast_var :: "'v vtype \<Rightarrow> nat \<Rightarrow> 'v cfg \<Rightarrow> nat option" where
  "cast_var T i c = (if vt_name (cv_type (c_vars c ! i)) = vt_name T then Some i else None)"

definition Lookup :: "'v vtype \<Rightarrow> string \<Rightarrow> 'v cfg \<Rightarrow> nat option" where
  "Lookup T name c = (case LookupBase name c of None \<Rightarrow> None | Some i \<Rightarrow> cast_var T i c)"

text \<open>No character of the string is outside the given ones.\<close>

definition name_chars :: string where
  "name_chars = ''abcdefghijklmnopqrstuvwxyzABCDEFGHIJKLMNOPQRSTUVWXYZ0123456789._''"

definition valid_name :: "string \<Rightarrow> bool" where
  "valid_name name \<longleftrightarrow> list_all (\<lambda>c. c \<in> set name_chars) name"

definition Create ::
  "nat \<Rightarrow> env \<Rightarrow> 'v vtype \<Rightarrow> string \<Rightarrow> 'v \<Rightarrow> string \<Rightarrow> 'v cfg \<Rightarrow> nat res \<times> 'v cfg" where
  "Create d E T name val description c =
     (case LookupBase name c of
        Some i \<Rightarrow>
          (case cast_var T i c of
             Some j \<Rightarrow>
               (case config_log d E INFO 292 (''Config::Create name='' @ name @ '' already exists'') (c_sys c) of
                  Inl e \<Rightarrow> (Inl e, c)
                | Inr s \<Rightarrow> (Inr j, c\<lparr>c_sys := s\<rparr>))
           | None \<Rightarrow>
               (Inl (LogicError (''Config::Create: Name Conflict! '' @ name @
                       '' already exist, but type is not '' @ vt_name T)), c))
      | None \<Rightarrow>
          if \<not> valid_name name then
            (case config_log d E ERROR 300 (''Config::Lookup name is invalid, name='' @ name) (c_sys c) of
               Inl e \<Rightarrow> (Inl e, c)
             | Inr s \<Rightarrow> (Inl (InvalidArgument name), c\<lparr>c_sys := s\<rparr>))
          else
            (Inr (length (c_vars c)),
             c\<lparr>c_vars := c_vars c @ [ConfigVar T name val description],
               c_datas := smap_set name (length (c_vars c)) (c_datas c)\<rparr>))"

section \<open>Operations on a variable of the registry\<close>

definition var_setValue :: "nat \<Rightarrow> 'v \<Rightarrow> 'v cfg \<Rightarrow> err option \<times> 'v cfg" where
  "var_setValue i v c =
     (case setValue v (c_vars c ! i) (c_sys c) of
        (r, var, s) \<Rightarrow> (r, (upd_var i (\<lambda>_. var) c)\<lparr>c_sys := s\<rparr>))"

definition var_fromString :: "nat \<Rightarrow> env \<Rightarrow> nat \<Rightarrow> string \<Rightarrow> 'v cfg \<Rightarrow> bool res \<times> 'v cfg" where
  "var_fromString d E i val c =
     (case fromString d E val (c_vars c ! i) (c_sys c) of
        (r, var, s) \<Rightarrow> (r, (upd_var i (\<lambda>_. var) c)\<lparr>c_sys := s\<rparr>))"

section \<open>Loading a document\<close>

definition extend_prefix :: "string \<Rightarrow> string \<Rightarrow> string" where
  "extend_prefix prefix key = (if prefix = [] then key else prefix @ ''.'' @ key)"

primrec ListAllYamlMember ::
  "nat \<Rightarrow> nat \<Rightarrow> env \<Rightarrow> 'n yaml \<Rightarrow> 'n \<Rightarrow> string \<Rightarrow> (string \<times> 'n) list \<times> sys \<Rightarrow> ((string \<times> 'n) list \<times> sys) res"
where
  "ListAllYamlMember 0 d E Y = (\<lambda>node prefix os. Inl StackOverflow)"
| "ListAllYamlMember (Suc k) d E Y = (\<lambda>node prefix os.
     if \<not> valid_name prefix then
       rbind (ZNS_LOG (Logger_log d E) E (s_root (snd os)) ERROR (e_config_cpp E) 9
                (''Config::ListAllMember prefix is invalid, prefix='' @ prefix) (snd os))
         (\<lambda>s. Inr (fst os, s))
     else
       (let os1 = (fst os @ [(prefix, node)], snd os)
        in if y_IsMap Y node then
             fold_res (\<lambda>it. ListAllYamlMember k d E Y (snd it) (extend_prefix prefix (y_Scalar Y (fst it))))
               (y_pairs Y node) os1
           else Inr os1))"

definition member_text :: "'n yaml \<Rightarrow> 'n \<Rightarrow> string" where
  "member_text Y n = (if y_IsScalar Y n then y_Scalar Y n else y_print Y n)"

text \<open>The loop of \<open>LoadFromYaml\<close>; what \<open>fromString\<close> answers is not looked at.\<close>

fun load_members :: "nat \<Rightarrow> env \<Rightarrow> 'n yaml \<Rightarrow> (string \<times> 'n) list \<Rightarrow> 'v cfg \<Rightarrow> err option \<times> 'v cfg" where
  "load_members d E Y [] c = (None, c)"
| "load_members d E Y (i # is) c =
     (case LookupBase (fst i) c of
        None \<Rightarrow> load_members d E Y is c
      | Some v \<Rightarrow>
          (case var_fromString d E v (member_text Y (snd i)) c of
             (Inl e, c') \<Rightarrow> (Some e, c')
           | (Inr b, c') \<Rightarrow> load_members d E Y is c'))"

definition LoadFromYaml :: "nat \<Rightarrow> nat \<Rightarrow> env \<Rightarrow> 'n yaml \<Rightarrow> 'n \<Rightarrow> 'v cfg \<Rightarrow> err option \<times> 'v cfg" where
  "LoadFromYaml k d E Y node c =
     (case ListAllYamlMember k d E Y node [] ([], c_sys c) of
        Inl e \<Rightarrow> (Some e, c)
      | Inr (all_members, s) \<Rightarrow> load_members d E Y all_members (c\<lparr>c_sys := s\<rparr>))"

definition LoadFromYaml_file :: "nat \<Rightarrow> nat \<Rightarrow> env \<Rightarrow> 'n yaml \<Rightarrow> string \<Rightarrow> 'v cfg \<Rightarrow> err option \<times> 'v cfg" where
  "LoadFromYaml_file k d E Y filename c =
     (case y_LoadFile Y filename of
        Inl e \<Rightarrow> (Some e, c)
      | Inr root \<Rightarrow> LoadFromYaml k d E Y root c)"

section \<open>The invariant of the registry\<close>

text \<open>
  The map is ordered, a key is the name of the variable it is bound to, and so no variable is
  bound twice; names are valid; the listeners of a variable are ordered by id.
\<close>

definition cfg_wf :: "'v cfg \<Rightarrow> bool" where
  "cfg_wf c \<longleftrightarrow> smap_ok (c_datas c) \<and>
     (\<forall>k i. smap_find (c_datas c) k = Some i \<longrightarrow>
        i < length (c_vars c) \<and> cv_name (c_vars c ! i) = k \<and> valid_name k) \<and>
     (\<forall>i < length (c_vars c). cvar_wf (c_vars c ! i) \<and>
        smap_find (c_datas c) (cv_name (c_vars c ! i)) = Some i)"

text \<open>What no operation does to a variable: change its name, description-bound place or type.\<close>

definition same_vars :: "'v cfg \<Rightarrow> 'v cfg \<Rightarrow> bool" where
  "same_vars c c' \<longleftrightarrow> length (c_vars c) \<le> length (c_vars c') \<and>
     (\<forall>i < length (c_vars c). cv_name (c_vars c' ! i) = cv_name (c_vars c ! i) \<and>
        cv_type (c_vars c' ! i) = cv_type (c_vars c ! i)) \<and>
     (\<forall>k i. smap_find (c_datas c) k = Some i \<longrightarrow> smap_find (c_datas c') k = Some i)"

lemma same_vars_refl [simp]: "same_vars c c"
  by (simp add: same_vars_def)

lemma same_vars_trans [trans]: "same_vars c c' \<Longrightarrow> same_vars c' c'' \<Longrightarrow> same_vars c c''"
  by (auto simp: same_vars_def)

definition cfg_ok :: "'v cfg \<Rightarrow> 'v cfg \<Rightarrow> bool" where
  "cfg_ok c c' \<longleftrightarrow> cfg_wf c' \<and> same_vars c c'"

lemma cfg_ok_sys: "cfg_wf c \<Longrightarrow> cfg_ok c (c\<lparr>c_sys := s\<rparr>)"
  by (simp add: cfg_ok_def cfg_wf_def same_vars_def)

lemma cfg_ok_refl: "cfg_wf c \<Longrightarrow> cfg_ok c c"
  by (simp add: cfg_ok_def)

lemma cfg_ok_trans: "cfg_ok c c' \<Longrightarrow> cfg_ok c' c'' \<Longrightarrow> cfg_ok c c''"
  by (auto simp: cfg_ok_def intro: same_vars_trans)

lemma cfg_ok_update:
  assumes "cfg_wf c" and "cv_name var = cv_name (c_vars c ! i)" and "cv_type var = cv_type (c_vars c ! i)"
    and "cvar_wf (c_vars c ! i) \<Longrightarrow> cvar_wf var"
  shows "cfg_ok c ((upd_var i (\<lambda>_. var) c)\<lparr>c_sys := s\<rparr>)"
proof -
  have "cv_name ((c_vars c)[i := var] ! j) = cv_name (c_vars c ! j)" for j
    using assms(2) by (cases "i < length (c_vars c)"; cases "j = i") (simp_all add: list_update_beyond)
  moreover have "cv_type ((c_vars c)[i := var] ! j) = cv_type (c_vars c ! j)" for j
    using assms(3) by (cases "i < length (c_vars c)"; cases "j = i") (simp_all add: list_update_beyond)
  moreover have "cvar_wf ((c_vars c)[i := var] ! j)" if "j < length (c_vars c)" for j
    using that assms(1,4) by (cases "j = i") (simp_all add: cfg_wf_def)
  ultimately show ?thesis using assms(1)
    by (simp add: cfg_ok_def same_vars_def cfg_wf_def upd_var_def)
qed

lemma Create_ok:
  assumes "cfg_wf c" and "Create d E T name val desc c = (r, c')"
  shows "cfg_ok c c'"
proof (cases "LookupBase name c")
  case (Some i)
  with assms show ?thesis
    by (auto simp: Create_def cfg_ok_refl cfg_ok_sys split: option.splits sum.splits)
next
  case None
  show ?thesis
  proof (cases "valid_name name")
    case False
    with None assms show ?thesis
      by (auto simp: Create_def cfg_ok_refl cfg_ok_sys split: sum.splits)
  next
    case True
    then have c': "c' = c\<lparr>c_vars := c_vars c @ [ConfigVar T name val desc],
               c_datas := smap_set name (length (c_vars c)) (c_datas c)\<rparr>"
      using None assms(2) by (simp add: Create_def)
    have "smap_find (c_datas c) name = None" using None by (simp add: LookupBase_def)
    then have "cv_name (c_vars c ! i) \<noteq> name" if "i < length (c_vars c)" for i
      using that assms(1) by (force simp: cfg_wf_def)
    moreover have "cvar_wf (ConfigVar T name val desc)" "cv_name (ConfigVar T name val desc) = name"
      by (simp_all add: cvar_wf_def ConfigVar_def smap_ok_Nil)
    ultimately show ?thesis
      using assms(1) True \<open>smap_find (c_datas c) name = None\<close>
      unfolding c' cfg_ok_def cfg_wf_def same_vars_def
      by (simp add: smap_ok_set smap_find_set nth_append less_Suc_eq)
  qed
qed

lemma var_setValue_ok:
  assumes "cfg_wf c" and "var_setValue i v c = (r, c')"
  shows "cfg_ok c c'"
proof -
  obtain r1 var s where sv: "setValue v (c_vars c ! i) (c_sys c) = (r1, var, s)"
    by (cases "setValue v (c_vars c ! i) (c_sys c)") auto
  then show ?thesis
    using assms cfg_ok_update [OF assms(1), of var i s] setValue_fields(1-3) [OF sv]
    by (simp add: var_setValue_def cvar_wf_def)
qed

lemma var_fromString_ok:
  assumes "cfg_wf c" and "var_fromString d E i val c = (r, c')"
  shows "cfg_ok c c'"
proof -
  obtain r1 var s where sv: "fromString d E val (c_vars c ! i) (c_sys c) = (r1, var, s)"
    by (cases "fromString d E val (c_vars c ! i) (c_sys c)") auto
  then show ?thesis
    using assms cfg_ok_update [OF assms(1), of var i s] fromString_fields [OF sv]
    by (simp add: var_fromString_def cvar_wf_def)
qed

lemma load_members_ok: "cfg_wf c \<Longrightarrow> load_members d E Y is c = (r, c') \<Longrightarrow> cfg_ok c c'"
proof (induction d E Y "is" c rule: load_members.induct)
  case (1 d E Y c)
  then show ?case by (simp add: cfg_ok_refl)
next
  case (2 d E Y i "is" c)
  show ?case
  proof (cases "LookupBase (fst i) c")
    case None
    with 2 show ?thesis by simp
  next
    case (Some v)
    obtain q c1 where q: "var_fromString d E v (member_text Y (snd i)) c = (q, c1)" by force
    have ok: "cfg_ok c c1" by (rule var_fromString_ok [OF 2(3) q])
    show ?thesis
    proof (cases q)
      case (Inl e)
      with 2(4) Some q ok show ?thesis by simp
    next
      case (Inr b)
      have "cfg_ok c1 c'" using 2(2) [OF Some q [symmetric] Inr] 2(4) Some q Inr ok by (simp add: cfg_ok_def)
      with ok show ?thesis by (rule cfg_ok_trans)
    qed
  qed
qed

lemma LoadFromYaml_ok:
  assumes "cfg_wf c" and "LoadFromYaml k d E Y node c = (r, c')"
  shows "cfg_ok c c'"
proof (cases "ListAllYamlMember k d E Y node [] ([], c_sys c)")
  case (Inl e)
  with assms show ?thesis by (simp add: LoadFromYaml_def cfg_ok_refl)
next
  case (Inr ms)
  obtain all s where ms: "ms = (all, s)" by (cases ms)
  have ok: "cfg_ok c (c\<lparr>c_sys := s\<rparr>)" by (rule cfg_ok_sys [OF assms(1)])
  moreover have "cfg_ok (c\<lparr>c_sys := s\<rparr>) c'"
    using load_members_ok [of "c\<lparr>c_sys := s\<rparr>" d E Y all r c'] ok assms(2) Inr ms
    by (simp add: LoadFromYaml_def cfg_ok_def)
  ultimately show ?thesis by (rule cfg_ok_trans)
qed

end
