(* ===== verification/LexicalCast.thy ===== *)
theory LexicalCast
  imports Yaml OrderedMap
begin

text \<open>
  The conversions between configuration values and YAML text (\<^verbatim>\<open>class LexicalCast\<close> of
  \<^verbatim>\<open>server/config.h\<close>): containers element by element, through the casts \<open>to\<close> and \<open>from\<close> of the
  element type. The primary template is \<^verbatim>\<open>boost::lexical_cast\<close>, an argument. An unordered
  container is a set or a map, together with the order an iteration over it takes.
\<close>

section \<open>The casts\<close>

definition cast_elems_to_string :: "'n yaml \<Rightarrow> ('a \<Rightarrow> string res) \<Rightarrow> 'a list \<Rightarrow> string res" where
  "cast_elems_to_string Y to v =
     rbind (fold_res (\<lambda>i node. rbind (to i) (\<lambda>str. rbind (y_Load Y str) (\<lambda>m. Inr (y_push_back Y node m))))
             v (y_null Y))
       (\<lambda>node. Inr (y_Dump Y node))"

text \<open>The loop over \<open>node[i]\<close>, each element printed and cast, with the container's insertion.\<close>

definition read_elems ::
  "'n yaml \<Rightarrow> (string \<Rightarrow> 'a res) \<Rightarrow> ('a \<Rightarrow> 'c \<Rightarrow> 'c) \<Rightarrow> string \<Rightarrow> 'c \<Rightarrow> 'c res" where
  "read_elems Y from ins v c0 =
     rbind (y_Load Y v) (\<lambda>node.
       fold_res (\<lambda>i c. rbind (from (y_print Y (y_index Y node i))) (\<lambda>x. Inr (ins x c)))
         [0..<y_size Y node] c0)"

definition cast_string_to_vector :: "'n yaml \<Rightarrow> (string \<Rightarrow> 'a res) \<Rightarrow> string \<Rightarrow> 'a list res" where
  "cast_string_to_vector Y from v = read_elems Y from (\<lambda>x vec. vec @ [x]) v []"

definition cast_string_to_list :: "'n yaml \<Rightarrow> (string \<Rightarrow> 'a res) \<Rightarrow> string \<Rightarrow> 'a list res" where
  "cast_string_to_list Y from v = read_elems Y from (\<lambda>x l. l @ [x]) v []"

definition cast_string_to_set ::
  "'n yaml \<Rightarrow> ('a \<Rightarrow> 'a \<Rightarrow> bool) \<Rightarrow> (string \<Rightarrow> 'a res) \<Rightarrow> string \<Rightarrow> 'a list res" where
  "cast_string_to_set Y lt from v = read_elems Y from (sset_insert lt) v []"

definition cast_string_to_unordered_set :: "'n yaml \<Rightarrow> (string \<Rightarrow> 'a res) \<Rightarrow> string \<Rightarrow> 'a set res" where
  "cast_string_to_unordered_set Y from v = read_elems Y from insert v {}"

definition read_entries ::
  "'n yaml \<Rightarrow> (string \<Rightarrow> 'a res) \<Rightarrow> (string \<Rightarrow> 'a \<Rightarrow> 'c \<Rightarrow> 'c) \<Rightarrow> string \<Rightarrow> 'c \<Rightarrow> 'c res" where
  "read_entries Y from ins s c0 =
     rbind (y_Load Y s) (\<lambda>node.
       fold_res (\<lambda>it m. rbind (from (y_print Y (snd it))) (\<lambda>x. Inr (ins (y_Scalar Y (fst it)) x m)))
         (y_pairs Y node) c0)"

definition cast_string_to_map :: "'n yaml \<Rightarrow> (string \<Rightarrow> 'a res) \<Rightarrow> string \<Rightarrow> (string, 'a) smap res" where
  "cast_string_to_map Y from s = read_entries Y from smap_set s []"

definition cast_string_to_unordered_map ::
  "'n yaml \<Rightarrow> (string \<Rightarrow> 'a res) \<Rightarrow> string \<Rightarrow> (string \<rightharpoonup> 'a) res" where
  "cast_string_to_unordered_map Y from s = read_entries Y from (\<lambda>k x m. m(k \<mapsto> x)) s Map.empty"

definition cast_map_to_string :: "'n yaml \<Rightarrow> ('a \<Rightarrow> string res) \<Rightarrow> (string \<times> 'a) list \<Rightarrow> string res" where
  "cast_map_to_string Y to m =
     rbind (fold_res (\<lambda>i node. rbind (to (snd i)) (\<lambda>str. rbind (y_Load Y str)
              (\<lambda>c. Inr (y_set Y node (fst i) c)))) m (y_null Y))
       (\<lambda>node. Inr (y_print Y node))"

text \<open>For an unordered map the list is in the order of its iteration.\<close>

definition cast_unordered_map_to_string :: "'n yaml \<Rightarrow> ('a \<Rightarrow> string res) \<Rightarrow> (string \<times> 'a) list \<Rightarrow> string res" where
  "cast_unordered_map_to_string Y to m =
     rbind (fold_res (\<lambda>i node. rbind (to (snd i)) (\<lambda>str. rbind (y_Load Y str)
              (\<lambda>c. Inr (y_set Y node (fst i) c)))) m (y_null Y))
       (\<lambda>node. Inr (y_print Y node))"

section \<open>Round trips\<close>

text \<open>
  An element survives when its text is a document whose printed form is cast back to it; the
  empty string, say, is a document of its own only with quotes.
\<close>

definition elem_ok :: "'n yaml \<Rightarrow> ('a \<Rightarrow> string res) \<Rightarrow> (string \<Rightarrow> 'a res) \<Rightarrow> 'a \<Rightarrow> bool" where
  "elem_ok Y to from x \<longleftrightarrow>
     (\<exists>s n. to x = Inr s \<and> y_Load Y s = Inr n \<and> built Y n \<and> from (y_print Y n) = Inr x)"

text \<open>The same with a value \<open>g x\<close> read back for \<open>x\<close>, and the nodes along the way.\<close>

definition elem_node :: "'n yaml \<Rightarrow> ('a \<Rightarrow> string res) \<Rightarrow> (string \<Rightarrow> 'a res) \<Rightarrow> ('a \<Rightarrow> 'a) \<Rightarrow> 'a \<Rightarrow> 'n \<Rightarrow> bool" where
  "elem_node Y to from g x n \<longleftrightarrow>
     (\<exists>s. to x = Inr s \<and> y_Load Y s = Inr n \<and> built Y n \<and> from (y_print Y n) = Inr (g x))"

lemma elem_nodes_exist:
  assumes "\<forall>x \<in> set xs. elem_ok Y to from x"
  shows "\<exists>ns. list_all2 (elem_node Y to from (\<lambda>x. x)) xs ns"
  using assms
proof (induction xs)
  case Nil
  then show ?case by simp
next
  case (Cons x xs)
  then obtain ns where "list_all2 (elem_node Y to from (\<lambda>x. x)) xs ns" by auto
  moreover obtain n where "elem_node Y to from (\<lambda>x. x) x n"
    using Cons.prems by (auto simp: elem_ok_def elem_node_def)
  ultimately have "list_all2 (elem_node Y to from (\<lambda>x. x)) (x # xs) (n # ns)" by simp
  then show ?case by blast
qed

lemma elems_to_nodes:
  assumes "list_all2 (elem_node Y to from g) xs ns"
  shows "fold_res (\<lambda>i node. rbind (to i) (\<lambda>str. rbind (y_Load Y str) (\<lambda>m. Inr (y_push_back Y node m))))
     xs (y_seq Y ms) = Inr (y_seq Y (ms @ ns))"
  using assms
proof (induction xs ns arbitrary: ms rule: list_all2_induct)
  case Nil
  show ?case by simp
next
  case (Cons x xs n ns)
  obtain s where "to x = Inr s" "y_Load Y s = Inr n" using Cons.hyps(1) by (auto simp: elem_node_def)
  then show ?case using Cons.IH [of "ms @ [n]"] by (simp add: y_seq_snoc)
qed

lemma nodes_built: "list_all2 (elem_node Y to from g) xs ns \<Longrightarrow> \<forall>m \<in> set ns. built Y m"
  by (induction xs ns rule: list_all2_induct) (auto simp: elem_node_def)

lemma cast_elems_nodes:
  assumes "list_all2 (elem_node Y to from g) xs ns"
  shows "cast_elems_to_string Y to xs = Inr (y_Dump Y (y_seq Y ns))"
  using elems_to_nodes [OF assms, of "[]"] by (simp add: cast_elems_to_string_def y_null_eq(1))

lemma read_nodes:
  assumes "\<And>i. i < length ns \<Longrightarrow> idx i = ns ! i" and "list_all2 (elem_node Y to from g) xs ns"
  shows "fold_res (\<lambda>i c. rbind (from (y_print Y (idx i))) (\<lambda>x. Inr (ins x c))) [0..<length ns] c =
     Inr (fold ins (map g xs) c)"
  using assms(2,1)
proof (induction xs ns arbitrary: idx c rule: list_all2_induct)
  case Nil
  show ?case by simp
next
  case (Cons x xs n ns)
  have "from (y_print Y n) = Inr (g x)" using Cons.hyps(1) by (auto simp: elem_node_def)
  moreover have "idx 0 = n" using Cons.prems [of 0] by simp
  moreover have "[0..<length (n # ns)] = 0 # map Suc [0..<length ns]"
    by (simp add: upt_conv_Cons map_Suc_upt del: upt_Suc)
  moreover have "idx (Suc i) = ns ! i" if "i < length ns" for i
    using that Cons.prems [of "Suc i"] by simp
  ultimately show ?case
    using Cons.IH [of "\<lambda>i. idx (Suc i)" "ins (g x) c"] by (simp del: upt_Suc add: fold_res_map)
qed

lemma read_elems_nodes:
  assumes "yaml_laws Y" and "list_all2 (elem_node Y to from g) xs ns"
    and "y_Load Y v = Inr (y_seq Y ns)"
  shows "read_elems Y from ins v c = Inr (fold ins (map g xs) c)"
  using read_nodes [OF yaml_laws_seq(5) [OF assms(1)] assms(2)] assms(3)
  by (simp add: read_elems_def yaml_laws_seq(1) [OF assms(1)])

lemma read_elems_roundtrip:
  assumes "yaml_laws Y" and "\<forall>x \<in> set xs. elem_ok Y to from x"
  shows "\<exists>str. cast_elems_to_string Y to xs = Inr str \<and>
    (\<forall>ins c. read_elems Y from ins str c = Inr (fold ins xs c))"
proof -
  obtain ns where ns: "list_all2 (elem_node Y to from (\<lambda>x. x)) xs ns"
    using elem_nodes_exist [OF assms(2)] by blast
  have "built Y (y_seq Y ns)" by (rule built.seq [OF nodes_built [OF ns]])
  then have "y_Load Y (y_Dump Y (y_seq Y ns)) = Inr (y_seq Y ns)"
    by (rule yaml_laws_load(1) [OF assms(1)])
  from read_elems_nodes [OF assms(1) ns this] cast_elems_nodes [OF ns] show ?thesis by auto
qed

lemma fold_snoc: "fold (\<lambda>x vec. vec @ [x]) xs ys = ys @ xs"
  by (induction xs arbitrary: ys) auto

lemma fold_insert: "fold insert xs S = S \<union> set xs"
  by (induction xs arbitrary: S) auto

text \<open>
  C17 (LexicalCast). When every element survives on its own, a sequence of them written out and
  read back is the same vector, the same list, the same set of an ordered set, and the set of
  its elements as an unordered set.
\<close>

theorem container_roundtrip:
  assumes "yaml_laws Y" and "\<forall>x \<in> set xs. elem_ok Y to from x"
  shows "\<exists>str. cast_elems_to_string Y to xs = Inr str \<and>
    cast_string_to_vector Y from str = Inr xs \<and> cast_string_to_list Y from str = Inr xs \<and>
    cast_string_to_unordered_set Y from str = Inr (set xs) \<and>
    (weak_order lt \<and> sorted_wrt lt xs \<longrightarrow> cast_string_to_set Y lt from str = Inr xs)"
proof -
  obtain ns where ns: "list_all2 (elem_node Y to from (\<lambda>x. x)) xs ns"
    using elem_nodes_exist [OF assms(2)] by blast
  have "built Y (y_seq Y ns)" by (rule built.seq [OF nodes_built [OF ns]])
  then have load: "y_Load Y (y_Dump Y (y_seq Y ns)) = Inr (y_seq Y ns)"
    by (rule yaml_laws_load(1) [OF assms(1)])
  have "fold (sset_insert lt) xs [] = xs" if "weak_order lt" "sorted_wrt lt xs"
    using weak_order.fold_insert_rebuild [OF that(1), of "[]" xs] that(2) by simp
  with cast_elems_nodes [OF ns] show ?thesis
    by (simp add: cast_string_to_vector_def cast_string_to_list_def cast_string_to_set_def
        cast_string_to_unordered_set_def read_elems_nodes [OF assms(1) ns load] fold_snoc fold_insert)
qed

lemma tree_text_elem: "elem_ok (tree_yaml disk) Inr Inr (enc (YScalar s))"
proof -
  have "built (tree_yaml disk) (YScalar s)"
    using built.str [of "tree_yaml disk" s] by (simp add: tree_yaml_def)
  then show ?thesis
    using tree_Load_enc [of "YScalar s"] by (simp add: elem_ok_def tree_yaml_def del: enc.simps)
qed

theorem container_roundtrip_witness:
  "\<exists>str. cast_elems_to_string (tree_yaml (\<lambda>_. None)) Inr [enc (YScalar ''8080''), enc (YScalar ''80'')] = Inr str \<and>
     cast_string_to_vector (tree_yaml (\<lambda>_. None)) Inr str = Inr [enc (YScalar ''8080''), enc (YScalar ''80'')]"
proof -
  have "\<forall>x \<in> set [enc (YScalar ''8080''), enc (YScalar ''80'')]. elem_ok (tree_yaml (\<lambda>_. None)) Inr Inr x"
    using tree_text_elem by (simp del: enc.simps)
  from container_roundtrip [OF tree_yaml_laws this, of "(<)"] show ?thesis by auto
qed

section \<open>Maps\<close>

lemma smap_set_above: "\<forall>e \<in> set m. fst e < k \<Longrightarrow> smap_set k v m = m @ [(k, v)]"
  by (induction m) auto

lemma smap_rebuild:
  "smap_ok (m0 @ m) \<Longrightarrow> fold (\<lambda>e. smap_set (fst e) (snd e)) m m0 = m0 @ m"
proof (induction m arbitrary: m0)
  case Nil
  then show ?case by simp
next
  case (Cons e m)
  have "\<forall>e' \<in> set m0. fst e' < fst e" using Cons.prems by (auto simp: smap_ok_def sorted_wrt_append)
  then have "smap_set (fst e) (snd e) m0 = m0 @ [e]" by (simp add: smap_set_above)
  with Cons.IH [of "m0 @ [e]"] Cons.prems show ?case by simp
qed

lemma upd_all_map_of:
  "distinct (map fst m) \<Longrightarrow> fold (\<lambda>e f. f(fst e \<mapsto> snd e)) m f = f ++ map_of m"
proof (induction m arbitrary: f)
  case Nil
  then show ?case by simp
next
  case (Cons e m)
  then have "fst e \<notin> dom (map_of m)" by (simp add: dom_map_of_conv_image_fst)
  with Cons show ?case by (cases e) (auto simp: map_add_def fun_eq_iff split: option.splits)
qed

definition entry_node :: "'n yaml \<Rightarrow> ('a \<Rightarrow> string res) \<Rightarrow> (string \<Rightarrow> 'a res) \<Rightarrow> string \<times> 'a \<Rightarrow> string \<times> 'n \<Rightarrow> bool" where
  "entry_node Y to from e kn \<longleftrightarrow> fst kn = fst e \<and> elem_node Y to from (\<lambda>x. x) (snd e) (snd kn)"

lemma entry_nodes_exist:
  assumes "\<forall>x \<in> snd ` set m. elem_ok Y to from x"
  shows "\<exists>kns. list_all2 (entry_node Y to from) m kns"
  using assms
proof (induction m)
  case Nil
  then show ?case by simp
next
  case (Cons e m)
  then obtain kns where "list_all2 (entry_node Y to from) m kns" by auto
  moreover obtain n where "elem_node Y to from (\<lambda>x. x) (snd e) n"
    using Cons.prems by (auto simp: elem_ok_def elem_node_def)
  ultimately have "list_all2 (entry_node Y to from) (e # m) ((fst e, n) # kns)"
    by (simp add: entry_node_def)
  then show ?case by blast
qed

lemma entries_keys: "list_all2 (entry_node Y to from) m kns \<Longrightarrow> map fst kns = map fst m"
  by (induction m kns rule: list_all2_induct) (auto simp: entry_node_def)

lemma entries_built: "list_all2 (entry_node Y to from) m kns \<Longrightarrow> \<forall>n \<in> snd ` set kns. built Y n"
  by (induction m kns rule: list_all2_induct) (auto simp: entry_node_def elem_node_def)

lemma entries_to_nodes:
  assumes "list_all2 (entry_node Y to from) m kns"
  shows "fold_res (\<lambda>i node. rbind (to (snd i)) (\<lambda>str. rbind (y_Load Y str) (\<lambda>c. Inr (y_set Y node (fst i) c))))
     m (y_map Y ks) = Inr (y_map Y (ks @ kns))"
  using assms
proof (induction m kns arbitrary: ks rule: list_all2_induct)
  case Nil
  show ?case by simp
next
  case (Cons e m kn kns)
  obtain s where "to (snd e) = Inr s" "y_Load Y s = Inr (snd kn)" "fst kn = fst e"
    using Cons.hyps(1) by (auto simp: entry_node_def elem_node_def)
  then show ?case using Cons.IH [of "ks @ [kn]"] by (cases kn) (simp add: y_map_snoc)
qed

lemma entries_from_nodes:
  assumes "yaml_laws Y" and "list_all2 (entry_node Y to from) m kns"
  shows "fold_res (\<lambda>it c. rbind (from (y_print Y (snd it))) (\<lambda>x. Inr (ins (y_Scalar Y (fst it)) x c)))
     (map (\<lambda>(k, v). (y_str Y k, v)) kns) c = Inr (fold (\<lambda>e. ins (fst e) (snd e)) m c)"
  using assms(2)
proof (induction m kns arbitrary: c rule: list_all2_induct)
  case Nil
  show ?case by simp
next
  case (Cons e m kn kns)
  have "from (y_print Y (snd kn)) = Inr (snd e)" "fst kn = fst e"
    using Cons.hyps(1) by (auto simp: entry_node_def elem_node_def)
  then show ?case using Cons.IH yaml_laws_str(3) [OF assms(1)] by (cases kn) simp
qed

text \<open>
  C18 (LexicalCast). A map from names to values that survive on their own, written out and read
  back, is the same map, ordered or unordered.
\<close>

theorem map_roundtrip:
  assumes "yaml_laws Y" and "distinct (map fst m)" and "\<forall>x \<in> snd ` set m. elem_ok Y to from x"
  shows "\<exists>str. cast_unordered_map_to_string Y to m = Inr str \<and>
    cast_string_to_unordered_map Y from str = Inr (map_of m) \<and>
    (smap_ok m \<longrightarrow> cast_map_to_string Y to m = Inr str \<and> cast_string_to_map Y from str = Inr m)"
proof -
  obtain kns where kns: "list_all2 (entry_node Y to from) m kns"
    using entry_nodes_exist [OF assms(3)] by blast
  have dist: "distinct (map fst kns)" using entries_keys [OF kns] assms(2) by simp
  have "built Y (y_map Y kns)" by (rule built.map [OF dist entries_built [OF kns]])
  then have load: "y_Load Y (y_print Y (y_map Y kns)) = Inr (y_map Y kns)"
    by (rule yaml_laws_load(2) [OF assms(1)])
  have to: "cast_map_to_string Y to m = Inr (y_print Y (y_map Y kns))"
    using entries_to_nodes [OF kns, of "[]"] by (simp add: cast_map_to_string_def y_null_eq(2))
  have umap: "cast_string_to_unordered_map Y from (y_print Y (y_map Y kns)) = Inr (map_of m)"
    unfolding cast_string_to_unordered_map_def read_entries_def load rbind.simps yaml_laws_map(3) [OF assms(1) dist]
    by (simp add: entries_from_nodes [OF assms(1) kns, of "\<lambda>k x c. c(k \<mapsto> x)"] upd_all_map_of [OF assms(2)])
  have omap: "cast_string_to_map Y from (y_print Y (y_map Y kns)) = Inr m" if "smap_ok m"
    unfolding cast_string_to_map_def read_entries_def load rbind.simps yaml_laws_map(3) [OF assms(1) dist]
    using smap_rebuild [of "[]" m] that
    by (simp add: entries_from_nodes [OF assms(1) kns, of smap_set])
  have "cast_unordered_map_to_string Y to m = cast_map_to_string Y to m"
    by (simp only: cast_unordered_map_to_string_def cast_map_to_string_def)
  with to umap omap show ?thesis by simp
qed

theorem map_roundtrip_witness:
  "\<exists>str. cast_map_to_string (tree_yaml (\<lambda>_. None)) Inr
       [(''host'', enc (YScalar ''a'')), (''port'', enc (YScalar ''80''))] = Inr str \<and>
     cast_string_to_map (tree_yaml (\<lambda>_. None)) Inr str =
       Inr [(''host'', enc (YScalar ''a'')), (''port'', enc (YScalar ''80''))]"
proof -
  let ?m = "[(''host'', enc (YScalar ''a'')), (''port'', enc (YScalar ''80''))]"
  have ok: "smap_ok ?m" by (simp add: smap_ok_def)
  have "\<forall>x \<in> snd ` set ?m. elem_ok (tree_yaml (\<lambda>_. None)) Inr Inr x"
    using tree_text_elem by (simp del: enc.simps)
  from map_roundtrip [OF tree_yaml_laws smap_keys_distinct [OF ok] this] ok show ?thesis by auto
qed

end
