(* ===== verification/LogCast.thy ===== *)
theory LogCast
  imports LexicalCast ManagerProps
begin

text \<open>
  The casts between \<^verbatim>\<open>LogDefine\<close> and YAML text (\<^verbatim>\<open>server/log.cpp\<close>) and
  \<^verbatim>\<open>LoggerManager::toYamlString\<close>, with their round trip.
\<close>

section \<open>From text\<close>

text \<open>One entry of the sequence \<^verbatim>\<open>appender\<close>.\<close>

definition cast_node_to_appender :: "'n yaml \<Rightarrow> 'n \<Rightarrow> LogAppenderDefine res" where
  "cast_node_to_appender Y n =
     rbind (y_as_string Y (y_get Y n ''type'')) (\<lambda>ty.
     rbind (if ty = ''file'' then y_as_string Y (y_get Y n ''file'') else Inr []) (\<lambda>path.
     rbind (if y_IsDefined Y (y_get Y n ''level'')
            then rbind (y_as_string Y (y_get Y n ''level'')) (\<lambda>str. Inr (FromString (to_lower str)))
            else Inr UNKNOW) (\<lambda>lv.
     rbind (if y_IsDefined Y (y_get Y n ''formatter'') then y_as_string Y (y_get Y n ''formatter'')
            else Inr []) (\<lambda>fmt.
     Inr \<lparr>lad_type = ty, lad_path = path, lad_level = lv, lad_formatter = fmt\<rparr>))))"

definition cast_string_to_LogDefine :: "'n yaml \<Rightarrow> string \<Rightarrow> LogDefine res" where
  "cast_string_to_LogDefine Y v =
     rbind (y_Load Y v) (\<lambda>node.
     rbind (y_as_string Y (y_get Y node ''name'')) (\<lambda>name.
     rbind (y_as_string Y (y_get Y node ''level'')) (\<lambda>str.
     rbind (y_as_string Y (y_get Y node ''formatter'')) (\<lambda>fmt.
     rbind (if y_IsDefined Y (y_get Y node ''appender'')
            then fold_res (\<lambda>i apps. rbind (cast_node_to_appender Y (y_index Y (y_get Y node ''appender'') i))
                                      (\<lambda>lad. Inr (apps @ [lad])))
                   [0..<y_size Y (y_get Y node ''appender'')] []
            else Inr []) (\<lambda>apps.
     Inr \<lparr>ld_name = name, ld_level = FromString (to_lower str), ld_formatter = fmt, ld_appender = apps\<rparr>)))))"

section \<open>To text\<close>

definition appender_to_node :: "'n yaml \<Rightarrow> LogAppenderDefine \<Rightarrow> 'n" where
  "appender_to_node Y i =
     (let n1 = y_set Y (y_null Y) ''type'' (y_str Y (lad_type i));
          n2 = (if lad_type i = ''file'' then y_set Y n1 ''file'' (y_str Y (lad_path i)) else n1);
          n3 = (if hasCustomLevel i
                then y_set Y n2 ''level'' (y_str Y (to_lower (ToString (lad_level i)))) else n2)
      in if hasCustomFormatter i then y_set Y n3 ''formatter'' (y_str Y (lad_formatter i)) else n3)"

definition LogDefine_to_node :: "'n yaml \<Rightarrow> LogDefine \<Rightarrow> 'n" where
  "LogDefine_to_node Y v =
     fold (\<lambda>i node. y_set Y node ''appender'' (y_push_back Y (y_get Y node ''appender'') (appender_to_node Y i)))
       (ld_appender v)
       (y_set Y (y_set Y (y_set Y (y_null Y) ''name'' (y_str Y (ld_name v)))
          ''level'' (y_str Y (to_lower (ToString (ld_level v)))))
          ''formatter'' (y_str Y (ld_formatter v)))"

definition cast_LogDefine_to_string :: "'n yaml \<Rightarrow> LogDefine \<Rightarrow> string res" where
  "cast_LogDefine_to_string Y v = Inr (y_Dump Y (LogDefine_to_node Y v))"

text \<open>\<^verbatim>\<open>std::set<LogDefine>\<close>, the type of the variable \<^verbatim>\<open>loggers\<close>.\<close>

definition cast_LogDefines_to_string :: "'n yaml \<Rightarrow> LogDefine list \<Rightarrow> string res" where
  "cast_LogDefines_to_string Y = cast_elems_to_string Y (cast_LogDefine_to_string Y)"

definition cast_string_to_LogDefines :: "'n yaml \<Rightarrow> string \<Rightarrow> LogDefine list res" where
  "cast_string_to_LogDefines Y = cast_string_to_set Y ld_less (cast_string_to_LogDefine Y)"

definition toYamlString :: "'n yaml \<Rightarrow> sys \<Rightarrow> string res" where
  "toYamlString Y s =
     rbind (fold_res (\<lambda>i node. rbind (cast_LogDefine_to_string Y (describe_logger s i)) (\<lambda>str.
              rbind (y_Load Y str) (\<lambda>n.
                Inr (y_set Y node ''loggers'' (y_push_back Y (y_get Y node ''loggers'') n)))))
            (s_map s) (y_null Y))
       (\<lambda>node. Inr (y_Dump Y node))"

section \<open>The nodes\<close>

definition appender_entries :: "'n yaml \<Rightarrow> LogAppenderDefine \<Rightarrow> (string \<times> 'n) list" where
  "appender_entries Y i =
     [(''type'', y_str Y (lad_type i))] @
     (if lad_type i = ''file'' then [(''file'', y_str Y (lad_path i))] else []) @
     (if hasCustomLevel i then [(''level'', y_str Y (to_lower (ToString (lad_level i))))] else []) @
     (if hasCustomFormatter i then [(''formatter'', y_str Y (lad_formatter i))] else [])"

lemma appender_to_node_eq: "appender_to_node Y i = y_map Y (appender_entries Y i)"
  by (simp add: appender_to_node_def appender_entries_def Let_def y_map_def)

lemma appender_entries_ok:
  "distinct (map fst (appender_entries Y i))" "\<forall>n \<in> snd ` set (appender_entries Y i). built Y n"
  by (auto simp: appender_entries_def built.str)

text \<open>What is read back: a path is kept for the type \<^verbatim>\<open>file\<close> only.\<close>

definition read_back_appender :: "LogAppenderDefine \<Rightarrow> LogAppenderDefine" where
  "read_back_appender i = i\<lparr>lad_path := (if lad_type i = ''file'' then lad_path i else [])\<rparr>"

definition read_back :: "LogDefine \<Rightarrow> LogDefine" where
  "read_back ld = ld\<lparr>ld_appender := map read_back_appender (ld_appender ld)\<rparr>"

lemma level_text: "FromString (to_lower (to_lower (ToString lv))) = lv"
  unfolding to_lower_idem by (cases lv) (simp_all add: to_lower_ToString FromString_def)

lemma cast_appender_node:
  assumes "yaml_laws Y"
  shows "cast_node_to_appender Y (appender_to_node Y i) = Inr (read_back_appender i)"
proof -
  let ?kvs = "appender_entries Y i"
  note laws = yaml_laws_map [OF assms appender_entries_ok(1) [of Y i]] and strs = yaml_laws_str [OF assms]
  have ty: "y_get Y (y_map Y ?kvs) ''type'' = y_str Y (lad_type i)"
    by (rule laws(4)) (simp add: appender_entries_def)
  have path: "lad_type i = ''file'' \<Longrightarrow> y_get Y (y_map Y ?kvs) ''file'' = y_str Y (lad_path i)"
    by (rule laws(4)) (simp add: appender_entries_def)
  have lv: "if hasCustomLevel i then y_get Y (y_map Y ?kvs) ''level'' = y_str Y (to_lower (ToString (lad_level i)))
     else \<not> y_IsDefined Y (y_get Y (y_map Y ?kvs) ''level'')"
  proof (cases "hasCustomLevel i")
    case True
    then have "map_of ?kvs ''level'' = Some (y_str Y (to_lower (ToString (lad_level i))))"
      by (simp add: appender_entries_def)
    with laws(4) True show ?thesis by simp
  next
    case False
    then have "map_of ?kvs ''level'' = None" by (simp add: appender_entries_def)
    with laws(6) False show ?thesis by simp
  qed
  have fmt: "if hasCustomFormatter i then y_get Y (y_map Y ?kvs) ''formatter'' = y_str Y (lad_formatter i)
     else \<not> y_IsDefined Y (y_get Y (y_map Y ?kvs) ''formatter'')"
  proof (cases "hasCustomFormatter i")
    case True
    then have "map_of ?kvs ''formatter'' = Some (y_str Y (lad_formatter i))"
      by (simp add: appender_entries_def)
    with laws(4) True show ?thesis by simp
  next
    case False
    then have "map_of ?kvs ''formatter'' = None" by (simp add: appender_entries_def)
    with laws(6) False show ?thesis by simp
  qed
  show ?thesis
    unfolding appender_to_node_eq cast_node_to_appender_def
    using ty path lv fmt
    by (cases i) (auto simp: strs level_text read_back_appender_def hasCustomLevel_def hasCustomFormatter_def
        split: if_splits)
qed

lemma appender_node_built: "built Y (appender_to_node Y i)"
  unfolding appender_to_node_eq by (rule built.map [OF appender_entries_ok])

text \<open>Appending to the sequence under a key, as both serialisers do.\<close>

lemma push_at_key:
  assumes "yaml_laws Y" and "distinct (map fst kvs)" and "key \<notin> fst ` set kvs"
  shows "fold (\<lambda>n node. y_set Y node key (y_push_back Y (y_get Y node key) n)) ns (y_map Y kvs) =
     y_map Y (kvs @ (if ns = [] then [] else [(key, y_seq Y ns)]))"
proof -
  have dist: "distinct (map fst (kvs @ [(key, n)]))" for n :: 'a using assms(2,3) by auto
  have same: "map (\<lambda>(j, v). (j, if j = key then w else v)) (kvs @ [(key, n)]) = kvs @ [(key, w)]" for n w :: 'a
    using assms(3) by (force intro!: map_idI)
  have "map_of kvs key = None" using assms(3) by (simp add: map_of_eq_None_iff)
  then have of: "map_of (kvs @ [(key, n)]) key = Some n" for n :: 'a by (simp add: map_add_def)
  have more: "fold (\<lambda>n node. y_set Y node key (y_push_back Y (y_get Y node key) n)) ns (y_map Y (kvs @ [(key, y_seq Y ms)])) =
      y_map Y (kvs @ [(key, y_seq Y (ms @ ns))])" for ms ns
  proof (induction ns arbitrary: ms)
    case Nil
    show ?case by simp
  next
    case (Cons n ns)
    have "y_set Y (y_map Y (kvs @ [(key, y_seq Y ms)])) key (y_seq Y (ms @ [n])) =
        y_map Y (kvs @ [(key, y_seq Y (ms @ [n]))])"
      using yaml_laws_map(5) [OF assms(1) dist of] same by simp
    then show ?case
      using Cons.IH [of "ms @ [n]"] yaml_laws_map(4) [OF assms(1) dist of] by (simp add: y_seq_snoc)
  qed
  show ?thesis
  proof (cases ns)
    case Nil
    then show ?thesis by simp
  next
    case (Cons n ms)
    have "y_push_back Y (y_get Y (y_map Y kvs) key) n = y_seq Y [n]"
      using yaml_laws_map(7) [OF assms(1,2) \<open>map_of kvs key = None\<close>] by (simp add: y_seq_def)
    then show ?thesis using Cons more [of ms "[n]"] by (simp add: y_map_snoc)
  qed
qed

definition LogDefine_entries :: "'n yaml \<Rightarrow> LogDefine \<Rightarrow> (string \<times> 'n) list" where
  "LogDefine_entries Y v =
     [(''name'', y_str Y (ld_name v)), (''level'', y_str Y (to_lower (ToString (ld_level v)))),
      (''formatter'', y_str Y (ld_formatter v))] @
     (if ld_appender v = [] then []
      else [(''appender'', y_seq Y (map (appender_to_node Y) (ld_appender v)))])"

lemma LogDefine_to_node_eq:
  assumes "yaml_laws Y"
  shows "LogDefine_to_node Y v = y_map Y (LogDefine_entries Y v)"
proof -
  let ?kvs = "[(''name'', y_str Y (ld_name v)), (''level'', y_str Y (to_lower (ToString (ld_level v)))),
      (''formatter'', y_str Y (ld_formatter v))]"
  have "LogDefine_to_node Y v =
      fold (\<lambda>n node. y_set Y node ''appender'' (y_push_back Y (y_get Y node ''appender'') n))
        (map (appender_to_node Y) (ld_appender v)) (y_map Y ?kvs)"
    by (simp add: LogDefine_to_node_def fold_map comp_def y_map_def)
  also have "\<dots> = y_map Y (?kvs @ (if map (appender_to_node Y) (ld_appender v) = [] then []
      else [(''appender'', y_seq Y (map (appender_to_node Y) (ld_appender v)))]))"
    by (rule push_at_key [OF assms]) simp_all
  finally show ?thesis by (simp add: LogDefine_entries_def)
qed

lemma LogDefine_entries_ok:
  "distinct (map fst (LogDefine_entries Y v))" "\<forall>n \<in> snd ` set (LogDefine_entries Y v). built Y n"
  by (auto simp: LogDefine_entries_def appender_node_built intro!: built.str built.seq)

lemma LogDefine_node_built:
  assumes "yaml_laws Y"
  shows "built Y (LogDefine_to_node Y v)"
  unfolding LogDefine_to_node_eq [OF assms] by (rule built.map [OF LogDefine_entries_ok])

lemma read_appenders:
  assumes "yaml_laws Y" and "n = y_seq Y (map (appender_to_node Y) as)"
  shows "fold_res (\<lambda>i apps. rbind (cast_node_to_appender Y (y_index Y n i)) (\<lambda>lad. Inr (apps @ [lad])))
     [0..<y_size Y n] [] = Inr (map read_back_appender as)"
proof -
  have "fold_res (\<lambda>i apps. rbind (cast_node_to_appender Y (idx i)) (\<lambda>lad. Inr (apps @ [lad])))
     [0..<length as] bs = Inr (bs @ map read_back_appender as)"
    if "\<And>i. i < length as \<Longrightarrow> idx i = appender_to_node Y (as ! i)" for idx bs
    using that
  proof (induction as arbitrary: idx bs)
    case Nil
    show ?case by simp
  next
    case (Cons a as)
    have "idx 0 = appender_to_node Y a" using Cons.prems [of 0] by simp
    moreover have "[0..<length (a # as)] = 0 # map Suc [0..<length as]"
      by (simp add: upt_conv_Cons map_Suc_upt del: upt_Suc)
    moreover have "idx (Suc i) = appender_to_node Y (as ! i)" if "i < length as" for i
      using that Cons.prems [of "Suc i"] by simp
    ultimately show ?case
      using Cons.IH [of "\<lambda>i. idx (Suc i)" "bs @ [read_back_appender a]"]
      by (simp del: upt_Suc add: fold_res_map cast_appender_node [OF assms(1)])
  qed
  from this [of "y_index Y n" "[]"] show ?thesis
    using yaml_laws_seq(1,5) [OF assms(1)] by (simp add: assms(2))
qed

lemma read_LogDefine_node:
  assumes "yaml_laws Y" and "y_Load Y str = Inr (LogDefine_to_node Y v)"
  shows "cast_string_to_LogDefine Y str = Inr (read_back v)"
proof -
  let ?kvs = "LogDefine_entries Y v"
  note laws = yaml_laws_map [OF assms(1) LogDefine_entries_ok(1) [of Y v]] and strs = yaml_laws_str [OF assms(1)]
  have get: "y_get Y (y_map Y ?kvs) ''name'' = y_str Y (ld_name v)"
    "y_get Y (y_map Y ?kvs) ''level'' = y_str Y (to_lower (ToString (ld_level v)))"
    "y_get Y (y_map Y ?kvs) ''formatter'' = y_str Y (ld_formatter v)"
    by (rule laws(4), simp add: LogDefine_entries_def)+
  show ?thesis
  proof (cases "ld_appender v = []")
    case True
    then have "\<not> y_IsDefined Y (y_get Y (y_map Y ?kvs) ''appender'')"
      by (intro laws(6)) (simp add: LogDefine_entries_def)
    with True get show ?thesis
      by (cases v) (simp add: cast_string_to_LogDefine_def assms(2) LogDefine_to_node_eq [OF assms(1)]
          strs level_text read_back_def)
  next
    case False
    let ?n = "y_seq Y (map (appender_to_node Y) (ld_appender v))"
    have n: "y_get Y (y_map Y ?kvs) ''appender'' = ?n"
      using False by (intro laws(4)) (simp add: LogDefine_entries_def)
    have "y_IsDefined Y ?n" using False yaml_laws_seq(4) [OF assms(1)] by simp
    with False get n read_appenders [OF assms(1) refl] show ?thesis
      by (cases v) (simp add: cast_string_to_LogDefine_def assms(2) LogDefine_to_node_eq [OF assms(1)]
          strs level_text read_back_def)
  qed
qed

text \<open>
  C19 (LexicalCast of LogDefine). A definition written to YAML and read back is the definition,
  except for the path of an appender that is not a file appender, which is not written.
\<close>

theorem LogDefine_roundtrip:
  assumes "yaml_laws Y"
  shows "\<exists>str. cast_LogDefine_to_string Y ld = Inr str \<and> cast_string_to_LogDefine Y str = Inr (read_back ld)"
  using read_LogDefine_node [OF assms yaml_laws_load(1) [OF assms LogDefine_node_built [OF assms]]]
  by (simp add: cast_LogDefine_to_string_def)

theorem LogDefine_roundtrip_witness:
  "\<exists>str. cast_LogDefine_to_string (tree_yaml (\<lambda>_. None))
      \<lparr>ld_name = ''zn'', ld_level = WARN, ld_formatter = ''%m'', ld_appender =
        [\<lparr>lad_type = ''file'', lad_path = ''a.log'', lad_level = UNKNOW, lad_formatter = ''%d''\<rparr>,
         \<lparr>lad_type = ''stdout'', lad_path = ''x'', lad_level = FATAL, lad_formatter = []\<rparr>]\<rparr> = Inr str \<and>
    cast_string_to_LogDefine (tree_yaml (\<lambda>_. None)) str = Inr
      \<lparr>ld_name = ''zn'', ld_level = WARN, ld_formatter = ''%m'', ld_appender =
        [\<lparr>lad_type = ''file'', lad_path = ''a.log'', lad_level = UNKNOW, lad_formatter = ''%d''\<rparr>,
         \<lparr>lad_type = ''stdout'', lad_path = [], lad_level = FATAL, lad_formatter = []\<rparr>]\<rparr>"
  using LogDefine_roundtrip [OF tree_yaml_laws [of "\<lambda>_. None"], of
      "\<lparr>ld_name = ''zn'', ld_level = WARN, ld_formatter = ''%m'', ld_appender =
        [\<lparr>lad_type = ''file'', lad_path = ''a.log'', lad_level = UNKNOW, lad_formatter = ''%d''\<rparr>,
         \<lparr>lad_type = ''stdout'', lad_path = ''x'', lad_level = FATAL, lad_formatter = []\<rparr>]\<rparr>"]
  by (simp add: read_back_def read_back_appender_def)

section \<open>Sets of definitions and the manager's own document\<close>

lemma LogDefine_elem:
  assumes "yaml_laws Y"
  shows "elem_node Y (cast_LogDefine_to_string Y) (cast_string_to_LogDefine Y) read_back v (LogDefine_to_node Y v)"
proof -
  note b = LogDefine_node_built [OF assms, of v]
  show ?thesis
    using yaml_laws_load [OF assms b] read_LogDefine_node [OF assms yaml_laws_load(2) [OF assms b]] b
    by (simp add: elem_node_def cast_LogDefine_to_string_def)
qed

lemma LogDefine_elems:
  assumes "yaml_laws Y"
  shows "list_all2 (elem_node Y (cast_LogDefine_to_string Y) (cast_string_to_LogDefine Y) read_back)
     vs (map (LogDefine_to_node Y) vs)"
  by (induction vs) (simp_all add: LogDefine_elem [OF assms])

lemma sorted_read_back: "sorted_wrt ld_less vs \<Longrightarrow> sorted_wrt ld_less (map read_back vs)"
  by (simp add: sorted_wrt_map ld_less_def [abs_def] read_back_def)

lemma read_LogDefines_nodes:
  assumes "yaml_laws Y" and "sorted_wrt ld_less vs"
    and "y_Load Y str = Inr (y_seq Y (map (LogDefine_to_node Y) vs))"
  shows "cast_string_to_LogDefines Y str = Inr (map read_back vs)"
  using ld_set.fold_insert_rebuild [of "[]" "map read_back vs"] sorted_read_back [OF assms(2)]
  by (simp add: cast_string_to_LogDefines_def cast_string_to_set_def
      read_elems_nodes [OF assms(1) LogDefine_elems [OF assms(1)] assms(3)])

lemma LogDefines_seq_built:
  assumes "yaml_laws Y"
  shows "built Y (y_seq Y (map (LogDefine_to_node Y) vs))"
  by (rule built.seq) (simp add: LogDefine_node_built [OF assms])

lemma LogDefines_text:
  assumes "yaml_laws Y" and "sorted_wrt ld_less vs"
  shows "cast_LogDefines_to_string Y vs = Inr (y_Dump Y (y_seq Y (map (LogDefine_to_node Y) vs)))"
    and "cast_string_to_LogDefines Y (y_Dump Y (y_seq Y (map (LogDefine_to_node Y) vs))) = Inr (map read_back vs)"
    and "cast_string_to_LogDefines Y (y_print Y (y_seq Y (map (LogDefine_to_node Y) vs))) = Inr (map read_back vs)"
proof -
  note load = yaml_laws_load [OF assms(1) LogDefines_seq_built [OF assms(1), of vs]]
  show "cast_LogDefines_to_string Y vs = Inr (y_Dump Y (y_seq Y (map (LogDefine_to_node Y) vs)))"
    unfolding cast_LogDefines_to_string_def by (rule cast_elems_nodes [OF LogDefine_elems [OF assms(1)]])
  show "cast_string_to_LogDefines Y (y_Dump Y (y_seq Y (map (LogDefine_to_node Y) vs))) = Inr (map read_back vs)"
    by (rule read_LogDefines_nodes [OF assms load(1)])
  show "cast_string_to_LogDefines Y (y_print Y (y_seq Y (map (LogDefine_to_node Y) vs))) = Inr (map read_back vs)"
    by (rule read_LogDefines_nodes [OF assms load(2)])
qed

lemma describe_all_sorted:
  assumes "smap_ok (s_map s)"
  shows "sorted_wrt ld_less (describe_all s)"
proof -
  have "map ld_name (describe_all s) = map fst (s_map s)"
    by (simp add: describe_all_def describe_logger_def Let_def)
  with assms have "sorted_wrt (<) (map ld_name (describe_all s))" by (simp add: smap_ok_def)
  then show ?thesis by (simp add: sorted_wrt_map ld_less_def [abs_def])
qed

lemma describe_read_back: "read_back (describe_logger s i) = describe_logger s i"
  by (simp add: read_back_def describe_logger_def Let_def read_back_appender_def describe_appender_def)

definition manager_node :: "'n yaml \<Rightarrow> sys \<Rightarrow> 'n" where
  "manager_node Y s = y_map Y (if s_map s = [] then []
     else [(''loggers'', y_seq Y (map (LogDefine_to_node Y) (describe_all s)))])"

lemma toYamlString_eq:
  assumes "yaml_laws Y"
  shows "toYamlString Y s = Inr (y_Dump Y (manager_node Y s))"
proof -
  let ?push = "\<lambda>n node. y_set Y node ''loggers'' (y_push_back Y (y_get Y node ''loggers'') n)"
  have step: "rbind (cast_LogDefine_to_string Y (describe_logger s i)) (\<lambda>str.
              rbind (y_Load Y str) (\<lambda>n. Inr (?push n node))) =
            Inr (?push (LogDefine_to_node Y (describe_logger s i)) node)" for i node
    using yaml_laws_load(1) [OF assms LogDefine_node_built [OF assms]]
    by (simp add: cast_LogDefine_to_string_def)
  have "fold_res (\<lambda>i node. rbind (cast_LogDefine_to_string Y (describe_logger s i)) (\<lambda>str.
              rbind (y_Load Y str) (\<lambda>n. Inr (?push n node)))) (s_map s) (y_null Y) =
      Inr (fold (\<lambda>i. ?push (LogDefine_to_node Y (describe_logger s i))) (s_map s) (y_null Y))"
    by (rule fold_res_cong_state) (rule step)
  moreover have "fold (\<lambda>i. ?push (LogDefine_to_node Y (describe_logger s i))) (s_map s) (y_null Y) =
      fold ?push (map (LogDefine_to_node Y) (describe_all s)) (y_map Y [])"
    by (simp add: describe_all_def fold_map comp_def y_null_eq(2))
  moreover have "\<dots> = manager_node Y s"
    using push_at_key [OF assms, of "[]" "''loggers''" "map (LogDefine_to_node Y) (describe_all s)"]
    by (simp add: manager_node_def describe_all_def)
  ultimately show ?thesis by (simp add: toYamlString_def)
qed

lemma manager_node_built:
  assumes "yaml_laws Y"
  shows "built Y (manager_node Y s)"
  unfolding manager_node_def by (rule built.map) (simp_all add: LogDefines_seq_built [OF assms])

text \<open>
  C20 (LoggerManager::toYamlString). The document the manager writes about itself loads, and its
  entry \<^verbatim>\<open>loggers\<close>, read as the configuration variable reads it, is the manager's description:
  one definition per logger, in the order of their names.
\<close>

theorem toYamlString_reads_back:
  assumes "yaml_laws Y" and "sys_wf s" and "s_map s \<noteq> []"
  shows "\<exists>str node. toYamlString Y s = Inr str \<and> y_Load Y str = Inr node \<and>
    cast_string_to_LogDefines Y (y_print Y (y_get Y node ''loggers'')) = Inr (describe_all s)"
proof -
  have "y_get Y (manager_node Y s) ''loggers'' = y_seq Y (map (LogDefine_to_node Y) (describe_all s))"
    unfolding manager_node_def using assms(3) by (simp add: yaml_laws_map(4) [OF assms(1)])
  moreover have "map read_back (describe_all s) = describe_all s"
    by (simp add: describe_all_def describe_read_back)
  moreover have "smap_ok (s_map s)" using assms(2) by (simp add: sys_wf_def)
  ultimately have "cast_string_to_LogDefines Y (y_print Y (y_get Y (manager_node Y s) ''loggers'')) = Inr (describe_all s)"
    using LogDefines_text(3) [OF assms(1) describe_all_sorted] by simp
  with toYamlString_eq [OF assms(1)] yaml_laws_load(1) [OF assms(1) manager_node_built [OF assms(1)]]
  show ?thesis by blast
qed

theorem toYamlString_reads_back_witness:
  "\<exists>str node. toYamlString (tree_yaml (\<lambda>_. None)) boot = Inr str \<and> tree_Load str = Inr node \<and>
    cast_string_to_LogDefines (tree_yaml (\<lambda>_. None)) (enc (tree_get node ''loggers'')) =
      Inr [\<lparr>ld_name = ''root'', ld_level = DEBUG, ld_formatter = default_pattern, ld_appender =
        [\<lparr>lad_type = ''stdout'', lad_path = [], lad_level = DEBUG, lad_formatter = []\<rparr>]\<rparr>]"
proof -
  have "s_map boot \<noteq> []" by (simp add: boot_eq)
  from toYamlString_reads_back [OF tree_yaml_laws [of "\<lambda>_. None"] sys_wf_boot this]
  show ?thesis
    by (simp add: tree_yaml_def describe_all_def boot_eq describe_logger_def describe_appender_def
        getAppenderType_def fresh_logger_def StdoutLogAppender_def LogAppender_def f_pattern_LogFormatter)
qed

end
