(* ===== verification/ConfigProps.thy ===== *)
theory ConfigProps
  imports ConfigRegistry LogCast
begin

text \<open>
  The promises of the configuration registry: creation and typed lookup in every reachable
  state, the members of a document, what loading a document does to the variables, and the way
  from a YAML document through the variable \<^verbatim>\<open>loggers\<close> to the loggers.
\<close>

section \<open>The registry as a state machine\<close>

inductive cfg_step :: "nat \<Rightarrow> env \<Rightarrow> 'n yaml \<Rightarrow> 'v cfg \<Rightarrow> 'v cfg \<Rightarrow> bool"
  for d :: nat and E :: env and Y :: "'n yaml" where
  create: "cfg_step d E Y c (snd (Create d E T name v desc c))"
| set: "cfg_step d E Y c (snd (var_setValue i v c))"
| from_str: "cfg_step d E Y c (snd (var_fromString d E i val c))"
| listen: "cfg_step d E Y c (upd_var i (addListener j cb) c)"
| unlisten: "cfg_step d E Y c (upd_var i (removeListener j) c)"
| load: "cfg_step d E Y c (snd (LoadFromYaml k d E Y node c))"
| logs: "cfg_step d E Y c (c\<lparr>c_sys := s\<rparr>)"

definition no_vars :: "sys \<Rightarrow> 'v cfg" where
  "no_vars s = \<lparr>c_vars = [], c_datas = [], c_sys = s\<rparr>"

lemma no_vars_wf: "cfg_wf (no_vars s)"
  by (simp add: no_vars_def cfg_wf_def smap_ok_Nil)

lemma cfg_ok_listeners:
  assumes "cfg_wf c" and "\<And>var. cv_name (f var) = cv_name var" and "\<And>var. cv_type (f var) = cv_type var"
    and "\<And>var. cvar_wf var \<Longrightarrow> cvar_wf (f var)"
  shows "cfg_ok c (upd_var i f c)"
proof -
  have "(upd_var i (\<lambda>_. f (c_vars c ! i)) c)\<lparr>c_sys := c_sys c\<rparr> = upd_var i f c"
    by (simp add: upd_var_def)
  then show ?thesis
    using cfg_ok_update [OF assms(1), of "f (c_vars c ! i)" i "c_sys c"] assms(2-4) by simp
qed

lemma cfg_step_ok:
  assumes "cfg_wf c" and "cfg_step d E Y c c'"
  shows "cfg_ok c c'"
  using assms(2)
proof (cases rule: cfg_step.cases)
  case (create T name v desc)
  then show ?thesis using Create_ok [OF assms(1)] by (metis prod.collapse)
next
  case (set i v)
  then show ?thesis using var_setValue_ok [OF assms(1)] by (metis prod.collapse)
next
  case (from_str i val)
  then show ?thesis using var_fromString_ok [OF assms(1)] by (metis prod.collapse)
next
  case (listen i j cb)
  show ?thesis unfolding listen
    by (rule cfg_ok_listeners [OF assms(1)]) (simp_all add: addListener_def cvar_wf_def smap_ok_set)
next
  case (unlisten i j)
  show ?thesis unfolding unlisten
    by (rule cfg_ok_listeners [OF assms(1)]) (simp_all add: removeListener_def cvar_wf_def smap_ok_erase)
next
  case (load k node)
  then show ?thesis using LoadFromYaml_ok [OF assms(1)] by (metis prod.collapse)
next
  case (logs s)
  then show ?thesis using cfg_ok_sys [OF assms(1)] by simp
qed

interpretation cfg: tracked_system "\<lambda>c. \<exists>s. c = no_vars s" "cfg_step d E Y" cfg_wf same_vars for d E Y
  by unfold_locales (auto simp: no_vars_wf cfg_ok_def dest: cfg_step_ok intro: same_vars_trans)

text \<open>
  C23 (Config::Create, Config::Lookup). In every reachable state of the registry: creating a
  variable under a free, valid name registers it with its default; under a name taken with the
  same type the registered variable is returned, under a name taken with another type
  \<^verbatim>\<open>std::logic_error\<close> is thrown and nothing changes; and a variable once registered is found
  from then on, under its name and with its type only, whatever is done.
\<close>

theorem Create_contract:
  assumes "(cfg_step d E Y)\<^sup>*\<^sup>* (no_vars s) c" and "sys_wf (c_sys c)" and "root_safe (c_sys c)"
  shows "case LookupBase name c of
      Some i \<Rightarrow>
        if vt_name (cv_type (c_vars c ! i)) = vt_name T
        then \<exists>t. Create (Suc (Suc n)) E T name v desc c = (Inr i, c\<lparr>c_sys := t\<rparr>) \<and> Lookup T name c = Some i
        else (\<exists>m. Create (Suc (Suc n)) E T name v desc c = (Inl (LogicError m), c)) \<and> Lookup T name c = None
    | None \<Rightarrow>
        if valid_name name
        then \<exists>c'. Create (Suc (Suc n)) E T name v desc c = (Inr (length (c_vars c)), c') \<and>
          cv_value (c_vars c' ! length (c_vars c)) = v \<and>
          (\<forall>c'' U. (cfg_step d E Y)\<^sup>*\<^sup>* c' c'' \<longrightarrow> Lookup U name c'' =
             (if vt_name U = vt_name T then Some (length (c_vars c)) else None))
        else \<exists>t. Create (Suc (Suc n)) E T name v desc c = (Inl (InvalidArgument name), c\<lparr>c_sys := t\<rparr>)"
proof (cases "LookupBase name c")
  case (Some i)
  obtain t where "config_log (Suc (Suc n)) E INFO 292 (''Config::Create name='' @ name @ '' already exists'') (c_sys c) = Inr t"
    using config_log_returns [OF assms(2,3)] by blast
  with Some show ?thesis
    by (auto simp: Create_def Lookup_def cast_var_def)
next
  case None
  have "\<exists>s'. no_vars s = no_vars s'" by blast
  then have wf: "cfg_wf c" by (rule cfg.reachable_inv [OF _ assms(1)])
  show ?thesis
  proof (cases "valid_name name")
    case False
    obtain t where "config_log (Suc (Suc n)) E ERROR 300 (''Config::Lookup name is invalid, name='' @ name) (c_sys c) = Inr t"
      using config_log_returns [OF assms(2,3)] by blast
    with None False show ?thesis by (auto simp: Create_def)
  next
    case True
    let ?i = "length (c_vars c)"
    obtain c' where c': "Create (Suc (Suc n)) E T name v desc c = (Inr ?i, c')"
      "c_vars c' = c_vars c @ [ConfigVar T name v desc]" "c_datas c' = smap_set name ?i (c_datas c)"
      using None True by (simp add: Create_def)
    have wf': "cfg_wf c'" using Create_ok [OF wf c'(1)] by (simp add: cfg_ok_def)
    have "Lookup U name c'' = (if vt_name U = vt_name T then Some ?i else None)"
      if "(cfg_step d E Y)\<^sup>*\<^sup>* c' c''" for c'' U
    proof -
      have "same_vars c' c''" by (rule cfg.rel_steps [OF that wf'])
      moreover have "smap_find (c_datas c') name = Some ?i" by (simp add: c'(3) smap_find_set)
      ultimately have "smap_find (c_datas c'') name = Some ?i" "cv_type (c_vars c'' ! ?i) = T"
        using c'(2) by (auto simp: same_vars_def ConfigVar_def)
      then show ?thesis by (auto simp: Lookup_def LookupBase_def cast_var_def)
    qed
    with None True c' show ?thesis by (auto simp: ConfigVar_def)
  qed
qed

definition int_type :: "bool vtype" where
  "int_type = flag_type\<lparr>vt_name := ''int''\<rparr>"

theorem Create_contract_witness:
  "\<exists>c'. Create 2 (sample_env (\<lambda>_. True)) flag_type ''tcp.nodelay'' True [] (no_vars boot) = (Inr 0, c') \<and>
     Lookup flag_type ''tcp.nodelay'' c' = Some 0 \<and> Lookup int_type ''tcp.nodelay'' c' = None"
proof -
  have name: "valid_name ''tcp.nodelay''" by code_simp
  have none: "LookupBase ''tcp.nodelay'' (no_vars boot :: bool cfg) = None"
    by (simp add: LookupBase_def no_vars_def)
  have sys: "sys_wf (c_sys (no_vars boot))" "root_safe (c_sys (no_vars boot))"
    by (simp_all add: no_vars_def sys_wf_boot boot_root_safe)
  from Create_contract [OF rtranclp.rtrancl_refl sys, where name = "''tcp.nodelay''" and T = flag_type
      and n = 0 and E = "sample_env (\<lambda>_. True)" and v = True and desc = "[]" and d = 0 and Y = "tree_yaml (\<lambda>_. None)"]
  obtain c' where c': "Create (Suc (Suc 0)) (sample_env (\<lambda>_. True)) flag_type ''tcp.nodelay'' True [] (no_vars boot) = (Inr 0, c')"
    "\<And>U. Lookup U ''tcp.nodelay'' c' = (if vt_name U = vt_name flag_type then Some 0 else None)"
    unfolding none by (auto simp: name no_vars_def)
  have "vt_name int_type \<noteq> vt_name flag_type" by (simp add: int_type_def flag_type_def)
  with c' show ?thesis by (auto simp: numeral_2_eq_2)
qed

end
