(* ===== verification/ConfigLoad.thy ===== *)
theory ConfigLoad
  imports ConfigProps
begin

text \<open>
  Loading a document: which nodes it visits under which names, and what the variables hold
  afterwards.
\<close>

section \<open>The members of a document\<close>

text \<open>The specification: a node and its name, for every path of valid names.\<close>

inductive member :: "'n yaml \<Rightarrow> 'n \<Rightarrow> string \<Rightarrow> string \<Rightarrow> 'n \<Rightarrow> bool" for Y :: "'n yaml" where
  here: "valid_name prefix \<Longrightarrow> member Y node prefix prefix node"
| below: "valid_name prefix \<Longrightarrow> y_IsMap Y node \<Longrightarrow> (k, child) \<in> set (y_pairs Y node) \<Longrightarrow>
    member Y child (extend_prefix prefix (y_Scalar Y k)) q m \<Longrightarrow> member Y node prefix q m"

text \<open>A document of maps nested less deep than the stack.\<close>

primrec shallow :: "nat \<Rightarrow> 'n yaml \<Rightarrow> 'n \<Rightarrow> bool" where
  "shallow 0 Y = (\<lambda>node. False)"
| "shallow (Suc k) Y = (\<lambda>node. y_IsMap Y node \<longrightarrow> (\<forall>it \<in> set (y_pairs Y node). shallow k Y (snd it)))"

primrec members :: "nat \<Rightarrow> 'n yaml \<Rightarrow> string \<Rightarrow> 'n \<Rightarrow> (string \<times> 'n) list" where
  "members 0 Y = (\<lambda>prefix node. [])"
| "members (Suc k) Y = (\<lambda>prefix node.
     if valid_name prefix then
       (prefix, node) #
         (if y_IsMap Y node then
            concat (map (\<lambda>it. members k Y (extend_prefix prefix (y_Scalar Y (fst it))) (snd it)) (y_pairs Y node))
          else [])
     else [])"

lemma member_iff:
  "shallow k Y node \<Longrightarrow> (q, m) \<in> set (members k Y prefix node) \<longleftrightarrow> member Y node prefix q m"
proof (induction k arbitrary: node prefix)
  case 0
  then show ?case by simp
next
  case (Suc k)
  have below: "(q, m) \<in> set (members k Y (extend_prefix prefix (y_Scalar Y key)) child) \<longleftrightarrow>
      member Y child (extend_prefix prefix (y_Scalar Y key)) q m"
    if "y_IsMap Y node" "(key, child) \<in> set (y_pairs Y node)" for key child
    using Suc.prems that by (intro Suc.IH) force
  show ?case (is "?l = ?r")
  proof
    assume ?l
    then show ?r using below by (auto split: if_splits intro: member.intros)
  next
    assume ?r
    then show ?l using below by (cases rule: member.cases) force+
  qed
qed

definition calm :: "sys \<Rightarrow> sys \<Rightarrow> bool" where
  "calm s t \<longleftrightarrow> log_frame s t \<and> sys_wf t \<and> root_safe t"

lemma calm_log:
  assumes "calm s t"
  shows "\<exists>u. ZNS_LOG (Logger_log (Suc (Suc d)) E) E (s_root t) lv file line msg t = Inr u \<and> calm s u"
proof -
  have t: "sys_wf t" "root_safe t" "s_root t < length (s_loggers t)"
    using assms by (auto simp: calm_def sys_wf_def)
  from ZNS_LOG_returns [OF t] assms show ?thesis
    unfolding safe_from_def calm_def by (meson log_frame_trans)
qed

lemma ListAll_members:
  "shallow k Y node \<Longrightarrow> calm s0 s \<Longrightarrow>
   \<exists>t. ListAllYamlMember k (Suc (Suc d)) E Y node prefix (acc, s) = Inr (acc @ members k Y prefix node, t) \<and> calm s0 t"
proof (induction k arbitrary: node prefix acc s)
  case 0
  then show ?case by simp
next
  case (Suc k)
  have loop: "\<exists>t. fold_res (\<lambda>it. ListAllYamlMember k (Suc (Suc d)) E Y (snd it) (extend_prefix prefix (y_Scalar Y (fst it))))
       its (acc', u) = Inr (acc' @ concat (map (\<lambda>it. members k Y (extend_prefix prefix (y_Scalar Y (fst it))) (snd it)) its), t)
       \<and> calm s0 t"
    if "\<forall>it \<in> set its. shallow k Y (snd it)" "calm s0 u" for its acc' u
    using that
  proof (induction its arbitrary: acc' u)
    case Nil
    then show ?case by simp
  next
    case (Cons it its)
    obtain t1 where t1: "ListAllYamlMember k (Suc (Suc d)) E Y (snd it) (extend_prefix prefix (y_Scalar Y (fst it))) (acc', u)
        = Inr (acc' @ members k Y (extend_prefix prefix (y_Scalar Y (fst it))) (snd it), t1)" "calm s0 t1"
      using Suc.IH [of "snd it" u "extend_prefix prefix (y_Scalar Y (fst it))" acc'] Cons.prems by auto
    from Cons.IH [OF _ t1(2), of "acc' @ members k Y (extend_prefix prefix (y_Scalar Y (fst it))) (snd it)"] Cons.prems t1(1)
    show ?case by auto
  qed
  show ?case
  proof (cases "valid_name prefix")
    case False
    obtain u where "ZNS_LOG (Logger_log (Suc (Suc d)) E) E (s_root s) ERROR (e_config_cpp E) 9
        (''Config::ListAllMember prefix is invalid, prefix='' @ prefix) s = Inr u" "calm s0 u"
      using calm_log [OF Suc.prems(2)] by blast
    with False show ?thesis by simp
  next
    case True
    show ?thesis
    proof (cases "y_IsMap Y node")
      case False
      with True Suc.prems show ?thesis by simp
    next
      case map: True
      then have "\<forall>it \<in> set (y_pairs Y node). shallow k Y (snd it)" using Suc.prems(1) by simp
      from loop [OF this Suc.prems(2), of "acc @ [(prefix, node)]"] True map show ?thesis by simp
    qed
  qed
qed

text \<open>
  C24 (Config::ListAllYamlMember). On a document nested less deep than the stack the listing
  returns, logging nothing but complaints, and lists the nodes reached along paths of valid
  names, each under its dotted name, a node before what is below it; what is below an invalid
  name is left out.
\<close>

theorem ListAllYamlMember_members:
  assumes "shallow k Y node" and "sys_wf s" and "root_safe s"
  shows "\<exists>out t. ListAllYamlMember k (Suc (Suc d)) E Y node prefix (acc, s) = Inr (acc @ out, t) \<and> log_frame s t \<and>
    (\<forall>q m. (q, m) \<in> set out \<longleftrightarrow> member Y node prefix q m) \<and>
    (valid_name prefix \<longrightarrow> out \<noteq> [] \<and> hd out = (prefix, node))"
proof -
  have "calm s s" using assms(2,3) by (simp add: calm_def)
  from ListAll_members [OF assms(1) this, of d E prefix acc] obtain t where
    t: "ListAllYamlMember k (Suc (Suc d)) E Y node prefix (acc, s) = Inr (acc @ members k Y prefix node, t)" "calm s t"
    by blast
  have "valid_name prefix \<longrightarrow> members k Y prefix node \<noteq> [] \<and> hd (members k Y prefix node) = (prefix, node)"
    using assms(1) by (cases k) simp_all
  with t member_iff [OF assms(1)] show ?thesis unfolding calm_def by blast
qed

definition sample_doc :: ynode where
  "sample_doc = YMap [(''tcp'', YMap [(''nodelay'', YScalar ''1''), (''bad name'', YScalar ''2'')])]"

theorem ListAllYamlMember_members_witness:
  "\<exists>t. ListAllYamlMember 3 2 (sample_env (\<lambda>_. True)) (tree_yaml (\<lambda>_. None)) sample_doc [] ([], boot) = Inr
     ([([], sample_doc), (''tcp'', YMap [(''nodelay'', YScalar ''1''), (''bad name'', YScalar ''2'')]),
       (''tcp.nodelay'', YScalar ''1'')], t) \<and> log_frame boot t"
proof -
  let ?Y = "tree_yaml (\<lambda>_. None)"
  have sh: "shallow 3 ?Y sample_doc"
    by (simp add: numeral_3_eq_3 sample_doc_def tree_yaml_def)
  have names: "valid_name []" "valid_name ''tcp''" "valid_name ''tcp.nodelay''" "\<not> valid_name ''tcp.bad name''"
    by code_simp+
  from ListAllYamlMember_members [OF sh sys_wf_boot boot_root_safe, of 0 "sample_env (\<lambda>_. True)" "[]" "[]"]
  obtain out t where out: "ListAllYamlMember 3 (Suc (Suc 0)) (sample_env (\<lambda>_. True)) ?Y sample_doc [] ([], boot) = Inr (out, t)"
    "log_frame boot t" by auto
  have "calm boot boot" by (simp add: calm_def sys_wf_boot boot_root_safe)
  from ListAll_members [OF sh this, of 0 "sample_env (\<lambda>_. True)" "[]" "[]"] out(1)
  have "out = members 3 ?Y [] sample_doc" by auto
  also have "\<dots> = [([], sample_doc), (''tcp'', YMap [(''nodelay'', YScalar ''1''), (''bad name'', YScalar ''2'')]),
       (''tcp.nodelay'', YScalar ''1'')]"
    using names by (simp add: numeral_3_eq_3 sample_doc_def tree_yaml_def extend_prefix_def)
  finally show ?thesis using out by (simp add: numeral_2_eq_2)
qed

section \<open>What loading does to the variables\<close>

text \<open>The value of a variable of type \<open>T\<close> after one more text for it.\<close>

definition set_from :: "'v vtype \<Rightarrow> string \<Rightarrow> 'v \<Rightarrow> 'v" where
  "set_from T str v = (case vt_from T str of Inl e \<Rightarrow> v | Inr w \<Rightarrow> if vt_eq T v w then v else w)"

lemma fromString_value:
  assumes "fromString d E str var s = (r, var', t)"
  shows "cv_value var' = set_from (cv_type var) str (cv_value var)"
proof (cases "vt_from (cv_type var) str")
  case (Inl e)
  then show ?thesis using assms fromString_var [of d E str var s] by (simp add: set_from_def)
next
  case (Inr v)
  obtain r1 var1 t1 where sv: "setValue v var s = (r1, var1, t1)" by (cases "setValue v var s") auto
  have "var' = var1" using assms Inr sv fromString_var [of d E str var s] by simp
  with setValue_fields(4) [OF sv] Inr show ?thesis by (simp add: set_from_def)
qed

lemma var_fromString_value:
  assumes "cfg_wf c" and "LookupBase name c = Some i" and "var_fromString d E i str c = (Inr b, c')"
    and "LookupBase other c = Some j"
  shows "cv_value (c_vars c' ! j) =
    (if other = name then set_from (cv_type (c_vars c ! i)) str (cv_value (c_vars c ! i)) else cv_value (c_vars c ! j))"
proof -
  have i: "i < length (c_vars c)" "j < length (c_vars c)" "cv_name (c_vars c ! i) = name" "cv_name (c_vars c ! j) = other"
    using assms(1,2,4) by (auto simp: cfg_wf_def LookupBase_def)
  obtain r var s where sv: "fromString d E str (c_vars c ! i) (c_sys c) = (r, var, s)"
    by (cases "fromString d E str (c_vars c ! i) (c_sys c)") auto
  have "(r, (upd_var i (\<lambda>_. var) c)\<lparr>c_sys := s\<rparr>) = (Inr b, c')"
    using assms(3) unfolding var_fromString_def sv by simp
  then have "c' = (upd_var i (\<lambda>_. var) c)\<lparr>c_sys := s\<rparr>" by simp
  then have r: "c_vars c' = (c_vars c)[i := var]" by (simp add: upd_var_def)
  have "cv_value var = set_from (cv_type (c_vars c ! i)) str (cv_value (c_vars c ! i))"
    by (rule fromString_value [OF sv])
  moreover have "j = i \<longleftrightarrow> other = name" using assms(2,4) i(3,4) by (metis option.inject)
  ultimately show ?thesis unfolding r using i(1,2) by (cases "j = i") simp_all
qed

lemma load_members_values:
  assumes "cfg_wf c" and "load_members d E Y ms c = (None, c')" and "LookupBase name c = Some i"
  shows "LookupBase name c' = Some i \<and> cv_type (c_vars c' ! i) = cv_type (c_vars c ! i) \<and>
    cv_value (c_vars c' ! i) =
      fold (\<lambda>m. set_from (cv_type (c_vars c ! i)) (member_text Y (snd m))) (filter (\<lambda>m. fst m = name) ms)
        (cv_value (c_vars c ! i))"
  using assms
proof (induction ms arbitrary: c)
  case Nil
  then show ?case by simp
next
  case (Cons m ms)
  show ?case
  proof (cases "LookupBase (fst m) c")
    case None
    with Cons.prems have "fst m \<noteq> name" by auto
    with None Cons.prems Cons.IH [of c] show ?thesis by simp
  next
    case (Some v)
    obtain q c1 where q: "var_fromString d E v (member_text Y (snd m)) c = (q, c1)" by force
    with Cons.prems(2) Some obtain b where b: "q = Inr b" "load_members d E Y ms c1 = (None, c')"
      by (cases q) auto
    have ok: "cfg_ok c c1" by (rule var_fromString_ok [OF Cons.prems(1) q])
    then have c1: "cfg_wf c1" "LookupBase name c1 = Some i" "cv_type (c_vars c1 ! i) = cv_type (c_vars c ! i)"
      using Cons.prems(1,3) by (auto simp: cfg_ok_def same_vars_def cfg_wf_def LookupBase_def)
    have val: "cv_value (c_vars c1 ! i) =
        (if name = fst m then set_from (cv_type (c_vars c ! v)) (member_text Y (snd m)) (cv_value (c_vars c ! v))
         else cv_value (c_vars c ! i))"
      by (rule var_fromString_value [OF Cons.prems(1) Some _ Cons.prems(3)]) (use q b in simp)
    from Cons.IH [OF c1(1) b(2) c1(2)] c1(3) val Some Cons.prems(3)
    show ?thesis by auto
  qed
qed

text \<open>
  C25 (Config::LoadFromYaml). When loading a document returns, a registered variable holds what
  it held, changed by the nodes listed under its name only, in their order: a text its type
  rejects or finds equal leaves the value, any other text replaces it. Names and types stay.
\<close>

theorem LoadFromYaml_values:
  assumes "cfg_wf c" and "LoadFromYaml k (Suc (Suc d)) E Y node c = (None, c')"
    and "shallow k Y node" and "sys_wf (c_sys c)" and "root_safe (c_sys c)"
    and "LookupBase name c = Some i"
  shows "LookupBase name c' = Some i \<and> cv_type (c_vars c' ! i) = cv_type (c_vars c ! i) \<and>
    cv_value (c_vars c' ! i) =
      fold (\<lambda>m. set_from (cv_type (c_vars c ! i)) (member_text Y (snd m)))
        (filter (\<lambda>m. fst m = name) (members k Y [] node)) (cv_value (c_vars c ! i))"
proof -
  have "calm (c_sys c) (c_sys c)" using assms(4,5) by (simp add: calm_def)
  from ListAll_members [OF assms(3) this, of d E "[]" "[]"] obtain t where
    t: "ListAllYamlMember k (Suc (Suc d)) E Y node [] ([], c_sys c) = Inr (members k Y [] node, t)" by auto
  have load: "load_members (Suc (Suc d)) E Y (members k Y [] node) (c\<lparr>c_sys := t\<rparr>) = (None, c')"
    using assms(2) t by (simp add: LoadFromYaml_def)
  have "cfg_wf (c\<lparr>c_sys := t\<rparr>)" using cfg_ok_sys [OF assms(1)] by (simp add: cfg_ok_def)
  from load_members_values [OF this load, of name i] assms(6) show ?thesis by (simp add: LookupBase_def)
qed

theorem LoadFromYaml_values_witness:
  "\<exists>c'. LoadFromYaml 3 2 (sample_env (\<lambda>_. True)) (tree_yaml (\<lambda>_. None)) sample_doc
      (snd (Create 2 (sample_env (\<lambda>_. True)) flag_type ''tcp.nodelay'' False [] (no_vars boot))) = (None, c') \<and>
    cv_value (c_vars c' ! 0) = True"
proof -
  let ?Y = "tree_yaml (\<lambda>_. None)" and ?E = "sample_env (\<lambda>_. True)"
  let ?c = "snd (Create 2 ?E flag_type ''tcp.nodelay'' False [] (no_vars boot))"
  have names: "valid_name []" "valid_name ''tcp''" "valid_name ''tcp.nodelay''" "\<not> valid_name ''tcp.bad name''"
    by code_simp+
  have c: "?c = \<lparr>c_vars = [ConfigVar flag_type ''tcp.nodelay'' False []], c_datas = [(''tcp.nodelay'', 0)], c_sys = boot\<rparr>"
    using names by (simp add: Create_def LookupBase_def no_vars_def)
  have sh: "shallow 3 ?Y sample_doc" by (simp add: numeral_3_eq_3 sample_doc_def tree_yaml_def)
  have sys: "sys_wf (c_sys ?c)" "root_safe (c_sys ?c)" by (simp_all add: c sys_wf_boot boot_root_safe)
  have wf: "cfg_wf ?c" using Create_ok [OF no_vars_wf] by (metis cfg_ok_def prod.collapse)
  have look: "LookupBase ''tcp.nodelay'' ?c = Some 0" by (simp add: c LookupBase_def)
  have ms: "members 3 ?Y [] sample_doc = [([], sample_doc),
       (''tcp'', YMap [(''nodelay'', YScalar ''1''), (''bad name'', YScalar ''2'')]), (''tcp.nodelay'', YScalar ''1'')]"
    using names by (simp add: numeral_3_eq_3 sample_doc_def tree_yaml_def extend_prefix_def)
  have "calm (c_sys ?c) (c_sys ?c)" using sys by (simp add: calm_def)
  from ListAll_members [OF sh this, of 0 ?E "[]" "[]"] obtain t where
    t: "ListAllYamlMember 3 (Suc (Suc 0)) ?E ?Y sample_doc [] ([], c_sys ?c) = Inr (members 3 ?Y [] sample_doc, t)" by auto
  obtain c' where load: "LoadFromYaml 3 (Suc (Suc 0)) ?E ?Y sample_doc ?c = (None, c')"
    using t unfolding ms c
    by (simp add: LoadFromYaml_def LookupBase_def var_fromString_def fromString_def setValue_def ConfigVar_def
        flag_type_def member_text_def tree_yaml_def)
  from LoadFromYaml_values [OF wf load sh sys look] have "cv_value (c_vars c' ! 0) = True"
    unfolding ms c
    by (simp add: ConfigVar_def set_from_def flag_type_def member_text_def tree_yaml_def)
  with load show ?thesis by (auto simp: numeral_2_eq_2)
qed

end
