(* ===== verification/LoggersConfig.thy ===== *)
theory LoggersConfig
  imports ConfigLoad
begin

text \<open>
  The variable \<^verbatim>\<open>loggers\<close> (\<^verbatim>\<open>g_loggers_config\<close>, \<^verbatim>\<open>LogInit\<close>; \<^verbatim>\<open>server/log.cpp\<close>): from a YAML
  document through the registry and the listener to the loggers.
\<close>

definition loggers_type :: "'n yaml \<Rightarrow> LogDefine list vtype" where
  "loggers_type Y = \<lparr>vt_name = ''std::set<LogDefine>'', vt_eq = ld_set_eq,
     vt_from = cast_string_to_LogDefines Y, vt_to = cast_LogDefines_to_string Y\<rparr>"

definition LogInit :: "nat \<Rightarrow> env \<Rightarrow> LogDefine list callback" where
  "LogInit d E = Some (\<lambda>new_value old_value. effect_of (LogInit_listener d E new_value old_value))"

text \<open>The two static objects of \<^verbatim>\<open>log.cpp\<close>.\<close>

definition g_loggers_config :: "nat \<Rightarrow> env \<Rightarrow> 'n yaml \<Rightarrow> LogDefine list cfg \<Rightarrow> nat res \<times> LogDefine list cfg" where
  "g_loggers_config d E Y c = Create d E (loggers_type Y) ''loggers'' [] ''loggers'' c"

definition s_log_init :: "nat \<Rightarrow> env \<Rightarrow> 'n yaml \<Rightarrow> LogDefine list cfg \<Rightarrow> LogDefine list cfg" where
  "s_log_init d E Y c =
     (case g_loggers_config d E Y c of
        (Inl e, c1) \<Rightarrow> c1
      | (Inr i, c1) \<Rightarrow> upd_var i (addListener 1 (LogInit d E)) c1)"

text \<open>A registry whose variable \<open>i\<close> is \<^verbatim>\<open>loggers\<close> with its listener.\<close>

definition loggers_ready :: "nat \<Rightarrow> env \<Rightarrow> 'n yaml \<Rightarrow> nat \<Rightarrow> LogDefine list cfg \<Rightarrow> bool" where
  "loggers_ready d E Y i c \<longleftrightarrow> cfg_wf c \<and> LookupBase ''loggers'' c = Some i \<and> LookupBase [] c = None \<and>
     cv_type (c_vars c ! i) = loggers_type Y \<and> cv_cbs (c_vars c ! i) = [(1, LogInit d E)]"

lemma valid_loggers: "valid_name ''loggers''" "valid_name []"
  by code_simp+

lemma s_log_init_ready: "loggers_ready d E Y 0 (s_log_init d E Y (no_vars s))"
proof -
  have "s_log_init d E Y (no_vars s) =
      \<lparr>c_vars = [(ConfigVar (loggers_type Y) ''loggers'' [] ''loggers'')\<lparr>cv_cbs := [(1, LogInit d E)]\<rparr>],
       c_datas = [(''loggers'', 0)], c_sys = s\<rparr>"
    using valid_loggers by (simp add: s_log_init_def g_loggers_config_def Create_def LookupBase_def no_vars_def
        upd_var_def addListener_def ConfigVar_def)
  then show ?thesis
    using valid_loggers
    by (simp add: loggers_ready_def cfg_wf_def LookupBase_def cvar_wf_def smap_ok_def ConfigVar_def)
qed

section \<open>One document\<close>

definition loggers_doc :: "'n yaml \<Rightarrow> LogDefine list \<Rightarrow> 'n" where
  "loggers_doc Y vs = y_map Y [(''loggers'', y_seq Y (map (LogDefine_to_node Y) vs))]"

lemma loggers_doc_members:
  assumes "yaml_laws Y"
  shows "shallow (Suc (Suc k)) Y (loggers_doc Y vs)"
    and "members (Suc (Suc k)) Y [] (loggers_doc Y vs) =
      [([], loggers_doc Y vs), (''loggers'', y_seq Y (map (LogDefine_to_node Y) vs))]"
proof -
  have kv: "distinct (map fst [(''loggers'', y_seq Y (map (LogDefine_to_node Y) vs))])" by simp
  note laws = yaml_laws_map [OF assms kv] and seq = yaml_laws_seq [OF assms] and strs = yaml_laws_str [OF assms]
  have "y_IsMap Y (loggers_doc Y vs)" unfolding loggers_doc_def by (rule laws(1)) simp
  moreover have "y_pairs Y (loggers_doc Y vs) = [(y_str Y ''loggers'', y_seq Y (map (LogDefine_to_node Y) vs))]"
    unfolding loggers_doc_def laws(3) by simp
  ultimately show "shallow (Suc (Suc k)) Y (loggers_doc Y vs)"
    and "members (Suc (Suc k)) Y [] (loggers_doc Y vs) =
      [([], loggers_doc Y vs), (''loggers'', y_seq Y (map (LogDefine_to_node Y) vs))]"
    using seq(3) strs(3) valid_loggers by (simp_all add: extend_prefix_def)
qed

lemma norm_read_back: "norm_define (read_back ld) = norm_define ld"
proof -
  have "norm_appender (read_back ld) (read_back_appender def) = norm_appender ld def" for ld def
    by (simp add: norm_appender_def read_back_appender_def read_back_def hasCustomLevel_def)
  then show ?thesis
    by (simp add: norm_define_def read_back_def filter_map comp_def)
      (simp add: read_back_appender_def read_back_def)
qed

lemma ld_name_read_back: "ld_name (read_back ld) = ld_name ld"
  by (simp add: read_back_def)

lemma member_text_seq:
  assumes "yaml_laws Y"
  shows "member_text Y (y_seq Y ms) = y_print Y (y_seq Y ms)"
  using yaml_laws_seq(2) [OF assms] by (simp add: member_text_def)

text \<open>Loading a document with a new set of definitions runs the listener on it.\<close>

lemma load_loggers:
  assumes "yaml_laws Y" and "loggers_ready (Suc (Suc d)) E Y i c" and "mgr_wf (c_sys c)" and "root_safe (c_sys c)"
    and "sorted_wrt ld_less vs"
  shows "\<exists>c'. LoadFromYaml (Suc (Suc k)) (Suc (Suc d)) E Y (loggers_doc Y vs) c = (None, c') \<and>
    (if ld_set_eq (cv_value (c_vars c ! i)) (map read_back vs) then c_sys c' = c_sys c
     else cv_value (c_vars c' ! i) = map read_back vs \<and> describe_all (c_sys c') = map norm_define vs \<and>
       (\<forall>ld \<in> set vs. \<exists>l. smap_find (s_map (c_sys c')) (ld_name ld) = Some l \<and>
          logger_view (c_sys c') l = spec_view (read_back ld)))"
proof -
  let ?var = "c_vars c ! i"
  let ?text = "y_print Y (y_seq Y (map (LogDefine_to_node Y) vs))"
  have c: "LookupBase ''loggers'' c = Some i" "LookupBase [] c = None" "cv_type ?var = loggers_type Y"
    "cv_cbs ?var = [(1, LogInit (Suc (Suc d)) E)]" "i < length (c_vars c)"
    using assms(2) by (auto simp: loggers_ready_def cfg_wf_def LookupBase_def)
  have sys: "sys_wf (c_sys c)" using assms(3) by (simp add: mgr_wf_def)
  note sh = loggers_doc_members [OF assms(1), of k vs]
  have list: "ListAllYamlMember (Suc (Suc k)) (Suc (Suc d)) E Y (loggers_doc Y vs) [] ([], c_sys c) =
      Inr (members (Suc (Suc k)) Y [] (loggers_doc Y vs), c_sys c)"
  proof -
    have kv: "distinct (map fst [(''loggers'', y_seq Y (map (LogDefine_to_node Y) vs))])" by simp
    note laws = yaml_laws_map [OF assms(1) kv] and seq = yaml_laws_seq [OF assms(1)] and strs = yaml_laws_str [OF assms(1)]
    have "y_IsMap Y (loggers_doc Y vs)" unfolding loggers_doc_def by (rule laws(1)) simp
    moreover have "y_pairs Y (loggers_doc Y vs) = [(y_str Y ''loggers'', y_seq Y (map (LogDefine_to_node Y) vs))]"
      unfolding loggers_doc_def laws(3) by simp
    ultimately show ?thesis using sh(2) seq(3) strs(3) valid_loggers by (simp add: extend_prefix_def Let_def)
  qed
  have load: "LoadFromYaml (Suc (Suc k)) (Suc (Suc d)) E Y (loggers_doc Y vs) c =
      (case var_fromString (Suc (Suc d)) E i ?text c of (Inl e, c') \<Rightarrow> (Some e, c') | (Inr b, c') \<Rightarrow> (None, c'))"
    using list sh(2) c(1,2) member_text_seq [OF assms(1)] by (simp add: LoadFromYaml_def split: prod.splits sum.splits)
  have from_text: "vt_from (cv_type ?var) ?text = Inr (map read_back vs)"
    using LogDefines_text(3) [OF assms(1,5)] by (simp add: c(3) loggers_type_def)
  have eq: "vt_eq (cv_type ?var) = ld_set_eq" by (simp add: c(3) loggers_type_def)
  show ?thesis
  proof (cases "ld_set_eq (cv_value ?var) (map read_back vs)")
    case True
    then have "fromString (Suc (Suc d)) E ?text ?var (c_sys c) = (Inr True, ?var, c_sys c)"
      using from_text eq by (simp add: fromString_def setValue_def)
    then have "var_fromString (Suc (Suc d)) E i ?text c = (Inr True, (upd_var i (\<lambda>_. ?var) c)\<lparr>c_sys := c_sys c\<rparr>)"
      by (simp add: var_fromString_def)
    with load True show ?thesis by simp
  next
    case False
    obtain t where t: "LogInit_listener (Suc (Suc d)) E (map read_back vs) (cv_value ?var) (c_sys c) = Inr t"
      "describe_all t = map norm_define (map read_back vs)"
      "\<forall>ld \<in> set vs. \<exists>l. smap_find (s_map t) (ld_name ld) = Some l \<and>
         logger_view t l = spec_view (read_back ld)"
      using listener_and_describe [OF assms(3,4) sorted_read_back [OF assms(5)], of d E "cv_value ?var"]
      by (auto simp: ld_name_read_back)
    have "fromString (Suc (Suc d)) E ?text ?var (c_sys c) = (Inr True, ?var\<lparr>cv_value := map read_back vs\<rparr>, t)"
      using from_text eq False c(4) t(1)
      by (simp add: fromString_def setValue_def call_cb_def LogInit_def effect_of_def)
    then have "var_fromString (Suc (Suc d)) E i ?text c =
        (Inr True, (upd_var i (\<lambda>_. ?var\<lparr>cv_value := map read_back vs\<rparr>) c)\<lparr>c_sys := t\<rparr>)"
      by (simp add: var_fromString_def)
    with load False c(5) t(2,3) show ?thesis by (simp add: upd_var_def norm_read_back comp_def)
  qed
qed

text \<open>
  C26 (Config::LoadFromYaml, LogInit, LoggerManager). Loading a document that defines loggers,
  where the definitions differ from those in force, returns; the variable holds the definitions
  and the manager has exactly the loggers they name, set up as they say.
\<close>

theorem yaml_configures_loggers:
  assumes "yaml_laws Y" and "loggers_ready (Suc (Suc d)) E Y i c" and "mgr_wf (c_sys c)" and "root_safe (c_sys c)"
    and "sorted_wrt ld_less vs" and "\<not> ld_set_eq (cv_value (c_vars c ! i)) (map read_back vs)"
  shows "\<exists>c'. LoadFromYaml (Suc (Suc k)) (Suc (Suc d)) E Y (loggers_doc Y vs) c = (None, c') \<and>
    cv_value (c_vars c' ! i) = map read_back vs \<and> describe_all (c_sys c') = map norm_define vs"
  using load_loggers [OF assms(1-5), of k] assms(6) by auto

theorem yaml_configures_loggers_witness:
  "\<exists>c'. LoadFromYaml 2 2 (sample_env (\<lambda>_. True)) (tree_yaml (\<lambda>_. None))
      (loggers_doc (tree_yaml (\<lambda>_. None)) [zn_define])
      (s_log_init 2 (sample_env (\<lambda>_. True)) (tree_yaml (\<lambda>_. None)) (no_vars boot)) = (None, c') \<and>
    describe_all (c_sys c') = [zn_define\<lparr>ld_appender :=
       [\<lparr>lad_type = ''file'', lad_path = ''zn.log'', lad_level = INFO, lad_formatter = []\<rparr>]\<rparr>]"
proof -
  let ?Y = "tree_yaml (\<lambda>_. None)" and ?E = "sample_env (\<lambda>_. True)"
  let ?c = "s_log_init (Suc (Suc 0)) ?E ?Y (no_vars boot)"
  have c: "c_sys ?c = boot" "cv_value (c_vars ?c ! 0) = []"
    using valid_loggers by (simp_all add: s_log_init_def g_loggers_config_def Create_def LookupBase_def no_vars_def
        upd_var_def addListener_def ConfigVar_def)
  have wf: "mgr_wf (c_sys ?c)" "root_safe (c_sys ?c)" using mgr_wf_boot boot_root_safe by (simp_all add: c)
  have "\<not> ld_set_eq (cv_value (c_vars ?c ! 0)) (map read_back [zn_define])" by (simp add: c ld_set_eq_def)
  from yaml_configures_loggers [OF tree_yaml_laws s_log_init_ready wf _ this, of 0]
  show ?thesis
    by (auto simp: numeral_2_eq_2 norm_define_def zn_define_def norm_appender_def new_LogAppenderDefine_def
        hasCustomLevel_def)
qed

section \<open>The manager's own document\<close>

text \<open>No appender is at the level that stands for "not given".\<close>

definition levels_given :: "sys \<Rightarrow> bool" where
  "levels_given s \<longleftrightarrow> (\<forall>i \<in> set (s_map s). \<forall>a \<in> set (l_appenders (s_loggers s ! snd i)).
     a_level (s_appenders s ! a) \<noteq> UNKNOW)"

lemma norm_describe_all:
  assumes "levels_given s"
  shows "map norm_define (describe_all s) = describe_all s"
proof -
  have app: "norm_appender ld (describe_appender ap) = describe_appender ap"
    if "a_level ap \<noteq> UNKNOW" for ld ap
    using that by (simp add: norm_appender_def describe_appender_def hasCustomLevel_def)
  have ty: "lad_type (describe_appender ap) = ''file'' \<or> lad_type (describe_appender ap) = ''stdout''" for ap
    by (cases "a_kind ap") (simp_all add: describe_appender_def getAppenderType_def)
  have "norm_define (describe_logger s i) = describe_logger s i" if "i \<in> set (s_map s)" for i
  proof -
    have "map (norm_appender ld) (map (\<lambda>a. describe_appender (s_appenders s ! a)) as) =
        map (\<lambda>a. describe_appender (s_appenders s ! a)) as"
      if "\<forall>a \<in> set as. a_level (s_appenders s ! a) \<noteq> UNKNOW" for ld as
      using that app by simp
    moreover have "\<forall>a \<in> set (l_appenders (s_loggers s ! snd i)). a_level (s_appenders s ! a) \<noteq> UNKNOW"
      using assms \<open>i \<in> set (s_map s)\<close> by (auto simp: levels_given_def)
    ultimately show ?thesis
      using ty by (simp add: norm_define_def describe_logger_def Let_def filter_map comp_def)
  qed
  then show ?thesis by (simp add: describe_all_def)
qed

lemma manager_node_doc: "s_map s \<noteq> [] \<Longrightarrow> manager_node Y s = loggers_doc Y (describe_all s)"
  by (simp add: manager_node_def loggers_doc_def)

text \<open>
  C27 (toYamlString, Config::LoadFromYaml). For a manager none of whose appenders is at the level
  that stands for "not given", loading the document the manager writes about itself returns, and
  the manager describes itself afterwards as it did before. When the variable \<^verbatim>\<open>loggers\<close> compares
  equal to the document nothing changes at all. Otherwise the listener runs and sets every logger
  up again as the document says: appenders and formatters are new objects, a stream that was open
  is gone, and a file is truncated when it is opened next (C11).
\<close>

theorem own_document_is_fixpoint:
  assumes "yaml_laws Y" and "loggers_ready (Suc (Suc d)) E Y i c" and "mgr_wf (c_sys c)" and "root_safe (c_sys c)"
    and "s_map (c_sys c) \<noteq> []" and "levels_given (c_sys c)"
  shows "\<exists>str node c'. toYamlString Y (c_sys c) = Inr str \<and> y_Load Y str = Inr node \<and>
    LoadFromYaml (Suc (Suc k)) (Suc (Suc d)) E Y node c = (None, c') \<and>
    describe_all (c_sys c') = describe_all (c_sys c) \<and>
    (if ld_set_eq (cv_value (c_vars c ! i)) (map read_back (describe_all (c_sys c)))
     then c_sys c' = c_sys c
     else \<forall>ld \<in> set (describe_all (c_sys c)). \<exists>l.
       smap_find (s_map (c_sys c')) (ld_name ld) = Some l \<and>
       logger_view (c_sys c') l = spec_view (read_back ld))"
proof -
  have "smap_ok (s_map (c_sys c))" using assms(3) by (simp add: mgr_wf_def sys_wf_def)
  from load_loggers [OF assms(1-4) describe_all_sorted [OF this], of k] obtain c' where
    c': "LoadFromYaml (Suc (Suc k)) (Suc (Suc d)) E Y (loggers_doc Y (describe_all (c_sys c))) c = (None, c')"
    "if ld_set_eq (cv_value (c_vars c ! i)) (map read_back (describe_all (c_sys c))) then c_sys c' = c_sys c
     else describe_all (c_sys c') = map norm_define (describe_all (c_sys c)) \<and>
       (\<forall>ld \<in> set (describe_all (c_sys c)). \<exists>l. smap_find (s_map (c_sys c')) (ld_name ld) = Some l \<and>
          logger_view (c_sys c') l = spec_view (read_back ld))"
    by (auto split: if_splits)
  then have "describe_all (c_sys c') = describe_all (c_sys c)"
    using norm_describe_all [OF assms(6)] by (auto split: if_splits)
  with c' toYamlString_eq [OF assms(1)] yaml_laws_load(1) [OF assms(1) manager_node_built [OF assms(1)]]
    manager_node_doc [OF assms(5)]
  show ?thesis by metis
qed

theorem own_document_is_fixpoint_witness:
  "\<exists>str node c'. toYamlString (tree_yaml (\<lambda>_. None)) boot = Inr str \<and> tree_Load str = Inr node \<and>
    LoadFromYaml 2 2 (sample_env (\<lambda>_. True)) (tree_yaml (\<lambda>_. None)) node
      (s_log_init 2 (sample_env (\<lambda>_. True)) (tree_yaml (\<lambda>_. None)) (no_vars boot)) = (None, c') \<and>
    describe_all (c_sys c') = describe_all boot"
proof -
  let ?Y = "tree_yaml (\<lambda>_. None)" and ?E = "sample_env (\<lambda>_. True)"
  let ?c = "s_log_init (Suc (Suc 0)) ?E ?Y (no_vars boot)"
  have c: "c_sys ?c = boot"
    using valid_loggers by (simp add: s_log_init_def g_loggers_config_def Create_def LookupBase_def no_vars_def
        upd_var_def addListener_def ConfigVar_def)
  have wf: "mgr_wf (c_sys ?c)" "root_safe (c_sys ?c)" "s_map (c_sys ?c) \<noteq> []" "levels_given (c_sys ?c)"
    unfolding c using mgr_wf_boot boot_root_safe
    by (simp_all add: boot_eq levels_given_def fresh_logger_def StdoutLogAppender_def LogAppender_def)
  from own_document_is_fixpoint [OF tree_yaml_laws s_log_init_ready wf, of 0]
  obtain str node c' where "toYamlString ?Y boot = Inr str" "y_Load ?Y str = Inr node"
    "LoadFromYaml (Suc (Suc 0)) (Suc (Suc 0)) ?E ?Y node ?c = (None, c')"
    "describe_all (c_sys c') = describe_all boot"
    unfolding c by blast
  then show ?thesis unfolding numeral_2_eq_2 by (auto simp: tree_yaml_def)
qed

section \<open>A change that is not noticed\<close>

text \<open>
  C28 (LogAppenderDefine, ConfigVar::setValue). The comparison of appender definitions looks at
  type and path only: a new configuration that changes nothing but levels and formatters of
  appenders counts as equal, so neither the variable nor any logger changes.
\<close>

theorem appender_change_is_ignored:
  assumes "\<And>def. lad_type (f def) = lad_type def \<and> lad_path (f def) = lad_path def"
    and "cv_type var = loggers_type Y"
  shows "setValue (map (\<lambda>ld. ld\<lparr>ld_appender := map f (ld_appender ld)\<rparr>) (cv_value var)) var s = (None, var, s)"
proof -
  have "list_all2 lad_eq as (map f as)" for as
    using assms(1) by (induction as) (simp_all add: lad_eq_def)
  then have "ld_eq ld (ld\<lparr>ld_appender := map f (ld_appender ld)\<rparr>)" for ld
    by (simp add: ld_eq_def)
  then have "ld_set_eq lds (map (\<lambda>ld. ld\<lparr>ld_appender := map f (ld_appender ld)\<rparr>) lds)" for lds
    by (induction lds) (simp_all add: ld_set_eq_def)
  then show ?thesis by (simp add: setValue_def assms(2) loggers_type_def)
qed

theorem appender_change_is_ignored_witness:
  "setValue [zn_define\<lparr>ld_appender := [\<lparr>lad_type = ''file'', lad_path = ''zn.log'', lad_level = FATAL, lad_formatter = ''%m''\<rparr>]\<rparr>]
     (ConfigVar (loggers_type (tree_yaml (\<lambda>_. None))) ''loggers'' [zn_define] []) boot =
   (None, ConfigVar (loggers_type (tree_yaml (\<lambda>_. None))) ''loggers'' [zn_define] [], boot)"
proof -
  let ?f = "\<lambda>def. def\<lparr>lad_level := FATAL, lad_formatter := ''%m''\<rparr>"
  let ?var = "ConfigVar (loggers_type (tree_yaml (\<lambda>_. None))) ''loggers'' [zn_define] []"
  have f: "lad_type (?f def) = lad_type def \<and> lad_path (?f def) = lad_path def" for def :: LogAppenderDefine by simp
  have ty: "cv_type ?var = loggers_type (tree_yaml (\<lambda>_. None))" by (simp add: ConfigVar_def)
  from appender_change_is_ignored [OF f ty, of boot] show ?thesis
    by (simp add: ConfigVar_def zn_define_def new_LogAppenderDefine_def)
qed

end
