(* ===== verification/Fiber.thy ===== *)
theory Fiber
  imports ZPrelude
begin

text \<open>
  \<^verbatim>\<open>class Fiber\<close> (\<^verbatim>\<open>server/fiber.h\<close>, \<^verbatim>\<open>server/fiber.cpp\<close>) on one thread, and the loop of
  \<^verbatim>\<open>Scheduler::run\<close> as that thread executes it. A saved context is the list of statements that
  are still to be executed when it is resumed; \<^verbatim>\<open>swapcontext\<close> saves the rest of the running code in
  one fiber and goes on with the rest saved in the other. What a callback does besides using
  fibers is \<open>Work\<close>, which leaves a mark in a trace, or \<open>Throw\<close>. The log lines of the file are left
  out, the debug lines as well as the error lines of the handlers in \<^verbatim>\<open>MainFunc\<close>. The stack of a
  fiber has a size, and what runs in a fiber takes \<open>fs_need\<close> bytes of it.
\<close>

section \<open>State\<close>

text \<open>\<^verbatim>\<open>Fiber::State\<close>; \<open>TERMINATED\<close> is the code's \<^verbatim>\<open>TERM\<close>, a reserved word here.\<close>

datatype fstate = INIT | HOLD | EXEC | TERMINATED | EXCEPT

text \<open>
  Statements. \<open>MainFunc\<close> is the entry point of a fresh context; \<open>CbEnd f\<close> the place in it where
  the callback of fiber \<open>f\<close> has returned; \<open>ExitThread\<close> its end, where the thread ends because
  \<^verbatim>\<open>uc_link\<close> is null. \<open>MakeScheduler\<close>, \<open>Schedule\<close>, \<open>Start\<close> and \<open>Stop\<close> are the scheduler's operations when
  it has no thread besides this one. \<open>RunStart\<close> and \<open>RunLoop\<close> are \<^verbatim>\<open>Scheduler::run\<close>, the flag telling whether
  the thread is the one that made the scheduler.
\<close>

datatype stmt =
    Work string
  | Throw string
  | NewFiber "stmt list" u64
  | Call nat
  | Back nat
  | SwapIn nat
  | SwapOut nat
  | Yield
  | Reset nat "stmt list"
  | MainFunc
  | CbEnd nat
  | ExitThread
  | MakeScheduler bool
  | Schedule nat
  | Start
  | Stop
  | RunStart bool
  | RunLoop

text \<open>
  \<open>fb_stack\<close> is the allocation \<^verbatim>\<open>m_stack\<close>, with its size; \<open>fb_ss_size\<close> is the size the saved context was
  told, \<^verbatim>\<open>uc_stack.ss_size\<close>.
\<close>

record fiber =
  fb_id :: u32
  fb_cb :: "stmt list option"
  fb_ctx :: "stmt list option"
  fb_stack :: "u64 option"
  fb_ss_size :: u64
  fb_stacksize :: u32
  fb_state :: fstate

text \<open>
  The static counters and, for the loop, the scheduler's queue and its flag. \<open>fs_need\<close> is not part of
  the program's state: it is the number of bytes of stack that what runs in a fiber takes, which
  the compiler and the callbacks decide; no statement changes it.
\<close>

record fsys =
  fs_fibers :: "fiber list"
  fs_fiber_id :: u64
  fs_fiber_count :: u64
  fs_queue :: "nat list"
  fs_stopping :: bool
  fs_root :: "nat option"
  fs_out :: "string list"
  fs_need :: u64

text \<open>The thread-local variables of \<^verbatim>\<open>fiber.cpp\<close> and \<^verbatim>\<open>scheduler.cpp\<close>; a null pointer is \<open>None\<close>.\<close>

record tls =
  t_fiber :: "nat option"
  t_thread_main_fiber :: "nat option"
  t_scheduler_fiber :: "nat option"

definition upd_fiber :: "nat \<Rightarrow> (fiber \<Rightarrow> fiber) \<Rightarrow> fsys \<Rightarrow> fsys" where
  "upd_fiber f g S = S\<lparr>fs_fibers := (fs_fibers S)[f := g (fs_fibers S ! f)]\<rparr>"

section \<open>Constructors and destructor\<close>

text \<open>The private constructor of a thread's main fiber counts an id but not the fiber.\<close>

definition Fiber_main :: "tls \<Rightarrow> fsys \<Rightarrow> nat \<times> tls \<times> fsys" where
  "Fiber_main T S =
     (length (fs_fibers S), T\<lparr>t_fiber := Some (length (fs_fibers S))\<rparr>,
      S\<lparr>fs_fibers := fs_fibers S @
          [\<lparr>fb_id = ucast (fs_fiber_id S), fb_cb = None, fb_ctx = None, fb_stack = None,
            fb_ss_size = 0, fb_stacksize = 0, fb_state = EXEC\<rparr>],
        fs_fiber_id := fs_fiber_id S + 1\<rparr>)"

definition Fiber :: "stmt list \<Rightarrow> u64 \<Rightarrow> fsys \<Rightarrow> nat \<times> fsys" where
  "Fiber cb stacksize S =
     (length (fs_fibers S),
      S\<lparr>fs_fibers := fs_fibers S @
          [\<lparr>fb_id = ucast (fs_fiber_id S), fb_cb = Some cb, fb_ctx = Some [MainFunc],
            fb_stack = Some stacksize, fb_ss_size = stacksize, fb_stacksize = ucast stacksize, fb_state = INIT\<rparr>],
        fs_fiber_id := fs_fiber_id S + 1, fs_fiber_count := fs_fiber_count S + 1\<rparr>)"

text \<open>The destructor counts down for every fiber.\<close>

definition Fiber_destroy :: "fsys \<Rightarrow> fsys" where
  "Fiber_destroy S = S\<lparr>fs_fiber_count := fs_fiber_count S - 1\<rparr>"

definition Fiber_GetFiberId :: "tls \<Rightarrow> fsys \<Rightarrow> u64" where
  "Fiber_GetFiberId T S = (case t_fiber T of Some f \<Rightarrow> ucast (fb_id (fs_fibers S ! f)) | None \<Rightarrow> 0)"

definition Fiber_GetThis :: "tls \<Rightarrow> fsys \<Rightarrow> nat \<times> tls \<times> fsys" where
  "Fiber_GetThis T S =
     (case t_fiber T of
        Some f \<Rightarrow> (f, T, S)
      | None \<Rightarrow>
          (case Fiber_main T S of
             (f, T1, S1) \<Rightarrow> (f, T1\<lparr>t_thread_main_fiber := Some f\<rparr>, S1)))"

section \<open>Switching\<close>

type_synonym conf = "stmt list \<times> tls \<times> fsys"

text \<open>
  Whether what runs in the fiber stays inside its stack; the main fiber of a thread runs on the
  stack of the thread.
\<close>

definition fits :: "fsys \<Rightarrow> fiber \<Rightarrow> bool" where
  "fits S fb \<longleftrightarrow> fb_stack fb = None \<or> fs_need S \<le> fb_ss_size fb"

text \<open>
  \<^verbatim>\<open>swapcontext(a, b)\<close> with \<open>k\<close> still to be done: a context that was never saved by a switch
  belongs to a stack frame that is gone, and a context without room for its code writes outside
  of its stack.
\<close>

definition swapcontext :: "nat \<Rightarrow> nat \<Rightarrow> stmt list \<Rightarrow> tls \<Rightarrow> fsys \<Rightarrow> conf res" where
  "swapcontext a b k T S =
     (let S1 = upd_fiber a (\<lambda>f. f\<lparr>fb_ctx := Some k\<rparr>) S
      in case fb_ctx (fs_fibers S1 ! b) of
           None \<Rightarrow> Inl UseAfterFree
         | Some k' \<Rightarrow> if fits S1 (fs_fibers S1 ! b) then Inr (k', T, S1) else Inl StackOverflow)"

definition Fiber_call :: "nat \<Rightarrow> stmt list \<Rightarrow> tls \<Rightarrow> fsys \<Rightarrow> conf res" where
  "Fiber_call f k T S =
     (let T1 = T\<lparr>t_fiber := Some f\<rparr>
      in case t_thread_main_fiber T1 of
           None \<Rightarrow> Inl NullDeref
         | Some m \<Rightarrow> swapcontext m f k T1 S)"

definition Fiber_back :: "nat \<Rightarrow> stmt list \<Rightarrow> tls \<Rightarrow> fsys \<Rightarrow> conf res" where
  "Fiber_back f k T S =
     (let T1 = T\<lparr>t_fiber := t_thread_main_fiber T\<rparr>
      in case t_thread_main_fiber T1 of
           None \<Rightarrow> Inl NullDeref
         | Some m \<Rightarrow> swapcontext f m k T1 S)"

definition Fiber_swapIn :: "nat \<Rightarrow> stmt list \<Rightarrow> tls \<Rightarrow> fsys \<Rightarrow> conf res" where
  "Fiber_swapIn f k T S =
     (let T1 = T\<lparr>t_fiber := Some f\<rparr>
      in case t_scheduler_fiber T1 of
           None \<Rightarrow> Inl NullDeref
         | Some m \<Rightarrow> swapcontext m f k T1 S)"

definition Fiber_swapOut :: "nat \<Rightarrow> stmt list \<Rightarrow> tls \<Rightarrow> fsys \<Rightarrow> conf res" where
  "Fiber_swapOut f k T S =
     (let T1 = T\<lparr>t_fiber := t_scheduler_fiber T\<rparr>
      in case t_fiber T1 of
           None \<Rightarrow> Inl NullDeref
         | Some m \<Rightarrow> swapcontext f m k T1 S)"

definition Fiber_Yield :: "stmt list \<Rightarrow> tls \<Rightarrow> fsys \<Rightarrow> conf res" where
  "Fiber_Yield k T S =
     (case Fiber_GetThis T S of (cur, T1, S1) \<Rightarrow> Fiber_swapOut cur k T1 S1)"

text \<open>
  An exception leaves the callback for the handlers of \<^verbatim>\<open>MainFunc\<close>; outside of any callback it ends
  the program.
\<close>

fun raise :: "string \<Rightarrow> stmt list \<Rightarrow> tls \<Rightarrow> fsys \<Rightarrow> conf res" where
  "raise msg [] T S = Inl (RuntimeError msg)"
| "raise msg (st # k) T S =
     (case st of
        CbEnd f \<Rightarrow> Inr (k, T, upd_fiber f (\<lambda>fb. fb\<lparr>fb_state := EXCEPT\<rparr>) S)
      | _ \<Rightarrow> raise msg k T S)"

text \<open>\<^verbatim>\<open>reset\<close> tells the new context the 32-bit \<^verbatim>\<open>m_stacksize\<close>, not the size of the allocation.\<close>

definition Fiber_reset :: "nat \<Rightarrow> stmt list \<Rightarrow> stmt list \<Rightarrow> tls \<Rightarrow> fsys \<Rightarrow> conf res" where
  "Fiber_reset f cb k T S =
     (case fb_stack (fs_fibers S ! f) of
        None \<Rightarrow> raise ''Fiber::reset m_stack == nullptr'' k T S
      | Some sp \<Rightarrow> Inr (k, T, upd_fiber f (\<lambda>fb. fb\<lparr>fb_cb := Some cb, fb_ctx := Some [MainFunc],
           fb_ss_size := ucast (fb_stacksize fb)\<rparr>) S))"

text \<open>\<^verbatim>\<open>MainFunc\<close>: the callback, its end, the last \<^verbatim>\<open>swapOut\<close>, and falling off the function.\<close>

definition Fiber_MainFunc :: "tls \<Rightarrow> fsys \<Rightarrow> conf res" where
  "Fiber_MainFunc T S =
     (case Fiber_GetThis T S of
        (cur, T1, S1) \<Rightarrow>
          (case fb_cb (fs_fibers S1 ! cur) of
             None \<Rightarrow> raise ''bad_function_call'' [CbEnd cur, SwapOut cur, ExitThread] T1 S1
           | Some cb \<Rightarrow> Inr (cb @ [CbEnd cur, SwapOut cur, ExitThread], T1, S1)))"

section \<open>The scheduler on one thread\<close>

text \<open>
  The constructor: with \<^verbatim>\<open>user_caller\<close> the calling thread gets a root fiber that executes \<^verbatim>\<open>run\<close>, and
  this root fiber, not the thread's main fiber, becomes its scheduler fiber.
\<close>

definition Scheduler_new :: "bool \<Rightarrow> tls \<Rightarrow> fsys \<Rightarrow> tls \<times> fsys" where
  "Scheduler_new user_caller T S =
     (let S0 = S\<lparr>fs_queue := [], fs_stopping := True, fs_root := None\<rparr>
      in if user_caller
         then (case Fiber_GetThis T S0 of
                 (m, T1, S1) \<Rightarrow>
                   (case Fiber [RunStart True] (1024 * 128) S1 of
                      (r, S2) \<Rightarrow> (T1\<lparr>t_scheduler_fiber := Some r\<rparr>, S2\<lparr>fs_root := Some r\<rparr>)))
         else (T, S0))"

text \<open>\<^verbatim>\<open>stop\<close> after the threads are joined: the root fiber is called.\<close>

definition Scheduler_stop :: "stmt list \<Rightarrow> tls \<Rightarrow> fsys \<Rightarrow> conf res" where
  "Scheduler_stop k T S =
     (let S1 = S\<lparr>fs_stopping := True\<rparr>
      in case fs_root S1 of
           None \<Rightarrow> Inr (k, T, S1)
         | Some r \<Rightarrow> Fiber_call r k T S1)"

text \<open>
  The start of \<^verbatim>\<open>run\<close>: a worker makes its main fiber the scheduler fiber, the log line looks at
  it, and the idle fiber is made, which the loop never enters.
\<close>

definition Scheduler_run_start :: "bool \<Rightarrow> stmt list \<Rightarrow> tls \<Rightarrow> fsys \<Rightarrow> conf res" where
  "Scheduler_run_start is_root k T S =
     (case (if is_root then (T, S)
            else (case Fiber_GetThis T S of (f, T1, S1) \<Rightarrow> (T1\<lparr>t_scheduler_fiber := Some f\<rparr>, S1))) of
        (T1, S1) \<Rightarrow>
          (case t_scheduler_fiber T1 of
             None \<Rightarrow> Inl NullDeref
           | Some m \<Rightarrow> (case Fiber [Yield] (1024 * 128) S1 of (idle, S2) \<Rightarrow> Inr (RunLoop # k, T1, S2))))"

text \<open>One turn: the last fiber of the queue, or the end; with neither the thread waits.\<close>

definition Scheduler_run_loop :: "stmt list \<Rightarrow> tls \<Rightarrow> fsys \<Rightarrow> conf res" where
  "Scheduler_run_loop k T S =
     (if fs_queue S \<noteq> []
      then Inr (SwapIn (last (fs_queue S)) # RunLoop # k, T, S\<lparr>fs_queue := butlast (fs_queue S)\<rparr>)
      else if fs_stopping S then Inr (k, T, S)
      else Inr (RunLoop # k, T, S))"

section \<open>Execution\<close>

fun exec :: "stmt \<Rightarrow> stmt list \<Rightarrow> tls \<Rightarrow> fsys \<Rightarrow> conf res" where
  "exec (Work w) k T S = Inr (k, T, S\<lparr>fs_out := fs_out S @ [w]\<rparr>)"
| "exec (Throw msg) k T S = raise msg k T S"
| "exec (NewFiber cb sz) k T S = Inr (k, T, snd (Fiber cb sz S))"
| "exec (Call f) k T S = Fiber_call f k T S"
| "exec (Back f) k T S = Fiber_back f k T S"
| "exec (SwapIn f) k T S = Fiber_swapIn f k T S"
| "exec (SwapOut f) k T S = Fiber_swapOut f k T S"
| "exec Yield k T S = Fiber_Yield k T S"
| "exec (Reset f cb) k T S = Fiber_reset f cb k T S"
| "exec MainFunc k T S = Fiber_MainFunc T S"
| "exec (CbEnd f) k T S = Inr (k, T, upd_fiber f (\<lambda>fb. fb\<lparr>fb_cb := None, fb_state := TERMINATED\<rparr>) S)"
| "exec ExitThread k T S = Inl ThreadExit"
| "exec (MakeScheduler use) k T S = (case Scheduler_new use T S of (T1, S1) \<Rightarrow> Inr (k, T1, S1))"
| "exec Start k T S = Inr (k, T, S\<lparr>fs_stopping := False\<rparr>)"
| "exec Stop k T S = Scheduler_stop k T S"
| "exec (Schedule f) k T S = Inr (k, T, S\<lparr>fs_queue := fs_queue S @ [f]\<rparr>)"
| "exec (RunStart is_root) k T S = Scheduler_run_start is_root k T S"
| "exec RunLoop k T S = Scheduler_run_loop k T S"

fun step :: "conf \<Rightarrow> conf res" where
  "step ([], T, S) = Inr ([], T, S)"
| "step (st # k, T, S) = exec st k T S"

primrec steps :: "nat \<Rightarrow> conf \<Rightarrow> conf res" where
  "steps 0 c = Inr c"
| "steps (Suc n) c = rbind (step c) (steps n)"

lemma steps_add: "steps (m + n) c = rbind (steps m c) (steps n)"
proof (induction m arbitrary: c)
  case 0
  show ?case by simp
next
  case (Suc m)
  then show ?case by (cases "step c") simp_all
qed

text \<open>Execution from one configuration to another, and into an error.\<close>

definition leads :: "conf \<Rightarrow> conf \<Rightarrow> bool" where
  "leads c c' \<longleftrightarrow> (\<exists>n. steps n c = Inr c')"

definition fails :: "conf \<Rightarrow> err \<Rightarrow> bool" where
  "fails c e \<longleftrightarrow> (\<exists>n. steps n c = Inl e)"

lemma leads_refl [simp]: "leads c c"
  unfolding leads_def by (rule exI [where x = 0]) simp

lemma leads_trans [trans]: "leads a b \<Longrightarrow> leads b c \<Longrightarrow> leads a c"
  unfolding leads_def by (metis rbind.simps(2) steps_add)

lemma leads_step: "step c = Inr c' \<Longrightarrow> leads c c'"
  unfolding leads_def by (rule exI [where x = 1]) simp

lemma leads_fails: "leads a b \<Longrightarrow> step b = Inl e \<Longrightarrow> fails a e"
proof -
  assume "leads a b" and e: "step b = Inl e"
  then obtain n where "steps n a = Inr b" by (auto simp: leads_def)
  then have "steps (n + 1) a = Inl e" using e by (simp only: steps_add) simp
  then show ?thesis unfolding fails_def by blast
qed

end
