(* ===== verification/FiberProps.thy ===== *)
theory FiberProps
  imports Fiber
begin

text \<open>
  What the fibers and the one-thread scheduler do. The specification is a coroutine: a chain of
  blocks of marks with a pause between two blocks and, after the last one, a return or an
  exception; resuming a coroutine prints one block. The fibers of \<^verbatim>\<open>fiber.cpp\<close>, whose callbacks
  are such chains with a \<^verbatim>\<open>Yield\<close> at every pause, refine it.
\<close>

section \<open>Coroutines\<close>

datatype coro =
    Pause "string list" coro
  | Finish "string list"
  | Fail "string list" string

text \<open>
  Where a fiber is: waiting to be resumed, with the value \<^verbatim>\<open>m_state\<close> has in the meantime, or ended.
  Only the end of a callback sets \<^verbatim>\<open>m_state\<close>.
\<close>

datatype costate = Ready fstate coro | Ended fstate

fun co_state :: "costate \<Rightarrow> fstate" where
  "co_state (Ready st c) = st"
| "co_state (Ended st) = st"

fun marks :: "coro \<Rightarrow> string list" where
  "marks (Pause ws c) = ws"
| "marks (Finish ws) = ws"
| "marks (Fail ws m) = ws"

fun next_state :: "fstate \<Rightarrow> coro \<Rightarrow> costate" where
  "next_state st (Pause ws c) = Ready st c"
| "next_state st (Finish ws) = Ended TERMINATED"
| "next_state st (Fail ws m) = Ended EXCEPT"

text \<open>
  What a scheduler may do with fibers: resume one, or give one a new callback. The marks printed
  and where every fiber then is; \<open>None\<close> when an ended fiber is resumed.
\<close>

datatype act = Resume nat | Renew nat coro

fun act_fiber :: "act \<Rightarrow> nat" where
  "act_fiber (Resume f) = f"
| "act_fiber (Renew f c) = f"

fun run_acts :: "(nat \<Rightarrow> costate) \<Rightarrow> act list \<Rightarrow> (string list \<times> (nat \<Rightarrow> costate)) option" where
  "run_acts C [] = Some ([], C)"
| "run_acts C (Resume f # as) =
     (case C f of
        Ended s \<Rightarrow> None
      | Ready st c \<Rightarrow>
          (case run_acts (C(f := next_state st c)) as of
             None \<Rightarrow> None
           | Some (ws, C') \<Rightarrow> Some (marks c @ ws, C')))"
| "run_acts C (Renew f c # as) = run_acts (C(f := Ready (co_state (C f)) c)) as"

definition resume_all :: "(nat \<Rightarrow> costate) \<Rightarrow> nat list \<Rightarrow> (string list \<times> (nat \<Rightarrow> costate)) option" where
  "resume_all C fs = run_acts C (map Resume fs)"

lemma resume_all_simps [simp]:
  "resume_all C [] = Some ([], C)"
  "resume_all C (f # fs) =
     (case C f of
        Ended s \<Rightarrow> None
      | Ready st c \<Rightarrow>
          (case resume_all (C(f := next_state st c)) fs of
             None \<Rightarrow> None
           | Some (ws, C') \<Rightarrow> Some (marks c @ ws, C')))"
  unfolding resume_all_def by simp_all

text \<open>The callback that behaves as a coroutine.\<close>

fun code :: "coro \<Rightarrow> stmt list" where
  "code (Pause ws c) = map Work ws @ Yield # code c"
| "code (Finish ws) = map Work ws"
| "code (Fail ws m) = map Work ws @ [Throw m]"

section \<open>The relation between fibers and coroutines\<close>

definition suspended :: "nat \<Rightarrow> fiber \<Rightarrow> costate \<Rightarrow> bool" where
  "suspended f fb cs \<longleftrightarrow>
     fb_stack fb \<noteq> None \<and>
     (case cs of
        Ready st c \<Rightarrow>
          fb_state fb = st
          \<and> (fb_ctx fb = Some [MainFunc] \<and> fb_cb fb = Some (code c)
             \<or> fb_ctx fb = Some (code c @ [CbEnd f, SwapOut f, ExitThread]))
      | Ended s \<Rightarrow> fb_state fb = s \<and> fb_ctx fb = Some [ExitThread])"

text \<open>Room for what a fiber runs, now and after a \<^verbatim>\<open>reset\<close>.\<close>

definition roomy :: "fsys \<Rightarrow> fiber \<Rightarrow> bool" where
  "roomy S fb \<longleftrightarrow> fits S fb \<and> fs_need S \<le> ucast (fb_stacksize fb)"

text \<open>
  The fibers of \<open>F\<close> are at the places \<open>C\<close>, the scheduler fiber of the thread is \<open>m\<close>, and all of them
  have room.
\<close>

definition represents :: "nat set \<Rightarrow> nat \<Rightarrow> (nat \<Rightarrow> costate) \<Rightarrow> tls \<Rightarrow> fsys \<Rightarrow> bool" where
  "represents F m C T S \<longleftrightarrow>
     t_scheduler_fiber T = Some m \<and> m < length (fs_fibers S) \<and> m \<notin> F \<and> fits S (fs_fibers S ! m)
     \<and> (\<forall>f \<in> F. f < length (fs_fibers S) \<and> suspended f (fs_fibers S ! f) (C f)
          \<and> roomy S (fs_fibers S ! f))"

section \<open>Running one block\<close>

lemma upd_fiber_same [simp]:
  "f < length (fs_fibers S) \<Longrightarrow> fs_fibers (upd_fiber f g S) ! f = g (fs_fibers S ! f)"
  by (simp add: upd_fiber_def)

lemma upd_fiber_other [simp]:
  "f \<noteq> h \<Longrightarrow> fs_fibers (upd_fiber f g S) ! h = fs_fibers S ! h"
  by (simp add: upd_fiber_def)

lemma upd_fiber_frame [simp]:
  "length (fs_fibers (upd_fiber f g S)) = length (fs_fibers S)"
  "fs_out (upd_fiber f g S) = fs_out S"
  "fs_queue (upd_fiber f g S) = fs_queue S"
  "fs_stopping (upd_fiber f g S) = fs_stopping S"
  "fs_root (upd_fiber f g S) = fs_root S"
  "fs_need (upd_fiber f g S) = fs_need S"
  by (simp_all add: upd_fiber_def)

lemma fits_frame [simp]:
  "fits (upd_fiber f g S) fb = fits S fb" "roomy (upd_fiber f g S) fb = roomy S fb"
  "fits (S\<lparr>fs_queue := q\<rparr>) fb = fits S fb" "roomy (S\<lparr>fs_queue := q\<rparr>) fb = roomy S fb"
  "fits (S\<lparr>fs_stopping := b\<rparr>) fb = fits S fb" "roomy (S\<lparr>fs_stopping := b\<rparr>) fb = roomy S fb"
  "fits (S\<lparr>fs_root := r\<rparr>) fb = fits S fb" "roomy (S\<lparr>fs_root := r\<rparr>) fb = roomy S fb"
  "fits (S\<lparr>fs_out := ws\<rparr>) fb = fits S fb" "roomy (S\<lparr>fs_out := ws\<rparr>) fb = roomy S fb"
  "fits (snd (Fiber cb sz S)) fb = fits S fb" "roomy (snd (Fiber cb sz S)) fb = roomy S fb"
  "fits S (fb\<lparr>fb_ctx := c\<rparr>) = fits S fb" "roomy S (fb\<lparr>fb_ctx := c\<rparr>) = roomy S fb"
  "fits S (fb\<lparr>fb_cb := cbo\<rparr>) = fits S fb" "roomy S (fb\<lparr>fb_cb := cbo\<rparr>) = roomy S fb"
  "fits S (fb\<lparr>fb_state := st\<rparr>) = fits S fb" "roomy S (fb\<lparr>fb_state := st\<rparr>) = roomy S fb"
  by (simp_all add: roomy_def fits_def Fiber_def)

text \<open>Printing marks.\<close>

definition print :: "string list \<Rightarrow> fsys \<Rightarrow> fsys" where
  "print ws S = S\<lparr>fs_out := fs_out S @ ws\<rparr>"

lemma print_sel [simp]:
  "fs_fibers (print ws S) = fs_fibers S"
  "fs_out (print ws S) = fs_out S @ ws"
  "fs_queue (print ws S) = fs_queue S"
  "fs_stopping (print ws S) = fs_stopping S"
  "fs_root (print ws S) = fs_root S"
  "fs_need (print ws S) = fs_need S"
  "fits (print ws S) fb = fits S fb" "roomy (print ws S) fb = roomy S fb"
  by (simp_all add: print_def)

lemma leads_first: "step c = Inr c' \<Longrightarrow> leads c' d \<Longrightarrow> leads c d"
  by (metis leads_step leads_trans)

lemma leads_Work: "leads (map Work ws @ k, T, S) (k, T, print ws S)"
proof (induction ws arbitrary: S)
  case Nil
  then show ?case by (simp add: print_def)
next
  case (Cons w ws)
  show ?case
    by (rule leads_first [OF _ Cons.IH [of "S\<lparr>fs_out := fs_out S @ [w]\<rparr>", unfolded print_def, simplified, folded print_def]])
       (simp add: print_def)
qed

text \<open>From the body of a callback to the switch that leaves it.\<close>

definition leave :: "nat \<Rightarrow> coro \<Rightarrow> stmt list \<times> (fiber \<Rightarrow> fiber)" where
  "leave f c =
     (case c of
        Pause ws c' \<Rightarrow> (code c' @ [CbEnd f, SwapOut f, ExitThread], id)
      | Finish ws \<Rightarrow> ([ExitThread], \<lambda>fb. fb\<lparr>fb_cb := None, fb_state := TERMINATED\<rparr>)
      | Fail ws m \<Rightarrow> ([ExitThread], \<lambda>fb. fb\<lparr>fb_state := EXCEPT\<rparr>))"

lemma upd_fiber_id [simp]: "upd_fiber f id S = S"
  by (simp add: upd_fiber_def)

lemma swapOut_to_scheduler:
  assumes "t_scheduler_fiber T = Some m" "fb_ctx (fs_fibers S ! m) = Some k'" "f \<noteq> m"
    and "fits S (fs_fibers S ! m)"
  shows "Fiber_swapOut f k T S
           = Inr (k', T\<lparr>t_fiber := Some m\<rparr>, upd_fiber f (\<lambda>fb. fb\<lparr>fb_ctx := Some k\<rparr>) S)"
  using assms by (simp add: Fiber_swapOut_def swapcontext_def Let_def)

lemma Yield_to_scheduler:
  assumes "t_scheduler_fiber T = Some m" "fb_ctx (fs_fibers S ! m) = Some k'" "f \<noteq> m"
    and "fits S (fs_fibers S ! m)" "t_fiber T = Some f"
  shows "Fiber_Yield k T S
           = Inr (k', T\<lparr>t_fiber := Some m\<rparr>, upd_fiber f (\<lambda>fb. fb\<lparr>fb_ctx := Some k\<rparr>) S)"
  using assms by (simp add: Fiber_Yield_def Fiber_GetThis_def swapOut_to_scheduler)

lemma body_runs:
  assumes sched: "t_scheduler_fiber T = Some m" "fb_ctx (fs_fibers S ! m) = Some k'" "f \<noteq> m"
      "fits S (fs_fibers S ! m)"
    and cur: "t_fiber T = Some f"
    and len: "f < length (fs_fibers S)"
  shows "leads (code c @ [CbEnd f, SwapOut f, ExitThread], T, S)
           (k', T\<lparr>t_fiber := Some m\<rparr>,
            upd_fiber f (\<lambda>fb. (snd (leave f c) fb)\<lparr>fb_ctx := Some (fst (leave f c))\<rparr>) (print (marks c) S))"
proof (cases c)
  case (Pause ws c')
  have ctx: "fb_ctx (fs_fibers (print ws S) ! m) = Some k'" "fits (print ws S) (fs_fibers (print ws S) ! m)"
    using sched by simp_all
  show ?thesis
    unfolding Pause code.simps append_assoc append_Cons
    by (rule leads_trans [OF leads_Work], rule leads_step)
       (simp add: leave_def Yield_to_scheduler [OF sched(1) ctx(1) sched(3) ctx(2) cur])
next
  case (Finish ws)
  let ?g = "\<lambda>fb. fb\<lparr>fb_cb := None, fb_state := TERMINATED\<rparr>"
  have ctx: "fb_ctx (fs_fibers (upd_fiber f ?g (print ws S)) ! m) = Some k'"
    "fits (upd_fiber f ?g (print ws S)) (fs_fibers (upd_fiber f ?g (print ws S)) ! m)"
    using sched by simp_all
  have "step (CbEnd f # [SwapOut f, ExitThread], T, print ws S)
          = Inr ([SwapOut f, ExitThread], T, upd_fiber f ?g (print ws S))" by simp
  moreover have "step ([SwapOut f, ExitThread], T, upd_fiber f ?g (print ws S))
      = Inr (k', T\<lparr>t_fiber := Some m\<rparr>,
             upd_fiber f (\<lambda>fb. fb\<lparr>fb_ctx := Some [ExitThread]\<rparr>) (upd_fiber f ?g (print ws S)))"
    by (simp add: swapOut_to_scheduler [OF sched(1) ctx(1) sched(3) ctx(2)])
  ultimately show ?thesis
    unfolding Finish code.simps
    using len
    by (intro leads_trans [OF leads_Work])
       (auto intro!: leads_first [OF _ leads_step] simp: leave_def upd_fiber_def print_def)
next
  case (Fail ws msg)
  let ?g = "\<lambda>fb. fb\<lparr>fb_state := EXCEPT\<rparr>"
  have ctx: "fb_ctx (fs_fibers (upd_fiber f ?g (print ws S)) ! m) = Some k'"
    "fits (upd_fiber f ?g (print ws S)) (fs_fibers (upd_fiber f ?g (print ws S)) ! m)"
    using sched by simp_all
  have "step (Throw msg # [CbEnd f, SwapOut f, ExitThread], T, print ws S)
          = Inr ([SwapOut f, ExitThread], T, upd_fiber f ?g (print ws S))" by simp
  moreover have "step ([SwapOut f, ExitThread], T, upd_fiber f ?g (print ws S))
      = Inr (k', T\<lparr>t_fiber := Some m\<rparr>,
             upd_fiber f (\<lambda>fb. fb\<lparr>fb_ctx := Some [ExitThread]\<rparr>) (upd_fiber f ?g (print ws S)))"
    by (simp add: swapOut_to_scheduler [OF sched(1) ctx(1) sched(3) ctx(2)])
  ultimately show ?thesis
    unfolding Fail code.simps append_assoc append_Cons append_Nil
    using len
    by (intro leads_trans [OF leads_Work])
       (auto intro!: leads_first [OF _ leads_step] simp: leave_def upd_fiber_def print_def)
qed

section \<open>One resumption\<close>

text \<open>The switch into a fiber saves the scheduler's rest and goes on in the fiber.\<close>

lemma swapIn_saves:
  assumes "t_scheduler_fiber T = Some m" "fb_ctx (fs_fibers S ! f) = Some k'" "f \<noteq> m"
    and "fits S (fs_fibers S ! f)"
  shows "Fiber_swapIn f k T S
           = Inr (k', T\<lparr>t_fiber := Some f\<rparr>, upd_fiber m (\<lambda>fb. fb\<lparr>fb_ctx := Some k\<rparr>) S)"
  using assms by (simp add: Fiber_swapIn_def swapcontext_def Let_def)

lemma MainFunc_starts:
  assumes "t_fiber T = Some f" "fb_cb (fs_fibers S ! f) = Some cb"
  shows "step (MainFunc # k, T, S) = Inr (cb @ [CbEnd f, SwapOut f, ExitThread], T, S)"
  using assms by (simp add: Fiber_MainFunc_def Fiber_GetThis_def)

lemma enter_body:
  assumes "represents F m C T S" "f \<in> F" "C f = Ready st c"
  shows "leads (SwapIn f # k, T, S)
           (code c @ [CbEnd f, SwapOut f, ExitThread], T\<lparr>t_fiber := Some f\<rparr>,
            upd_fiber m (\<lambda>fb. fb\<lparr>fb_ctx := Some k\<rparr>) S)"
proof -
  have m: "t_scheduler_fiber T = Some m" "f \<noteq> m" and sus: "suspended f (fs_fibers S ! f) (Ready st c)"
    and room: "fits S (fs_fibers S ! f)"
    using assms by (auto simp: represents_def roomy_def)
  from sus consider
      (fresh) "fb_ctx (fs_fibers S ! f) = Some [MainFunc]" "fb_cb (fs_fibers S ! f) = Some (code c)"
    | (saved) "fb_ctx (fs_fibers S ! f) = Some (code c @ [CbEnd f, SwapOut f, ExitThread])"
    by (auto simp: suspended_def)
  then show ?thesis
  proof cases
    case fresh
    show ?thesis
      by (rule leads_first [OF _ leads_step [OF MainFunc_starts]])
         (use fresh m in \<open>simp_all add: swapIn_saves [OF m(1) fresh(1) m(2) room]\<close>)
  next
    case saved
    show ?thesis
      by (rule leads_step) (simp add: swapIn_saves [OF m(1) saved m(2) room])
  qed
qed

lemma fits_after [simp]: "fits S (snd (leave f c) fb) = fits S fb"
  by (cases c) (simp_all add: leave_def)

lemma roomy_after [simp]: "roomy S (snd (leave f c) fb) = roomy S fb"
  by (cases c) (simp_all add: leave_def)

lemma suspended_after:
  assumes "suspended f fb (Ready st c)"
  shows "suspended f ((snd (leave f c) fb)\<lparr>fb_ctx := Some (fst (leave f c))\<rparr>) (next_state st c)"
  using assms by (cases c) (auto simp: suspended_def leave_def)

text \<open>
  What the fibers and the scheduler's variables have in common before and after: the number of
  fibers, the queue, the flag and the root; and a fiber that has room keeps it.
\<close>

definition same_sched :: "fsys \<Rightarrow> fsys \<Rightarrow> bool" where
  "same_sched S S' \<longleftrightarrow> fs_queue S' = fs_queue S \<and> fs_stopping S' = fs_stopping S
     \<and> fs_root S' = fs_root S \<and> length (fs_fibers S') = length (fs_fibers S) \<and> fs_need S' = fs_need S
     \<and> (\<forall>h < length (fs_fibers S). fits S (fs_fibers S ! h) \<longrightarrow> fits S' (fs_fibers S' ! h))"

lemma same_sched_trans: "same_sched S S' \<Longrightarrow> same_sched S' S'' \<Longrightarrow> same_sched S S''"
  by (simp add: same_sched_def)

lemma resume_one_frame:
  assumes rep: "represents F m C T S" and f: "f \<in> F" and c: "C f = Ready st c"
  shows "\<exists>T' S'. leads (SwapIn f # k, T, S) (k, T', S')
           \<and> represents F m (C(f := next_state st c)) T' S'
           \<and> fs_out S' = fs_out S @ marks c \<and> t_fiber T' = Some m
           \<and> t_thread_main_fiber T' = t_thread_main_fiber T \<and> same_sched S S'
           \<and> (\<forall>h. h \<noteq> m \<and> h \<noteq> f \<longrightarrow> fs_fibers S' ! h = fs_fibers S ! h)"
proof -
  let ?S1 = "upd_fiber m (\<lambda>fb. fb\<lparr>fb_ctx := Some k\<rparr>) S"
  let ?T1 = "T\<lparr>t_fiber := Some f\<rparr>"
  let ?S2 = "upd_fiber f (\<lambda>fb. (snd (leave f c) fb)\<lparr>fb_ctx := Some (fst (leave f c))\<rparr>) (print (marks c) ?S1)"
  have m: "t_scheduler_fiber T = Some m" "m < length (fs_fibers S)" "f \<noteq> m" "f < length (fs_fibers S)"
      "fits S (fs_fibers S ! m)"
    and sus: "\<And>h. h \<in> F \<Longrightarrow> h \<noteq> m \<and> h < length (fs_fibers S) \<and> suspended h (fs_fibers S ! h) (C h)
        \<and> roomy S (fs_fibers S ! h)"
    using rep f by (auto simp: represents_def)
  have "leads (SwapIn f # k, T, S) (k, ?T1\<lparr>t_fiber := Some m\<rparr>, ?S2)"
    using leads_trans [OF enter_body [OF rep f c] body_runs [where k' = k and m = m]] m by simp
  moreover have "represents F m (C(f := next_state st c)) (?T1\<lparr>t_fiber := Some m\<rparr>) ?S2"
  proof -
    have "suspended h (fs_fibers ?S2 ! h) ((C(f := next_state st c)) h)
        \<and> roomy ?S2 (fs_fibers ?S2 ! h)" if h: "h \<in> F" for h
    proof (cases "h = f")
      case True
      then show ?thesis
        using suspended_after [of f "fs_fibers S ! f" st c] sus [OF f] c m by simp
    next
      case False
      then show ?thesis using sus [OF h] by simp
    qed
    then show ?thesis using rep m by (simp add: represents_def)
  qed
  moreover have "fits ?S2 (fs_fibers ?S2 ! h)" if "fits S (fs_fibers S ! h)" for h
    using that m by (cases "h = m"; cases "h = f") simp_all
  ultimately show ?thesis
    by (intro exI [of _ "?T1\<lparr>t_fiber := Some m\<rparr>"] exI [of _ ?S2]) (simp add: same_sched_def)
qed

lemma resume_one:
  assumes "represents F m C T S" "f \<in> F" "C f = Ready st c"
  shows "\<exists>T' S'. leads (SwapIn f # k, T, S) (k, T', S')
           \<and> represents F m (C(f := next_state st c)) T' S'
           \<and> fs_out S' = fs_out S @ marks c \<and> t_fiber T' = Some m
           \<and> t_thread_main_fiber T' = t_thread_main_fiber T \<and> same_sched S S'"
  using resume_one_frame [OF assms] by blast

lemma resume_ended:
  assumes rep: "represents F m C T S" and f: "f \<in> F" and c: "C f = Ended s"
  shows "fails (SwapIn f # k, T, S) ThreadExit"
proof -
  have m: "t_scheduler_fiber T = Some m" "f \<noteq> m"
    and x: "fb_ctx (fs_fibers S ! f) = Some [ExitThread]" "fits S (fs_fibers S ! f)"
    using rep f c by (auto simp: represents_def suspended_def roomy_def)
  have "step (SwapIn f # k, T, S)
          = Inr ([ExitThread], T\<lparr>t_fiber := Some f\<rparr>, upd_fiber m (\<lambda>fb. fb\<lparr>fb_ctx := Some k\<rparr>) S)"
    by (simp add: swapIn_saves [OF m(1) x(1) m(2) x(2)])
  then show ?thesis by (rule leads_fails [OF leads_step]) simp
qed

text \<open>A fiber that was made without room for its code writes outside of its stack.\<close>

lemma resume_without_room:
  assumes "t_scheduler_fiber T = Some m" "f \<noteq> m" "fb_ctx (fs_fibers S ! f) \<noteq> None"
    and "\<not> fits S (fs_fibers S ! f)"
  shows "fails (SwapIn f # k, T, S) StackOverflow"
proof -
  have "step (SwapIn f # k, T, S) = Inl StackOverflow"
    using assms by (auto simp: Fiber_swapIn_def swapcontext_def Let_def)
  then show ?thesis by (rule leads_fails [OF leads_refl])
qed

lemma small_stack_overflows:
  assumes "t_scheduler_fiber T = Some m" "m < length (fs_fibers S)" "sz < fs_need S"
  shows "fails (SwapIn (fst (Fiber cb sz S)) # k, T, snd (Fiber cb sz S)) StackOverflow"
  by (rule resume_without_room [OF assms(1)])
     (use assms(2,3) in \<open>simp_all add: fits_def, simp_all add: Fiber_def\<close>)

lemma leads_then_fails: "leads a b \<Longrightarrow> fails b e \<Longrightarrow> fails a e"
proof -
  assume "leads a b" "fails b e"
  then obtain n n' where "steps n a = Inr b" "steps n' b = Inl e"
    by (auto simp: leads_def fails_def)
  then have "steps (n + n') a = Inl e" by (simp only: steps_add) simp
  then show ?thesis by (auto simp: fails_def)
qed

section \<open>Doing things in a given order\<close>

fun act_stmt :: "act \<Rightarrow> stmt" where
  "act_stmt (Resume f) = SwapIn f"
| "act_stmt (Renew f c) = Reset f (code c)"

lemma renew_one:
  assumes rep: "represents F m C T S" and f: "f \<in> F"
  shows "\<exists>S'. leads (Reset f (code c) # k, T, S) (k, T, S')
           \<and> represents F m (C(f := Ready (co_state (C f)) c)) T S' \<and> fs_out S' = fs_out S \<and> same_sched S S'"
proof -
  let ?g = "\<lambda>fb. fb\<lparr>fb_cb := Some (code c), fb_ctx := Some [MainFunc], fb_ss_size := ucast (fb_stacksize fb)\<rparr>"
  let ?S' = "upd_fiber f ?g S"
  have sus: "\<And>h. h \<in> F \<Longrightarrow> h < length (fs_fibers S) \<and> h \<noteq> m \<and> suspended h (fs_fibers S ! h) (C h)
      \<and> roomy S (fs_fibers S ! h)"
    using rep by (auto simp: represents_def)
  have roomy: "roomy S (?g fb)" if "roomy S fb" for fb
    using that by (auto simp: roomy_def fits_def)
  have st: "fb_state (fs_fibers S ! f) = co_state (C f)" "fb_stack (fs_fibers S ! f) \<noteq> None"
    using sus [OF f] by (auto simp: suspended_def split: costate.splits)
  then have "leads (Reset f (code c) # k, T, S) (k, T, ?S')"
    by (intro leads_step) (auto simp: Fiber_reset_def)
  moreover have "suspended h (fs_fibers ?S' ! h) ((C(f := Ready (co_state (C f)) c)) h)
      \<and> roomy ?S' (fs_fibers ?S' ! h)" if h: "h \<in> F" for h
    using sus [OF h] st roomy by (cases "h = f") (auto simp: suspended_def)
  then have "represents F m (C(f := Ready (co_state (C f)) c)) T ?S'"
    using rep sus [OF f] by (simp add: represents_def)
  moreover have "fits ?S' (fs_fibers ?S' ! h)" if "fits S (fs_fibers S ! h)" for h
    using that sus [OF f] roomy [of "fs_fibers S ! f"] by (cases "h = f") (simp_all add: roomy_def)
  ultimately show ?thesis by (intro exI [of _ ?S']) (simp add: same_sched_def)
qed

lemma run_acts_refines:
  assumes "represents F m C T S" "act_fiber ` set as \<subseteq> F" "run_acts C as = Some (ws, C')"
  shows "\<exists>T' S'. leads (map act_stmt as @ k, T, S) (k, T', S')
           \<and> represents F m C' T' S' \<and> fs_out S' = fs_out S @ ws \<and> same_sched S S'"
  using assms
proof (induction as arbitrary: C T S ws)
  case Nil
  then show ?case by (auto simp: same_sched_def intro!: exI [of _ T] exI [of _ S])
next
  case (Cons a as)
  have "\<exists>C1 ws1 ws2 T1 S1. leads (act_stmt a # map act_stmt as @ k, T, S) (map act_stmt as @ k, T1, S1)
      \<and> represents F m C1 T1 S1 \<and> fs_out S1 = fs_out S @ ws1 \<and> same_sched S S1
      \<and> run_acts C1 as = Some (ws2, C') \<and> ws = ws1 @ ws2"
  proof (cases a)
    case (Resume f)
    with Cons.prems(3) obtain st c ws' where c: "C f = Ready st c"
        and ws': "run_acts (C(f := next_state st c)) as = Some (ws', C')" "ws = marks c @ ws'"
      by (auto split: costate.splits option.splits)
    show ?thesis
      using resume_one [OF Cons.prems(1) _ c, of "map act_stmt as @ k"] Cons.prems(2) Resume ws' by fastforce
  next
    case (Renew f c)
    obtain S1 where "leads (Reset f (code c) # map act_stmt as @ k, T, S) (map act_stmt as @ k, T, S1)"
        "represents F m (C(f := Ready (co_state (C f)) c)) T S1" "fs_out S1 = fs_out S" "same_sched S S1"
      using renew_one [OF Cons.prems(1), of f c "map act_stmt as @ k"] Cons.prems(2) Renew by auto
    with Cons.prems(3) Renew show ?thesis by fastforce
  qed
  then obtain C1 ws1 ws2 T1 S1 where
      one: "leads (act_stmt a # map act_stmt as @ k, T, S) (map act_stmt as @ k, T1, S1)"
        "represents F m C1 T1 S1" "fs_out S1 = fs_out S @ ws1" "same_sched S S1"
      and ws: "run_acts C1 as = Some (ws2, C')" "ws = ws1 @ ws2"
    by blast
  obtain T2 S2 where two: "leads (map act_stmt as @ k, T1, S1) (k, T2, S2)"
      "represents F m C' T2 S2" "fs_out S2 = fs_out S1 @ ws2" "same_sched S1 S2"
    using Cons.IH [OF one(2) _ ws(1)] Cons.prems(2) by auto
  show ?case
    using leads_trans [OF one(1) two(1)] two one ws(2) same_sched_trans
    by (intro exI [of _ T2] exI [of _ S2]) auto
qed

lemma run_acts_fails:
  assumes "represents F m C T S" "act_fiber ` set as \<subseteq> F" "run_acts C as = None"
  shows "fails (map act_stmt as @ k, T, S) ThreadExit"
  using assms
proof (induction as arbitrary: C T S)
  case Nil
  then show ?case by simp
next
  case (Cons a as)
  show ?case
  proof (cases a)
    case (Resume f)
    with Cons.prems(2) have f: "f \<in> F" by simp
    show ?thesis
    proof (cases "C f")
      case (Ended s)
      then show ?thesis using resume_ended [OF Cons.prems(1) f] Resume by simp
    next
      case (Ready st c)
      obtain T1 S1 where one: "leads (SwapIn f # map act_stmt as @ k, T, S) (map act_stmt as @ k, T1, S1)"
          "represents F m (C(f := next_state st c)) T1 S1"
        using resume_one [OF Cons.prems(1) f Ready] by fastforce
      have "run_acts (C(f := next_state st c)) as = None"
        using Cons.prems(3) Ready Resume by (simp split: option.splits prod.splits)
      then have "fails (map act_stmt as @ k, T1, S1) ThreadExit"
        by (rule Cons.IH [OF one(2), rotated]) (use Cons.prems(2) in auto)
      with one(1) Resume show ?thesis using leads_then_fails by fastforce
    qed
  next
    case (Renew f c)
    obtain S1 where one: "leads (Reset f (code c) # map act_stmt as @ k, T, S) (map act_stmt as @ k, T, S1)"
        "represents F m (C(f := Ready (co_state (C f)) c)) T S1"
      using renew_one [OF Cons.prems(1), of f c "map act_stmt as @ k"] Cons.prems(2) Renew by auto
    have "run_acts (C(f := Ready (co_state (C f)) c)) as = None" using Cons.prems(3) Renew by simp
    then have "fails (map act_stmt as @ k, T, S1) ThreadExit"
      by (rule Cons.IH [OF one(2), rotated]) (use Cons.prems(2) in auto)
    with one(1) Renew show ?thesis using leads_then_fails by fastforce
  qed
qed

section \<open>The loop\<close>

lemma represents_queue [simp]:
  "represents F m C T (S\<lparr>fs_queue := q\<rparr>) = represents F m C T S"
  "represents F m C T (S\<lparr>fs_stopping := b\<rparr>) = represents F m C T S"
  "represents F m C T (S\<lparr>fs_root := r\<rparr>) = represents F m C T S"
  by (simp_all add: represents_def)

lemma run_drains_queue:
  assumes "represents F m C T S" "fs_stopping S" "fs_queue S = rev fs" "set fs \<subseteq> F"
    "resume_all C fs = Some (ws, C')"
  shows "\<exists>T' S'. leads (RunLoop # k, T, S) (k, T', S')
           \<and> represents F m C' T' S' \<and> fs_out S' = fs_out S @ ws \<and> fs_queue S' = []"
  using assms
proof (induction fs arbitrary: C T S ws)
  case Nil
  then show ?case
    by (intro exI [of _ T] exI [of _ S] conjI leads_step) (auto simp: Scheduler_run_loop_def)
next
  case (Cons f fs)
  let ?S0 = "S\<lparr>fs_queue := rev fs\<rparr>"
  from Cons.prems(5) obtain st c ws' where c: "C f = Ready st c"
      and ws': "resume_all (C(f := next_state st c)) fs = Some (ws', C')" "ws = marks c @ ws'"
    by (auto split: costate.splits option.splits)
  have take: "step (RunLoop # k, T, S) = Inr (SwapIn f # RunLoop # k, T, ?S0)"
    using Cons.prems(3) by (simp add: Scheduler_run_loop_def)
  have rep0: "represents F m C T ?S0" using Cons.prems(1) by simp
  obtain T1 S1 where one: "leads (SwapIn f # RunLoop # k, T, ?S0) (RunLoop # k, T1, S1)"
      "represents F m (C(f := next_state st c)) T1 S1" "fs_out S1 = fs_out S @ marks c" "same_sched ?S0 S1"
    using resume_one [where k = "RunLoop # k", OF rep0 _ c] Cons.prems(4) by fastforce
  have "fs_stopping S1" "fs_queue S1 = rev fs" using one(4) Cons.prems(2) by (auto simp: same_sched_def)
  then obtain T2 S2 where two: "leads (RunLoop # k, T1, S1) (k, T2, S2)"
      "represents F m C' T2 S2" "fs_out S2 = fs_out S1 @ ws'" "fs_queue S2 = []"
    using Cons.IH [OF one(2) _ _ _ ws'(1)] Cons.prems(4) by auto
  show ?case
    using leads_trans [OF leads_first [OF take one(1)] two(1)] two one ws'(2)
    by (intro exI [of _ T2] exI [of _ S2]) auto
qed

section \<open>A scheduler on the calling thread\<close>

text \<open>
  The program of a thread that makes a scheduler for itself, starts it, makes the fibers \<open>cs\<close>
  with their sizes of stack, schedules those that \<open>qs\<close> numbers, and stops it.
\<close>

definition make_fiber :: "coro \<times> u64 \<Rightarrow> stmt" where
  "make_fiber c = NewFiber (code (fst c)) (snd c)"

definition caller_program :: "(coro \<times> u64) list \<Rightarrow> nat list \<Rightarrow> stmt list \<Rightarrow> stmt list" where
  "caller_program cs qs k =
     [MakeScheduler True, Start] @ map make_fiber cs
     @ map (\<lambda>q. Schedule (q + 2)) qs @ Stop # k"

definition new_thread :: tls where
  "new_thread = \<lparr>t_fiber = None, t_thread_main_fiber = None, t_scheduler_fiber = None\<rparr>"

definition new_system :: "u64 \<Rightarrow> fsys" where
  "new_system need = \<lparr>fs_fibers = [], fs_fiber_id = 0, fs_fiber_count = 0, fs_queue = [],
     fs_stopping = True, fs_root = None, fs_out = [], fs_need = need\<rparr>"

text \<open>A size of stack that is large enough, also after its upper half is lost in \<^verbatim>\<open>m_stacksize\<close>.\<close>

definition usable :: "u64 \<Rightarrow> u64 \<Rightarrow> bool" where
  "usable need sz \<longleftrightarrow> need \<le> sz \<and> need \<le> ucast (ucast sz :: u32)"

definition all_ready :: "(coro \<times> u64) list \<Rightarrow> nat \<Rightarrow> costate" where
  "all_ready cs f = Ready INIT (if f - 2 < length cs then fst (cs ! (f - 2)) else Finish [])"

text \<open>What making the scheduler establishes and making fibers and scheduling them keep.\<close>

definition set_up :: "(coro \<times> u64) list \<Rightarrow> nat list \<Rightarrow> tls \<Rightarrow> fsys \<Rightarrow> bool" where
  "set_up cs qs T S \<longleftrightarrow>
     represents {2..<length cs + 2} 1 (all_ready cs) T S
     \<and> length (fs_fibers S) = length cs + 2 \<and> fs_queue S = map (\<lambda>q. q + 2) qs \<and> fs_out S = []
     \<and> fs_root S = Some 1 \<and> t_thread_main_fiber T = Some 0
     \<and> fb_ctx (fs_fibers S ! 1) = Some [MainFunc] \<and> fb_cb (fs_fibers S ! 1) = Some [RunStart True]"

lemma set_up_make:
  assumes "need \<le> 1024 * 128"
  shows "\<exists>T S. leads (MakeScheduler True # Start # k, new_thread, new_system need) (k, T, S)
    \<and> set_up [] [] T S \<and> fs_need S = need"
proof -
  obtain T S where TS: "Scheduler_new True new_thread (new_system need) = (T, S)" by fastforce
  have "leads (MakeScheduler True # Start # k, new_thread, new_system need) (k, T, S\<lparr>fs_stopping := False\<rparr>)"
    by (rule leads_first [where c' = "(Start # k, T, S)", OF _ leads_step]) (simp_all add: TS)
  moreover have "set_up [] [] T (S\<lparr>fs_stopping := False\<rparr>) \<and> fs_need (S\<lparr>fs_stopping := False\<rparr>) = need"
    using TS assms by (auto simp: fits_def Scheduler_new_def Fiber_GetThis_def Fiber_main_def Fiber_def new_thread_def
        new_system_def Let_def set_up_def represents_def)
  ultimately show ?thesis by blast
qed

lemma set_up_fiber:
  assumes "set_up cs qs T S" "usable (fs_need S) sz"
  shows "set_up (cs @ [(c, sz)]) qs T (snd (Fiber (code c) sz S))"
proof -
  let ?S' = "snd (Fiber (code c) sz S)" and ?cs = "cs @ [(c, sz)]"
  have "suspended f (fs_fibers ?S' ! f) (all_ready ?cs f) \<and> roomy ?S' (fs_fibers ?S' ! f)"
    if "f \<in> {2..<length ?cs + 2}" for f
  proof (cases "f = length cs + 2")
    case True
    then show ?thesis using assms
      by (simp add: set_up_def Fiber_def suspended_def all_ready_def nth_append roomy_def fits_def
          usable_def)
  next
    case False
    with that have "f \<in> {2..<length cs + 2}" by auto
    then have "suspended f (fs_fibers S ! f) (all_ready cs f)" "f < length (fs_fibers S)"
      "roomy S (fs_fibers S ! f)" "all_ready ?cs f = all_ready cs f"
      using assms unfolding set_up_def represents_def by (fast, fast, fast, auto simp: all_ready_def nth_append)
    moreover have "fs_fibers ?S' ! f = fs_fibers S ! f" using \<open>f < length (fs_fibers S)\<close>
      by (simp add: Fiber_def nth_append)
    ultimately show ?thesis by simp
  qed
  moreover have "fs_fibers ?S' ! 1 = fs_fibers S ! 1" "length (fs_fibers ?S') = Suc (length (fs_fibers S))"
    using assms(1) by (simp_all add: set_up_def Fiber_def nth_append)
  moreover have "fs_queue ?S' = fs_queue S" "fs_out ?S' = fs_out S" "fs_root ?S' = fs_root S"
    by (simp_all add: Fiber_def)
  ultimately show ?thesis using assms(1) by (auto simp: set_up_def represents_def)
qed

lemma set_up_fibers:
  "set_up cs qs T S \<Longrightarrow> \<forall>c \<in> set cs'. usable (fs_need S) (snd c) \<Longrightarrow>
     \<exists>S'. leads (map make_fiber cs' @ k, T, S) (k, T, S') \<and> set_up (cs @ cs') qs T S'"
proof (induction cs' arbitrary: cs S)
  case Nil
  then show ?case by (auto intro!: exI [of _ S])
next
  case (Cons c cs')
  let ?S1 = "snd (Fiber (code (fst c)) (snd c) S)"
  have "set_up (cs @ [c]) qs T ?S1" using set_up_fiber [OF Cons.prems(1), of "snd c" "fst c"] Cons.prems(2) by simp
  moreover have "\<forall>c \<in> set cs'. usable (fs_need ?S1) (snd c)" using Cons.prems(2) by (simp add: Fiber_def)
  ultimately obtain S' where "leads (map make_fiber cs' @ k, T, ?S1) (k, T, S')"
      "set_up ((cs @ [c]) @ cs') qs T S'"
    using Cons.IH by blast
  then show ?case by (intro exI [of _ S']) (auto simp: make_fiber_def intro: leads_first [rotated])
qed

lemma set_up_schedule:
  "set_up cs qs T S \<Longrightarrow>
     \<exists>S'. leads (map (\<lambda>q. Schedule (q + 2)) qs' @ k, T, S) (k, T, S') \<and> set_up cs (qs @ qs') T S'"
proof (induction qs' arbitrary: qs S)
  case Nil
  then show ?case by (auto intro!: exI [of _ S])
next
  case (Cons q qs')
  have "set_up cs (qs @ [q]) T (S\<lparr>fs_queue := fs_queue S @ [q + 2]\<rparr>)"
    using Cons.prems by (simp add: set_up_def)
  then obtain S' where
      "leads (map (\<lambda>q. Schedule (q + 2)) qs' @ k, T, S\<lparr>fs_queue := fs_queue S @ [q + 2]\<rparr>) (k, T, S')"
      "set_up cs ((qs @ [q]) @ qs') T S'"
    using Cons.IH by blast
  then show ?case by (intro exI [of _ S']) (auto intro: leads_first [rotated])
qed

text \<open>From \<^verbatim>\<open>stop\<close> to the loop, in the root fiber.\<close>

lemma stop_enters_loop:
  assumes "set_up cs qs T S"
  shows "\<exists>T' S'. leads (Stop # k, T, S) (RunLoop # [CbEnd 1, SwapOut 1, ExitThread], T', S')
           \<and> represents {2..<length cs + 2} 1 (all_ready cs) T' S' \<and> fs_stopping S'
           \<and> fs_queue S' = map (\<lambda>q. q + 2) qs \<and> fs_out S' = []"
proof -
  let ?T1 = "T\<lparr>t_fiber := Some 1\<rparr>"
  let ?S1 = "upd_fiber 0 (\<lambda>fb. fb\<lparr>fb_ctx := Some k\<rparr>) (S\<lparr>fs_stopping := True\<rparr>)"
  let ?S2 = "snd (Fiber [Yield] (1024 * 128) ?S1)"
  let ?K = "[CbEnd 1, SwapOut 1, ExitThread]"
  have s1: "step (Stop # k, T, S) = Inr ([MainFunc], ?T1, ?S1)"
    using assms by (auto simp: set_up_def represents_def Scheduler_stop_def Fiber_call_def swapcontext_def Let_def)
  have s2: "step ([MainFunc], ?T1, ?S1) = Inr ([RunStart True] @ ?K, ?T1, ?S1)"
    using assms by (intro MainFunc_starts) (auto simp: set_up_def)
  have s3: "step (RunStart True # ?K, ?T1, ?S1) = Inr (RunLoop # ?K, ?T1, ?S2)"
    using assms by (auto simp: set_up_def represents_def Scheduler_run_start_def Fiber_def)
  have "leads (Stop # k, T, S) (RunLoop # ?K, ?T1, ?S2)"
    using leads_first [OF s1 leads_first [OF s2]] leads_step [OF s3] by simp
  moreover have "represents {2..<length cs + 2} 1 (all_ready cs) ?T1 ?S2"
  proof -
    have same: "fs_fibers ?S2 ! f = fs_fibers S ! f" if "f \<noteq> 0" "f < length (fs_fibers S)" for f
      using that by (simp add: Fiber_def nth_append)
    have len: "length (fs_fibers S) \<le> length (fs_fibers ?S2)" by (simp add: Fiber_def)
    have "represents {2..<length cs + 2} 1 (all_ready cs) T S" using assms by (simp add: set_up_def)
    then show ?thesis using same len by (fastforce simp: represents_def)
  qed
  ultimately show ?thesis
    using assms by (intro exI [of _ ?T1] exI [of _ ?S2]) (auto simp: set_up_def Fiber_def upd_fiber_def)
qed

lemma root_fiber_ends:
  assumes "t_scheduler_fiber T = Some m" "m < length (fs_fibers S)" "fits S (fs_fibers S ! m)"
  shows "\<exists>T' S'. leads ([CbEnd m, SwapOut m, ExitThread], T, S) ([ExitThread], T', S')
           \<and> fs_out S' = fs_out S"
proof -
  let ?S1 = "upd_fiber m (\<lambda>fb. fb\<lparr>fb_cb := None, fb_state := TERMINATED\<rparr>) S"
  let ?S2 = "upd_fiber m (\<lambda>fb. fb\<lparr>fb_ctx := Some [ExitThread]\<rparr>) ?S1"
  have "step ([SwapOut m, ExitThread], T, ?S1) = Inr ([ExitThread], T\<lparr>t_fiber := Some m\<rparr>, ?S2)"
    using assms by (simp add: Fiber_swapOut_def swapcontext_def Let_def)
  then have "leads ([CbEnd m, SwapOut m, ExitThread], T, S) ([ExitThread], T\<lparr>t_fiber := Some m\<rparr>, ?S2)"
    by (rule leads_first [where c' = "([SwapOut m, ExitThread], T, ?S1)", OF _ leads_step, rotated]) simp
  then show ?thesis by (intro exI [of _ "T\<lparr>t_fiber := Some m\<rparr>"] exI [of _ ?S2]) simp
qed

lemma caller_program_runs:
  assumes "need \<le> 1024 * 128" "\<forall>c \<in> set cs. usable need (snd c)"
    and "set qs \<subseteq> {..<length cs}" "resume_all (all_ready cs) (rev (map (\<lambda>q. q + 2) qs)) = Some (ws, C')"
  shows "\<exists>T' S'. leads (caller_program cs qs k, new_thread, new_system need) ([ExitThread], T', S')
           \<and> fs_out S' = ws"
proof -
  let ?q = "rev (map (\<lambda>q. q + 2) qs)"
  let ?K = "[CbEnd 1, SwapOut 1, ExitThread]"
  let ?p1 = "map (\<lambda>q. Schedule (q + 2)) qs @ Stop # k"
  let ?p0 = "map make_fiber cs @ ?p1"
  obtain T S0 where s0: "leads (caller_program cs qs k, new_thread, new_system need) (?p0, T, S0)"
      and u0: "set_up [] [] T S0" "fs_need S0 = need"
    using set_up_make [OF assms(1), of ?p0] by (auto simp: caller_program_def)
  obtain S1 where s1: "leads (?p0, T, S0) (?p1, T, S1)" and u1: "set_up cs [] T S1"
    using set_up_fibers [OF u0(1), of cs ?p1] assms(2) u0(2) by auto
  obtain S2 where s2: "leads (?p1, T, S1) (Stop # k, T, S2)" and u2: "set_up cs qs T S2"
    using set_up_schedule [OF u1, of qs "Stop # k"] by auto
  obtain T3 S3 where s3: "leads (Stop # k, T, S2) (RunLoop # ?K, T3, S3)"
      and r3: "represents {2..<length cs + 2} 1 (all_ready cs) T3 S3" "fs_stopping S3"
        "fs_queue S3 = rev ?q" "fs_out S3 = []"
    using stop_enters_loop [OF u2, of k] by auto
  have q: "set ?q \<subseteq> {2..<length cs + 2}" using assms(3) by auto
  obtain T4 S4 where s4: "leads (RunLoop # ?K, T3, S3) (?K, T4, S4)"
      and r4: "represents {2..<length cs + 2} 1 C' T4 S4" "fs_out S4 = ws"
    using run_drains_queue [OF r3(1,2,3) q assms(4), of ?K] r3(4) by auto
  obtain T5 S5 where s5: "leads (?K, T4, S4) ([ExitThread], T5, S5)" and o5: "fs_out S5 = ws"
    using root_fiber_ends [of T4 1 S4] r4 by (auto simp: represents_def)
  from s0 s1 have "leads (caller_program cs qs k, new_thread, new_system need) (?p1, T, S1)" by (rule leads_trans)
  also note s2 also note s3 also note s4 also note s5
  finally show ?thesis using o5 by blast
qed

lemma resume_all_distinct:
  assumes "distinct fs" "\<forall>f \<in> set fs. C f = Ready INIT (c f)"
  shows "\<exists>C'. resume_all C fs = Some (concat (map (\<lambda>f. marks (c f)) fs), C')"
  using assms
proof (induction fs arbitrary: C)
  case Nil
  then show ?case by simp
next
  case (Cons f fs)
  have "\<forall>h \<in> set fs. (C(f := next_state INIT (c f))) h = Ready INIT (c h)" using Cons.prems by auto
  then obtain C' where "resume_all (C(f := next_state INIT (c f))) fs = Some (concat (map (\<lambda>f. marks (c f)) fs), C')"
    using Cons.IH Cons.prems(1) by (metis distinct.simps(2))
  then show ?case using Cons.prems(2) by simp
qed

section \<open>Properties\<close>

text \<open>
  C29 (Fiber::swapIn, swapOut, Yield, reset, MainFunc). Fibers refine coroutines. When a thread's
  scheduler fiber resumes and resets fibers of \<open>F\<close> in any order \<open>as\<close>, each resumption executes
  exactly the next block of that fiber's callback, up to its next \<^verbatim>\<open>Yield\<close>, its end or its
  exception, and comes back to the scheduler's rest \<open>k\<close>; a callback that has returned leaves the
  fiber in \<^verbatim>\<open>TERM\<close>, one that threw in \<^verbatim>\<open>EXCEPT\<close>, and one that yielded in the state it had. \<^verbatim>\<open>reset\<close>
  starts a new callback at any point, also behind an end, but keeps \<^verbatim>\<open>m_state\<close>. Resuming a fiber that has ended
  runs off the end of \<^verbatim>\<open>MainFunc\<close> and ends the thread. All this is for fibers whose stacks have room
  for what they run; one that is made with a smaller stack (the default size is 0) leaves its stack
  at its first resumption.
\<close>

theorem swapIns_refine_coroutines:
  assumes "represents F m C T S" "act_fiber ` set as \<subseteq> F"
  shows "(case run_acts C as of
            Some (ws, C') \<Rightarrow>
              (\<exists>T' S'. leads (map act_stmt as @ k, T, S) (k, T', S')
                 \<and> represents F m C' T' S' \<and> fs_out S' = fs_out S @ ws)
          | None \<Rightarrow> fails (map act_stmt as @ k, T, S) ThreadExit)
    \<and> (\<forall>cb sz. sz < fs_need S \<longrightarrow>
         fails (SwapIn (fst (Fiber cb sz S)) # k, T, snd (Fiber cb sz S)) StackOverflow)"
proof
  show "case run_acts C as of
          Some (ws, C') \<Rightarrow>
            (\<exists>T' S'. leads (map act_stmt as @ k, T, S) (k, T', S')
               \<and> represents F m C' T' S' \<and> fs_out S' = fs_out S @ ws)
        | None \<Rightarrow> fails (map act_stmt as @ k, T, S) ThreadExit"
  proof (cases "run_acts C as")
    case None
    then show ?thesis using run_acts_fails [OF assms] by simp
  next
    case (Some r)
    obtain ws C' where r: "r = (ws, C')" by fastforce
    show ?thesis using run_acts_refines [OF assms, of ws C' k] Some r by auto
  qed
  show "\<forall>cb sz. sz < fs_need S \<longrightarrow>
      fails (SwapIn (fst (Fiber cb sz S)) # k, T, snd (Fiber cb sz S)) StackOverflow"
    using assms(1) by (auto intro!: small_stack_overflows simp: represents_def)
qed

text \<open>
  C30 (Scheduler, Fiber::call). A scheduler made on the calling thread never gives it back. The thread makes a scheduler
  with \<^verbatim>\<open>user_caller\<close>, starts it, makes fibers \<open>cs\<close>, schedules the fibers \<open>qs\<close> and calls \<^verbatim>\<open>stop\<close>: the root
  fiber takes the fibers from the back of the queue, so the last scheduled runs first; every one
  of them executes its first block only, for a fiber that yields is not scheduled again; and when
  the queue is empty the root fiber swaps out into itself and falls off \<^verbatim>\<open>MainFunc\<close>, which ends the
  thread. Nothing of the rest \<open>k\<close> after \<^verbatim>\<open>stop\<close> is executed. The fibers \<open>cs\<close> are given with their sizes of
  stack, and every stack, that of the root fiber included, has room for the \<open>need\<close> bytes that the
  code in a fiber takes.
\<close>

theorem stop_ends_the_calling_thread:
  assumes "distinct qs" "set qs \<subseteq> {..<length cs}"
    and "need \<le> 1024 * 128" "\<forall>c \<in> set cs. usable need (snd c)"
  shows "(\<exists>T' S'. leads (caller_program cs qs k, new_thread, new_system need) ([ExitThread], T', S')
            \<and> fs_out S' = concat (map (\<lambda>q. marks (fst (cs ! q))) (rev qs)))
         \<and> fails (caller_program cs qs k, new_thread, new_system need) ThreadExit"
proof -
  let ?fs = "rev (map (\<lambda>q. q + 2) qs)"
  have "\<forall>f \<in> set ?fs. all_ready cs f = Ready INIT (fst (cs ! (f - 2)))"
    using assms(2) by (auto simp: all_ready_def)
  moreover have "distinct ?fs" using assms(1) by (simp add: distinct_map inj_on_def)
  ultimately obtain C' where
      C': "resume_all (all_ready cs) ?fs = Some (concat (map (\<lambda>f. marks (fst (cs ! (f - 2)))) ?fs), C')"
    using resume_all_distinct [of ?fs "all_ready cs" "\<lambda>f. fst (cs ! (f - 2))"] by blast
  have "map (\<lambda>f. marks (fst (cs ! (f - 2)))) ?fs = map (\<lambda>q. marks (fst (cs ! q))) (rev qs)"
    by (simp add: rev_map)
  then obtain T' S' where run: "leads (caller_program cs qs k, new_thread, new_system need) ([ExitThread], T', S')"
      "fs_out S' = concat (map (\<lambda>q. marks (fst (cs ! q))) (rev qs))"
    using caller_program_runs [OF assms(3,4,2) C', of k] by auto
  have "fails (caller_program cs qs k, new_thread, new_system need) ThreadExit"
    by (rule leads_fails [OF run(1)]) simp
  with run show ?thesis by blast
qed

section \<open>Witnesses\<close>

definition demo :: "coro list" where
  "demo = [Pause [''a''] (Finish [''b'']), Pause [''c''] (Fail [''d''] ''boom'')]"

text \<open>Stacks of 128 kB, as the scheduler's own fibers have them, for code that takes 4 kB.\<close>

definition demo_sized :: "(coro \<times> u64) list" where
  "demo_sized = map (\<lambda>c. (c, 1024 * 128)) demo"

lemma demo_usable: "usable 4096 (1024 * 128)"
  by (simp add: usable_def)

theorem stop_ends_the_calling_thread_witness:
  "\<exists>T' S'. leads (caller_program demo_sized [0, 1] [Work ''after''], new_thread, new_system 4096) ([ExitThread], T', S')
     \<and> fs_out S' = [''c'', ''a'']"
proof -
  have "\<forall>c \<in> set demo_sized. usable 4096 (snd c)" using demo_usable by (simp add: demo_sized_def)
  from stop_ends_the_calling_thread [OF _ _ _ this, of "[0, 1]" "[Work ''after'']"]
  show ?thesis by (simp add: demo_sized_def demo_def)
qed

definition demo_system :: "fsys" where
  "demo_system = snd (Fiber (code (demo ! 1)) (1024 * 128) (snd (Fiber (code (demo ! 0)) (1024 * 128)
     (snd (snd (Fiber_GetThis new_thread (new_system 4096)))))))"

definition demo_thread :: tls where
  "demo_thread = \<lparr>t_fiber = Some 0, t_thread_main_fiber = Some 0, t_scheduler_fiber = Some 0\<rparr>"

theorem swapIns_refine_coroutines_witness:
  "\<exists>T' S'. leads ([SwapIn 1, SwapIn 2, SwapIn 1, SwapIn 2, Reset 2 [Work ''e'', Yield, Work ''f''], SwapIn 2],
        demo_thread, demo_system) ([], T', S')
     \<and> fs_out S' = [''a'', ''c'', ''b'', ''d'', ''e''] \<and> fb_state (fs_fibers S' ! 1) = TERMINATED
     \<and> fb_state (fs_fibers S' ! 2) = EXCEPT
     \<and> fails ([SwapIn 3], demo_thread, snd (Fiber [Work ''g''] 0 demo_system)) StackOverflow"
proof -
  let ?C = "\<lambda>f. Ready INIT (demo ! (f - 1))"
  let ?as = "[Resume 1, Resume 2, Resume 1, Resume 2, Renew 2 (Pause [''e''] (Finish [''f''])), Resume 2]"
  have rep: "represents {1, 2} 0 ?C demo_thread demo_system"
    by (simp add: represents_def suspended_def demo_system_def demo_thread_def demo_def Fiber_GetThis_def
        Fiber_main_def Fiber_def new_thread_def new_system_def roomy_def fits_def)
  have acts: "act_fiber ` set ?as \<subseteq> {1, 2}" by simp
  note both = swapIns_refine_coroutines [OF rep acts, of "[]"]
  have "\<exists>T' S'. leads ([SwapIn 1, SwapIn 2, SwapIn 1, SwapIn 2, Reset 2 [Work ''e'', Yield, Work ''f''], SwapIn 2],
        demo_thread, demo_system) ([], T', S')
     \<and> fs_out S' = [''a'', ''c'', ''b'', ''d'', ''e''] \<and> fb_state (fs_fibers S' ! 1) = TERMINATED
     \<and> fb_state (fs_fibers S' ! 2) = EXCEPT"
    using conjunct1 [OF both]
    by (auto simp: demo_def new_system_def demo_system_def Fiber_def Fiber_GetThis_def Fiber_main_def
        new_thread_def represents_def suspended_def)
  moreover have "fst (Fiber [Work ''g''] 0 demo_system) = 3" "0 < fs_need demo_system"
    by (simp_all add: demo_system_def Fiber_def Fiber_GetThis_def Fiber_main_def new_thread_def new_system_def)
  then have "fails ([SwapIn 3], demo_thread, snd (Fiber [Work ''g''] 0 demo_system)) StackOverflow"
    using conjunct2 [OF both, rule_format, of 0 "[Work ''g'']"] by simp
  ultimately show ?thesis by blast
qed

end
