(* ===== verification/FiberIds.thy ===== *)
theory FiberIds
  imports FiberProps
begin

text \<open>
  The numbers of fibers: the static counter has 64 bits, \<^verbatim>\<open>m_id\<close> has 32, and the count of living
  fibers goes up for fibers with a callback only but down for every one.
\<close>

section \<open>The invariant\<close>

definition with_callback :: "fiber list \<Rightarrow> nat" where
  "with_callback fbs = length (filter (\<lambda>fb. fb_stack fb \<noteq> None) fbs)"

definition ids_ok :: "fsys \<Rightarrow> bool" where
  "ids_ok S \<longleftrightarrow> fs_fiber_id S = of_nat (length (fs_fibers S))
     \<and> map fb_id (fs_fibers S) = map of_nat [0..<length (fs_fibers S)]
     \<and> fs_fiber_count S = of_nat (with_callback (fs_fibers S))"

lemma narrow_of_nat: "(ucast (of_nat n :: u64) :: u32) = of_nat n"
proof -
  have "take_bit 32 (take_bit 64 n) = take_bit 32 n" by simp
  then show ?thesis by (simp add: unsigned_of_nat word_of_nat_eq_iff)
qed

lemma ids_ok_Fiber_main: "ids_ok S \<Longrightarrow> ids_ok (snd (snd (Fiber_main T S)))"
  by (simp add: ids_ok_def Fiber_main_def with_callback_def narrow_of_nat)

lemma ids_ok_Fiber: "ids_ok S \<Longrightarrow> ids_ok (snd (Fiber cb sz S))"
  by (simp add: ids_ok_def Fiber_def with_callback_def narrow_of_nat)

lemma ids_ok_made: "Fiber cb sz S = (f, S') \<Longrightarrow> ids_ok S \<Longrightarrow> ids_ok S'"
  using ids_ok_Fiber [of S cb sz] by simp

text \<open>A change of a fiber that keeps its id and its stack.\<close>

lemma map_upd_same: "i < length xs \<Longrightarrow> h x = h (xs ! i) \<Longrightarrow> map h (xs[i := x]) = map h xs"
  by (metis list_update_id map_update)

lemma filter_upd_same:
  "i < length xs \<Longrightarrow> P x = P (xs ! i) \<Longrightarrow> length (filter P (xs[i := x])) = length (filter P xs)"
  by (induction xs arbitrary: i) (auto simp: nth_Cons split: nat.splits)

lemma ids_ok_upd:
  assumes "\<And>fb. fb_id (g fb) = fb_id fb" "\<And>fb. fb_stack (g fb) = fb_stack fb"
  shows "ids_ok (upd_fiber f g S) \<longleftrightarrow> ids_ok S"
proof (cases "f < length (fs_fibers S)")
  case True
  then show ?thesis
    using assms by (simp add: ids_ok_def upd_fiber_def with_callback_def map_upd_same filter_upd_same)
next
  case False
  then show ?thesis by (simp add: upd_fiber_def list_update_beyond not_less)
qed

lemma ids_ok_frame [simp]:
  "ids_ok (S\<lparr>fs_queue := q\<rparr>) = ids_ok S" "ids_ok (S\<lparr>fs_stopping := b\<rparr>) = ids_ok S"
  "ids_ok (S\<lparr>fs_root := r\<rparr>) = ids_ok S" "ids_ok (S\<lparr>fs_out := out\<rparr>) = ids_ok S"
  by (simp_all add: ids_ok_def)

section \<open>Every statement keeps it\<close>

lemma ids_ok_swapcontext: "swapcontext a b k T S = Inr (k', T', S') \<Longrightarrow> ids_ok S \<Longrightarrow> ids_ok S'"
  by (auto simp: swapcontext_def Let_def ids_ok_upd split: option.splits if_splits)

lemma ids_ok_GetThis: "Fiber_GetThis T S = (f, T', S') \<Longrightarrow> ids_ok S \<Longrightarrow> ids_ok S'"
  using ids_ok_Fiber_main [of S T] by (auto simp: Fiber_GetThis_def split: option.splits prod.splits)

lemma ids_ok_raise: "raise msg k T S = Inr (k', T', S') \<Longrightarrow> ids_ok S \<Longrightarrow> ids_ok S'"
  by (induction msg k T S rule: raise.induct) (auto simp: ids_ok_upd split: stmt.splits)

lemma ids_ok_swapOut: "Fiber_swapOut f k T S = Inr (k', T', S') \<Longrightarrow> ids_ok S \<Longrightarrow> ids_ok S'"
  by (auto simp: Fiber_swapOut_def Let_def dest: ids_ok_swapcontext split: option.splits)

lemma ids_ok_call: "Fiber_call f k T S = Inr (k', T', S') \<Longrightarrow> ids_ok S \<Longrightarrow> ids_ok S'"
  by (auto simp: Fiber_call_def Let_def dest: ids_ok_swapcontext split: option.splits)

lemma ids_ok_new: "Scheduler_new use T S = (T', S') \<Longrightarrow> ids_ok S \<Longrightarrow> ids_ok S'"
  by (auto simp: Scheduler_new_def Let_def dest!: ids_ok_GetThis ids_ok_made split: if_splits prod.splits)

lemma ids_ok_run_start: "Scheduler_run_start r k T S = Inr (k', T', S') \<Longrightarrow> ids_ok S \<Longrightarrow> ids_ok S'"
  by (auto simp: Scheduler_run_start_def dest!: ids_ok_GetThis ids_ok_made split: if_splits prod.splits option.splits)

lemma ids_ok_exec: "exec st k T S = Inr (k', T', S') \<Longrightarrow> ids_ok S \<Longrightarrow> ids_ok S'"
proof (cases st)
  case (Back f)
  then show "exec st k T S = Inr (k', T', S') \<Longrightarrow> ids_ok S \<Longrightarrow> ids_ok S'"
    by (auto simp: Fiber_back_def Let_def dest: ids_ok_swapcontext split: option.splits)
next
  case (SwapIn f)
  then show "exec st k T S = Inr (k', T', S') \<Longrightarrow> ids_ok S \<Longrightarrow> ids_ok S'"
    by (auto simp: Fiber_swapIn_def Let_def dest: ids_ok_swapcontext split: option.splits)
next
  case Yield
  then show "exec st k T S = Inr (k', T', S') \<Longrightarrow> ids_ok S \<Longrightarrow> ids_ok S'"
    by (auto simp: Fiber_Yield_def dest: ids_ok_GetThis ids_ok_swapOut split: prod.splits)
next
  case (Reset f cb)
  then show "exec st k T S = Inr (k', T', S') \<Longrightarrow> ids_ok S \<Longrightarrow> ids_ok S'"
    by (auto simp: Fiber_reset_def ids_ok_upd dest: ids_ok_raise split: option.splits)
next
  case MainFunc
  then show "exec st k T S = Inr (k', T', S') \<Longrightarrow> ids_ok S \<Longrightarrow> ids_ok S'"
    by (auto simp: Fiber_MainFunc_def ids_ok_upd dest: ids_ok_GetThis split: prod.splits option.splits)
next
  case Stop
  then show "exec st k T S = Inr (k', T', S') \<Longrightarrow> ids_ok S \<Longrightarrow> ids_ok S'"
    by (auto simp: Scheduler_stop_def Let_def dest: ids_ok_call split: option.splits)
next
  case RunLoop
  then show "exec st k T S = Inr (k', T', S') \<Longrightarrow> ids_ok S \<Longrightarrow> ids_ok S'"
    by (auto simp: Scheduler_run_loop_def split: if_splits)
qed (auto simp: ids_ok_upd ids_ok_Fiber dest: ids_ok_raise ids_ok_call ids_ok_swapOut ids_ok_new ids_ok_run_start
      split: prod.splits)

lemma ids_ok_step: "step c = Inr c' \<Longrightarrow> ids_ok (snd (snd c)) \<Longrightarrow> ids_ok (snd (snd c'))"
  by (cases c rule: step.cases; cases c') (auto dest: ids_ok_exec)

lemma ids_ok_leads: "leads c c' \<Longrightarrow> ids_ok (snd (snd c)) \<Longrightarrow> ids_ok (snd (snd c'))"
proof -
  have "steps n c = Inr c' \<Longrightarrow> ids_ok (snd (snd c)) \<Longrightarrow> ids_ok (snd (snd c'))" for n
    by (induction n arbitrary: c) (auto simp: rbind_Inr_iff dest: ids_ok_step)
  then show "leads c c' \<Longrightarrow> ids_ok (snd (snd c)) \<Longrightarrow> ids_ok (snd (snd c'))"
    by (auto simp: leads_def)
qed

section \<open>Property\<close>

lemma destroy_count:
  "fs_fiber_count ((Fiber_destroy ^^ n) S) = fs_fiber_count S - of_nat n"
  by (induction n) (simp_all add: Fiber_destroy_def)

text \<open>
  C31 (Fiber::Fiber, Fiber::~Fiber). The numbers of fibers, whatever a thread executes. Two
  fibers have the same id exactly when \<open>2 ^ 32\<close> divides the distance of their constructions,
  because \<^verbatim>\<open>m_id\<close> drops the upper half of the counter: ids repeat from there. And when all fibers are destroyed,
  \<^verbatim>\<open>s_fiber_count\<close> is not zero but as far below zero, modulo \<open>2 ^ 64\<close>, as there were main fibers.
\<close>

theorem fiber_numbers:
  assumes "leads (prog, new_thread, new_system need) (k, T, S)"
    and "i < length (fs_fibers S)" "j < length (fs_fibers S)"
  shows "(fb_id (fs_fibers S ! i) = fb_id (fs_fibers S ! j) \<longleftrightarrow> i mod 2 ^ 32 = j mod 2 ^ 32)
    \<and> fs_fiber_count ((Fiber_destroy ^^ length (fs_fibers S)) S)
        = - of_nat (length (filter (\<lambda>fb. fb_stack fb = None) (fs_fibers S)))"
proof -
  have "ids_ok (new_system need)" by (simp add: ids_ok_def new_system_def with_callback_def)
  then have ok: "ids_ok S" using ids_ok_leads [OF assms(1)] by simp
  then have ids: "fb_id (fs_fibers S ! n) = of_nat n" if "n < length (fs_fibers S)" for n
    using that unfolding ids_ok_def by (metis add_0 nth_map nth_upt length_upt diff_zero)
  have "of_nat (length (fs_fibers S))
      = (of_nat (with_callback (fs_fibers S)) + of_nat (length (filter (\<lambda>fb. fb_stack fb = None) (fs_fibers S))) :: u64)"
    using sum_length_filter_compl [of "\<lambda>fb. fb_stack fb \<noteq> None" "fs_fibers S"]
    unfolding with_callback_def of_nat_add [symmetric] by simp
  then have "fs_fiber_count ((Fiber_destroy ^^ length (fs_fibers S)) S)
      = - of_nat (length (filter (\<lambda>fb. fb_stack fb = None) (fs_fibers S)))"
    using ok by (simp add: destroy_count ids_ok_def)
  moreover have "(of_nat i :: u32) = of_nat j \<longleftrightarrow> i mod 2 ^ 32 = j mod 2 ^ 32"
    by (simp add: word_of_nat_eq_iff take_bit_eq_mod)
  ultimately show ?thesis using assms(2,3) by (simp add: ids)
qed

text \<open>A scheduler on a fresh thread: its main fiber, its root fiber, and a count that ends at minus one.\<close>

theorem fiber_numbers_witness:
  "\<exists>T S. leads ([MakeScheduler True], new_thread, new_system 4096) ([], T, S)
     \<and> fb_id (fs_fibers S ! 0) \<noteq> fb_id (fs_fibers S ! 1)
     \<and> fs_fiber_count ((Fiber_destroy ^^ 2) S) = - 1"
proof -
  obtain T S where TS: "Scheduler_new True new_thread (new_system 4096) = (T, S)" by fastforce
  then have len: "length (fs_fibers S) = 2" and main: "filter (\<lambda>fb. fb_stack fb = None) (fs_fibers S) = [fs_fibers S ! 0]"
    by (auto simp: Scheduler_new_def Fiber_GetThis_def Fiber_main_def Fiber_def new_thread_def new_system_def Let_def)
  have run: "leads ([MakeScheduler True], new_thread, new_system 4096) ([], T, S)"
    by (rule leads_step) (simp add: TS)
  from fiber_numbers [OF run, of 0 1] len main run show ?thesis
    by (intro exI [of _ T] exI [of _ S]) simp
qed

end
