(* ===== verification/Scheduler.thy ===== *)
theory Scheduler
  imports ZPrelude "HOL-Library.Multiset"
begin

text \<open>
  \<^verbatim>\<open>class Scheduler\<close> (\<^verbatim>\<open>server/scheduler.h\<close>, \<^verbatim>\<open>server/scheduler.cpp\<close>) with its threads: workers that
  execute \<^verbatim>\<open>run\<close>, clients that call \<^verbatim>\<open>schedule\<close>, and the owner that calls \<^verbatim>\<open>start\<close> and \<^verbatim>\<open>stop\<close>, without
  \<^verbatim>\<open>user_caller\<close>. Everything between two accesses to what the threads share is one step: taking
  \<^verbatim>\<open>m_mutex\<close>, a critical section with its release, a notification, a swap into a fiber. A fiber is
  taken to come back to the worker that swapped it in; \<open>SchedulerFibers\<close> shows when it does, and
  \<open>CallerScheduler\<close> adds \<^verbatim>\<open>user_caller\<close>. The owner starts the scheduler once and then stops it once; a
  thread that cannot be made lets \<^verbatim>\<open>start\<close> end by its exception (\<open>StartThrew\<close>).
\<close>

section \<open>State\<close>

text \<open>
  Where the threads are. A worker is about to lock \<^verbatim>\<open>m_mutex\<close>, has it, is in the wait set of
  \<^verbatim>\<open>m_condition\<close>, has been woken and must lock again, has left the critical section with the
  fiber it found, is in a fiber, or has returned from \<^verbatim>\<open>run\<close>.
\<close>

datatype wpc =
    NotStarted | AtLock | Locked | Asleep | Woken
  | Got "nat option"
  | Running nat
  | Exited

datatype cpc = Idle | SLock nat | SLocked nat | Tickle bool

datatype mpc =
    Made | Spawning nat | StartThrew nat | Started
  | StopLock | StopLocked | NotifyAll | SwapLock | SwapLocked | Joining nat | Stopped

datatype actor = Worker nat | Client nat | Main

text \<open>\<open>sc_scheduled\<close> and \<open>sc_swapped\<close> record what was pushed and what was swapped in.\<close>

record sched =
  sc_fibers :: "nat list"
  sc_stopping :: bool
  sc_mutex :: "actor option"
  sc_workers :: "nat \<Rightarrow> wpc"
  sc_clients :: "nat \<Rightarrow> cpc"
  sc_main :: mpc
  sc_scheduled :: "nat list"
  sc_swapped :: "nat list"

text \<open>The constructor.\<close>

definition Scheduler :: sched where
  "Scheduler = \<lparr>sc_fibers = [], sc_stopping = True, sc_mutex = None, sc_workers = (\<lambda>_. NotStarted),
     sc_clients = (\<lambda>_. Idle), sc_main = Made, sc_scheduled = [], sc_swapped = []\<rparr>"

definition set_worker :: "nat \<Rightarrow> wpc \<Rightarrow> sched \<Rightarrow> sched" where
  "set_worker w pc s = s\<lparr>sc_workers := (sc_workers s)(w := pc)\<rparr>"

definition set_client :: "nat \<Rightarrow> cpc \<Rightarrow> sched \<Rightarrow> sched" where
  "set_client c pc s = s\<lparr>sc_clients := (sc_clients s)(c := pc)\<rparr>"

section \<open>The critical sections\<close>

text \<open>The predicate of \<^verbatim>\<open>m_condition.wait\<close>.\<close>

definition wait_done :: "sched \<Rightarrow> bool" where
  "wait_done s \<longleftrightarrow> sc_fibers s \<noteq> [] \<or> sc_stopping s"

text \<open>After the wait: the last fiber, if there is one; the lock goes with the block.\<close>

definition take_fiber :: "nat \<Rightarrow> sched \<Rightarrow> sched" where
  "take_fiber w s =
     (if sc_fibers s \<noteq> []
      then set_worker w (Got (Some (last (sc_fibers s))))
             (s\<lparr>sc_fibers := butlast (sc_fibers s), sc_mutex := None\<rparr>)
      else set_worker w (Got None) (s\<lparr>sc_mutex := None\<rparr>))"

text \<open>
  After the critical section: into the fiber, or out of the loop. The idle fiber is never
  entered, so it never reaches \<^verbatim>\<open>TERM\<close> and the test for that fails.
\<close>

definition run_fiber :: "nat \<Rightarrow> nat option \<Rightarrow> sched \<Rightarrow> sched" where
  "run_fiber w fb s =
     (case fb of
        Some f \<Rightarrow> set_worker w (Running f) (s\<lparr>sc_swapped := sc_swapped s @ [f]\<rparr>)
      | None \<Rightarrow> set_worker w (if sc_stopping s then Exited else AtLock) s)"

text \<open>\<^verbatim>\<open>schedule\<close>: whether a worker may have to be woken is settled under the lock.\<close>

definition push_fiber :: "nat \<Rightarrow> nat \<Rightarrow> sched \<Rightarrow> sched" where
  "push_fiber c f s =
     set_client c (Tickle (sc_fibers s = []))
       (s\<lparr>sc_fibers := sc_fibers s @ [f], sc_mutex := None, sc_scheduled := sc_scheduled s @ [f]\<rparr>)"

text \<open>\<^verbatim>\<open>notify_all\<close> empties the wait set.\<close>

definition wake_all :: "sched \<Rightarrow> sched" where
  "wake_all s = s\<lparr>sc_workers := (\<lambda>w. if sc_workers s w = Asleep then Woken else sc_workers s w)\<rparr>"

section \<open>Steps\<close>

text \<open>\<^verbatim>\<open>Scheduler::run\<close> on worker \<open>w\<close>; \<open>spurious\<close> is a wake-up nobody asked for.\<close>

inductive worker_step :: "nat \<Rightarrow> sched \<Rightarrow> sched \<Rightarrow> bool" for w :: nat where
  lock: "sc_workers s w = AtLock \<or> sc_workers s w = Woken \<Longrightarrow> sc_mutex s = None \<Longrightarrow>
     worker_step w s (set_worker w Locked (s\<lparr>sc_mutex := Some (Worker w)\<rparr>))"
| sleep: "sc_workers s w = Locked \<Longrightarrow> \<not> wait_done s \<Longrightarrow>
     worker_step w s (set_worker w Asleep (s\<lparr>sc_mutex := None\<rparr>))"
| take: "sc_workers s w = Locked \<Longrightarrow> wait_done s \<Longrightarrow>
     worker_step w s (take_fiber w s)"
| spurious: "sc_workers s w = Asleep \<Longrightarrow>
     worker_step w s (set_worker w Woken s)"
| run: "sc_workers s w = Got fb \<Longrightarrow>
     worker_step w s (run_fiber w fb s)"
| returns: "sc_workers s w = Running f \<Longrightarrow>
     worker_step w s (set_worker w AtLock s)"

text \<open>\<^verbatim>\<open>Scheduler::schedule\<close> on client \<open>c\<close>; \<^verbatim>\<open>notify_one\<close> wakes some sleeping worker, if there is one.\<close>

inductive schedule_step :: "nat \<Rightarrow> sched \<Rightarrow> sched \<Rightarrow> bool" for c :: nat where
  call: "sc_clients s c = Idle \<Longrightarrow>
     schedule_step c s (set_client c (SLock f) s)"
| lock: "sc_clients s c = SLock f \<Longrightarrow> sc_mutex s = None \<Longrightarrow>
     schedule_step c s (set_client c (SLocked f) (s\<lparr>sc_mutex := Some (Client c)\<rparr>))"
| push: "sc_clients s c = SLocked f \<Longrightarrow>
     schedule_step c s (push_fiber c f s)"
| wake: "sc_clients s c = Tickle True \<Longrightarrow> sc_workers s w = Asleep \<Longrightarrow>
     schedule_step c s (set_client c Idle (set_worker w Woken s))"
| nobody: "sc_clients s c = Tickle True \<Longrightarrow> \<forall>w. sc_workers s w \<noteq> Asleep \<Longrightarrow>
     schedule_step c s (set_client c Idle s)"
| quiet: "sc_clients s c = Tickle False \<Longrightarrow>
     schedule_step c s (set_client c Idle s)"

text \<open>
  One \<^verbatim>\<open>Scheduler::start\<close> and then one \<^verbatim>\<open>Scheduler::stop\<close> with \<open>n\<close> threads. A thread that cannot be
  made ends \<^verbatim>\<open>start\<close> with an exception; the threads made before it go on. What \<^verbatim>\<open>stop\<close> does after
  that is not a step here: it uses a null pointer (\<open>CallerScheduler\<close>).
\<close>

inductive main_step :: "nat \<Rightarrow> sched \<Rightarrow> sched \<Rightarrow> bool" for n :: nat where
  start: "sc_main s = Made \<Longrightarrow>
     main_step n s (s\<lparr>sc_stopping := False, sc_main := Spawning 0\<rparr>)"
| spawn: "sc_main s = Spawning i \<Longrightarrow> i < n \<Longrightarrow>
     main_step n s ((set_worker i AtLock s)\<lparr>sc_main := Spawning (Suc i)\<rparr>)"
| spawn_fails: "sc_main s = Spawning i \<Longrightarrow> i < n \<Longrightarrow>
     main_step n s (s\<lparr>sc_main := StartThrew i\<rparr>)"
| started: "sc_main s = Spawning n \<Longrightarrow>
     main_step n s (s\<lparr>sc_main := Started\<rparr>)"
| stop: "sc_main s = Started \<Longrightarrow>
     main_step n s (s\<lparr>sc_main := StopLock\<rparr>)"
| stop_lock: "sc_main s = StopLock \<Longrightarrow> sc_mutex s = None \<Longrightarrow>
     main_step n s (s\<lparr>sc_main := StopLocked, sc_mutex := Some Main\<rparr>)"
| stop_flag: "sc_main s = StopLocked \<Longrightarrow>
     main_step n s (s\<lparr>sc_main := NotifyAll, sc_stopping := True, sc_mutex := None\<rparr>)"
| notify: "sc_main s = NotifyAll \<Longrightarrow>
     main_step n s ((wake_all s)\<lparr>sc_main := SwapLock\<rparr>)"
| swap_lock: "sc_main s = SwapLock \<Longrightarrow> sc_mutex s = None \<Longrightarrow>
     main_step n s (s\<lparr>sc_main := SwapLocked, sc_mutex := Some Main\<rparr>)"
| swap: "sc_main s = SwapLocked \<Longrightarrow>
     main_step n s (s\<lparr>sc_main := Joining 0, sc_mutex := None\<rparr>)"
| join: "sc_main s = Joining i \<Longrightarrow> i < n \<Longrightarrow> sc_workers s i = Exited \<Longrightarrow>
     main_step n s (s\<lparr>sc_main := Joining (Suc i)\<rparr>)"
| joined: "sc_main s = Joining n \<Longrightarrow>
     main_step n s (s\<lparr>sc_main := Stopped\<rparr>)"

definition own_step :: "nat \<Rightarrow> sched \<Rightarrow> sched \<Rightarrow> bool" where
  "own_step n s t \<longleftrightarrow> (\<exists>w < n. worker_step w s t) \<or> main_step n s t"

definition sched_step :: "nat \<Rightarrow> sched \<Rightarrow> sched \<Rightarrow> bool" where
  "sched_step n s t \<longleftrightarrow> own_step n s t \<or> (\<exists>c. schedule_step c s t)"

inductive_simps worker_step_iff: "worker_step w s t"
inductive_simps schedule_step_iff: "schedule_step c s t"
inductive_simps main_step_iff: "main_step n s t"

lemmas sched_defs = set_worker_def set_client_def wait_done_def take_fiber_def run_fiber_def
  push_fiber_def wake_all_def

end
