(* ===== verification/SchedulerProps.thy ===== *)
theory SchedulerProps
  imports Scheduler Transitions
begin

text \<open>
  What the threads of a scheduler keep: the lock, the way of every fiber, the phases of the
  owner, and that work is never left with everybody asleep; and that \<^verbatim>\<open>stop\<close> returns with every
  fiber swapped in.
\<close>

section \<open>The invariant\<close>

fun holds :: "sched \<Rightarrow> actor \<Rightarrow> bool" where
  "holds s (Worker w) \<longleftrightarrow> sc_workers s w = Locked"
| "holds s (Client c) \<longleftrightarrow> (\<exists>f. sc_clients s c = SLocked f)"
| "holds s Main \<longleftrightarrow> sc_main s = StopLocked \<or> sc_main s = SwapLocked"

definition lock_ok :: "sched \<Rightarrow> bool" where
  "lock_ok s \<longleftrightarrow> (\<forall>a. holds s a \<longleftrightarrow> sc_mutex s = Some a)"

fun in_hand :: "wpc \<Rightarrow> nat multiset" where
  "in_hand (Got (Some f)) = {#f#}"
| "in_hand pc = {#}"

definition fibers_ok :: "nat \<Rightarrow> sched \<Rightarrow> bool" where
  "fibers_ok n s \<longleftrightarrow>
     mset (sc_scheduled s) = mset (sc_fibers s) + mset (sc_swapped s) + (\<Sum>w<n. in_hand (sc_workers s w))"

text \<open>How many workers have been started, by the owner's place.\<close>

fun spawned :: "nat \<Rightarrow> mpc \<Rightarrow> nat" where
  "spawned n Made = 0"
| "spawned n (Spawning i) = i"
| "spawned n (StartThrew i) = i"
| "spawned n pc = n"

fun before_stop :: "mpc \<Rightarrow> bool" where
  "before_stop (Spawning i) = True"
| "before_stop (StartThrew i) = True"
| "before_stop Started = True"
| "before_stop StopLock = True"
| "before_stop StopLocked = True"
| "before_stop pc = False"

fun after_notify :: "mpc \<Rightarrow> bool" where
  "after_notify SwapLock = True"
| "after_notify SwapLocked = True"
| "after_notify (Joining i) = True"
| "after_notify Stopped = True"
| "after_notify pc = False"

fun joined_count :: "nat \<Rightarrow> mpc \<Rightarrow> nat" where
  "joined_count n (Joining i) = i"
| "joined_count n Stopped = n"
| "joined_count n pc = 0"

definition phase_ok :: "nat \<Rightarrow> sched \<Rightarrow> bool" where
  "phase_ok n s \<longleftrightarrow>
     (\<forall>w. sc_workers s w \<noteq> NotStarted \<longleftrightarrow> w < spawned n (sc_main s))
     \<and> (before_stop (sc_main s) \<longleftrightarrow> \<not> sc_stopping s)
     \<and> (before_stop (sc_main s) \<longrightarrow> (\<forall>w. sc_workers s w \<noteq> Exited \<and> sc_workers s w \<noteq> Got None))
     \<and> (after_notify (sc_main s) \<longrightarrow> (\<forall>w. sc_workers s w \<noteq> Asleep))
     \<and> (\<forall>w < joined_count n (sc_main s). sc_workers s w = Exited)
     \<and> (\<forall>i. sc_main s = Spawning i \<or> sc_main s = StartThrew i \<or> sc_main s = Joining i \<longrightarrow> i \<le> n)"

fun awake :: "wpc \<Rightarrow> bool" where
  "awake NotStarted = False"
| "awake Asleep = False"
| "awake Exited = False"
| "awake pc = True"

definition wake_ok :: "sched \<Rightarrow> bool" where
  "wake_ok s \<longleftrightarrow>
     sc_fibers s \<noteq> [] \<longrightarrow> (\<exists>w. sc_workers s w = Asleep) \<longrightarrow>
       (\<exists>w. awake (sc_workers s w)) \<or> (\<exists>c. sc_clients s c = Tickle True) \<or> sc_main s = NotifyAll"

definition sched_inv :: "nat \<Rightarrow> sched \<Rightarrow> bool" where
  "sched_inv n s \<longleftrightarrow> lock_ok s \<and> fibers_ok n s \<and> phase_ok n s \<and> wake_ok s"

section \<open>The start state\<close>

lemma Scheduler_inv: "sched_inv n Scheduler"
proof -
  have "lock_ok Scheduler"
    unfolding lock_ok_def
  proof
    fix a
    show "holds Scheduler a \<longleftrightarrow> sc_mutex Scheduler = Some a"
      by (cases a) (simp_all add: Scheduler_def)
  qed
  then show ?thesis
    by (simp add: sched_inv_def fibers_ok_def phase_ok_def wake_ok_def Scheduler_def)
qed

section \<open>Sums over the workers\<close>

lemma sum_upd:
  fixes g :: "wpc \<Rightarrow> 'a::comm_monoid_add" and f :: "nat \<Rightarrow> wpc"
  assumes "w < n"
  shows "(\<Sum>v<n. g ((f(w := x)) v)) = g x + (\<Sum>v \<in> {..<n} - {w}. g (f v))"
  using assms by (subst sum.remove [of _ w]) (auto intro!: sum.cong)

lemma sum_split:
  fixes g :: "wpc \<Rightarrow> 'a::comm_monoid_add" and f :: "nat \<Rightarrow> wpc"
  assumes "w < n"
  shows "(\<Sum>v<n. g (f v)) = g (f w) + (\<Sum>v \<in> {..<n} - {w}. g (f v))"
  using assms by (subst sum.remove [of _ w]) auto

lemma sum_upd_same:
  fixes g :: "wpc \<Rightarrow> 'a::comm_monoid_add" and f :: "nat \<Rightarrow> wpc"
  assumes "g x = g (f w)"
  shows "(\<Sum>v<n. g ((f(w := x)) v)) = (\<Sum>v<n. g (f v))"
  using assms by (intro sum.cong) auto

section \<open>The lock\<close>

lemma lock_ok_iff:
  "lock_ok s \<longleftrightarrow>
     (\<forall>w. sc_workers s w = Locked \<longleftrightarrow> sc_mutex s = Some (Worker w))
     \<and> (\<forall>c. (\<exists>f. sc_clients s c = SLocked f) \<longleftrightarrow> sc_mutex s = Some (Client c))
     \<and> (sc_main s = StopLocked \<or> sc_main s = SwapLocked \<longleftrightarrow> sc_mutex s = Some Main)"
proof -
  have "(\<forall>a. P a) \<longleftrightarrow> (\<forall>w. P (Worker w)) \<and> (\<forall>c. P (Client c)) \<and> P Main" for P
    by (metis actor.exhaust)
  then show ?thesis by (simp add: lock_ok_def)
qed

lemma worker_lock_ok:
  assumes "worker_step w s t" "lock_ok s"
  shows "lock_ok t"
proof -
  have "sc_workers s w = Locked \<longleftrightarrow> sc_mutex s = Some (Worker w)"
    using assms(2) by (simp add: lock_ok_iff)
  with assms(1) show ?thesis
    by (cases rule: worker_step.cases)
       (use assms(2) in \<open>auto simp: lock_ok_iff sched_defs split: if_splits option.splits\<close>)
qed

lemma schedule_lock_ok:
  assumes "schedule_step c s t" "lock_ok s"
  shows "lock_ok t"
proof -
  have c: "sc_clients s b = SLocked f \<Longrightarrow> sc_mutex s = Some (Client b)" for b f
    using assms(2) by (auto simp: lock_ok_iff)
  have d: "sc_mutex s = Some (Client c) \<Longrightarrow> \<exists>f. sc_clients s c = SLocked f"
    using assms(2) by (auto simp: lock_ok_iff)
  from assms(1) show ?thesis
  proof cases
    case (push f)
    then have m: "sc_mutex s = Some (Client c)" by (simp add: c)
    then have "\<forall>w. sc_workers s w \<noteq> Locked" "\<forall>b f. b \<noteq> c \<longrightarrow> sc_clients s b \<noteq> SLocked f"
        "sc_main s \<noteq> StopLocked" "sc_main s \<noteq> SwapLocked"
      using assms(2) by (auto simp: lock_ok_iff dest: c)
    with push show ?thesis by (simp add: lock_ok_iff push_fiber_def set_client_def)
  next
    case (wake w)
    have "sc_workers t v = Locked \<longleftrightarrow> sc_workers s v = Locked" for v
      using wake by (simp add: set_client_def set_worker_def)
    moreover have "(\<exists>f. sc_clients t b = SLocked f) \<longleftrightarrow> (\<exists>f. sc_clients s b = SLocked f)" for b
      using wake by (simp add: set_client_def set_worker_def)
    moreover have "sc_mutex t = sc_mutex s" "sc_main t = sc_main s"
      using wake by (simp_all add: set_client_def set_worker_def)
    ultimately show ?thesis using assms(2) by (simp add: lock_ok_iff)
  qed (use assms(2) d in \<open>auto simp: lock_ok_iff set_client_def\<close>)
qed

lemma main_lock_ok:
  assumes "main_step n s t" "lock_ok s" "phase_ok n s"
  shows "lock_ok t"
  using assms(1)
proof cases
  case (spawn i)
  then have "sc_workers s i \<noteq> Locked" using assms(3) by (auto simp: phase_ok_def)
  with spawn assms(2) show ?thesis by (auto simp: lock_ok_iff set_worker_def)
next
  case notify
  have "sc_workers t w = Locked \<longleftrightarrow> sc_workers s w = Locked" for w
    using notify by (simp add: wake_all_def)
  with notify assms(2) show ?thesis by (simp add: lock_ok_iff wake_all_def)
qed (use assms(2) in \<open>auto simp: lock_ok_iff\<close>)

section \<open>The fibers\<close>

lemma fibers_ok_set_worker:
  assumes "w < n"
  shows "fibers_ok n (set_worker w pc s) \<longleftrightarrow>
    mset (sc_scheduled s) = mset (sc_fibers s) + mset (sc_swapped s) + (in_hand pc
      + (\<Sum>v \<in> {..<n} - {w}. in_hand (sc_workers s v)))"
  using sum_upd [OF assms, of in_hand "sc_workers s" pc] by (simp add: fibers_ok_def set_worker_def)

lemma fibers_ok_split:
  assumes "w < n"
  shows "fibers_ok n s \<longleftrightarrow>
    mset (sc_scheduled s) = mset (sc_fibers s) + mset (sc_swapped s) + (in_hand (sc_workers s w)
      + (\<Sum>v \<in> {..<n} - {w}. in_hand (sc_workers s v)))"
  using sum_split [OF assms, of in_hand "sc_workers s"] by (simp add: fibers_ok_def)

lemma mset_last: "xs \<noteq> [] \<Longrightarrow> mset xs = add_mset (last xs) (mset (butlast xs))"
  by (metis append_butlast_last_id mset.simps(2) mset_append union_code union_commute mset_rev rev.simps(2))

lemma worker_fibers_ok:
  assumes "w < n" "worker_step w s t" "fibers_ok n s"
  shows "fibers_ok n t"
  using assms(2)
proof cases
  case take
  then show ?thesis using assms(3) fibers_ok_split [OF assms(1), of s] mset_last [of "sc_fibers s"]
    by (auto simp: take_fiber_def fibers_ok_set_worker [OF assms(1)])
next
  case (run fb)
  then show ?thesis using assms(3) fibers_ok_split [OF assms(1), of s]
    by (auto simp: run_fiber_def fibers_ok_set_worker [OF assms(1)] split: option.splits)
qed (use assms(3) fibers_ok_split [OF assms(1), of s] in \<open>auto simp: fibers_ok_set_worker [OF assms(1)]\<close>)

lemma fibers_ok_woken:
  assumes "\<And>v. in_hand (f v) = in_hand (sc_workers s v)"
    and "sc_fibers t = sc_fibers s" "sc_swapped t = sc_swapped s" "sc_scheduled t = sc_scheduled s"
    and "sc_workers t = f"
  shows "fibers_ok n t \<longleftrightarrow> fibers_ok n s"
  using assms by (simp add: fibers_ok_def)

lemma schedule_fibers_ok:
  assumes "schedule_step c s t" "fibers_ok n s"
  shows "fibers_ok n t"
  using assms(1)
proof cases
  case (push f)
  then show ?thesis using assms(2) by (simp add: fibers_ok_def push_fiber_def set_client_def)
next
  case (wake w)
  have "fibers_ok n t \<longleftrightarrow> fibers_ok n s"
    by (rule fibers_ok_woken [where f = "(sc_workers s)(w := Woken)"])
       (use wake in \<open>auto simp: set_client_def set_worker_def\<close>)
  then show ?thesis using assms(2) by simp
qed (use assms(2) in \<open>simp_all add: fibers_ok_def set_client_def\<close>)

text \<open>A worker that has not been started has nothing in its hands.\<close>

lemma main_fibers_ok:
  assumes "main_step n s t" "fibers_ok n s" "phase_ok n s"
  shows "fibers_ok n t"
  using assms(1)
proof cases
  case (spawn i)
  then have "sc_workers s i = NotStarted" using assms(3) by (auto simp: phase_ok_def)
  then have "fibers_ok n t \<longleftrightarrow> fibers_ok n s"
    by (intro fibers_ok_woken [where f = "(sc_workers s)(i := AtLock)"])
       (use spawn in \<open>auto simp: set_worker_def\<close>)
  then show ?thesis using assms(2) by simp
next
  case notify
  have "fibers_ok n t \<longleftrightarrow> fibers_ok n s"
    by (rule fibers_ok_woken [where f = "\<lambda>w. if sc_workers s w = Asleep then Woken else sc_workers s w"])
       (use notify in \<open>auto simp: wake_all_def\<close>)
  then show ?thesis using assms(2) by simp
qed (use assms(2) in \<open>simp_all add: fibers_ok_def\<close>)

section \<open>The phases\<close>

lemma not_both: "before_stop m \<Longrightarrow> \<not> after_notify m"
  by (cases m) simp_all

lemma worker_phase_ok:
  assumes "worker_step w s t" "phase_ok n s"
  shows "phase_ok n t"
proof -
  have live: "w < spawned n (sc_main s)"
    using assms by (cases rule: worker_step.cases) (auto simp: phase_ok_def)
  show ?thesis
    using assms(1)
    by (cases rule: worker_step.cases)
       (use assms(2) live in \<open>auto simp: phase_ok_def sched_defs dest: not_both split: if_splits option.splits\<close>)
qed

lemma schedule_phase_ok:
  assumes "schedule_step c s t" "phase_ok n s"
  shows "phase_ok n t"
  using assms(1)
proof cases
  case (wake w)
  then have "sc_workers s w \<noteq> NotStarted" "sc_workers s w \<noteq> Exited" by simp_all
  with wake assms(2) show ?thesis by (auto simp: phase_ok_def set_client_def set_worker_def)
qed (use assms(2) in \<open>simp_all add: phase_ok_def set_client_def push_fiber_def\<close>)

lemma main_phase_ok:
  assumes "main_step n s t" "phase_ok n s"
  shows "phase_ok n t"
  using assms(1)
proof cases
  case (spawn i)
  then show ?thesis using assms(2) by (auto simp: phase_ok_def set_worker_def less_Suc_eq)
next
  case notify
  have eq: "sc_workers t w = NotStarted \<longleftrightarrow> sc_workers s w = NotStarted"
    "sc_workers t w = Exited \<longleftrightarrow> sc_workers s w = Exited" "sc_workers t w \<noteq> Asleep" for w
    using notify by (simp_all add: wake_all_def)
  have "sc_main t = SwapLock" "sc_stopping t = sc_stopping s"
    using notify by (simp_all add: wake_all_def)
  with notify(2) show ?thesis using assms(2) by (simp add: phase_ok_def eq)
next
  case (join i)
  then show ?thesis using assms(2) by (auto simp: phase_ok_def less_Suc_eq)
qed (use assms(2) in \<open>simp_all add: phase_ok_def\<close>)

section \<open>No lost wake-up\<close>

lemma wake_ok_awake: "awake (sc_workers s w) \<Longrightarrow> wake_ok s"
  by (auto simp: wake_ok_def)

lemma worker_wake_ok:
  assumes "worker_step w s t" "phase_ok n s"
  shows "wake_ok t"
  using assms(1)
proof cases
  case sleep
  then show ?thesis by (simp add: wake_ok_def wait_done_def set_worker_def)
next
  case (run fb)
  show ?thesis
  proof (cases "fb = None \<and> sc_stopping s")
    case True
    with run assms(2) have "\<not> before_stop (sc_main s)" "sc_main s = NotifyAll \<or> after_notify (sc_main s)"
      by (cases "sc_main s"; auto simp: phase_ok_def)+
    then show ?thesis using run True assms(2)
      by (auto simp: wake_ok_def phase_ok_def run_fiber_def set_worker_def)
  next
    case False
    with run show ?thesis
      by (intro wake_ok_awake [of _ w]) (auto simp: run_fiber_def set_worker_def split: option.splits)
  qed
qed (auto intro!: wake_ok_awake [of _ w] simp: take_fiber_def set_worker_def)

lemma wake_ok_client:
  assumes "wake_ok s" "sc_clients s c \<noteq> Tickle True" "sc_clients t = (sc_clients s)(c := pc)"
    and "sc_fibers s \<noteq> []" "sc_workers t = sc_workers s" "sc_main t = sc_main s"
  shows "wake_ok t"
  using assms unfolding wake_ok_def by (metis fun_upd_other)

lemma schedule_wake_ok:
  assumes "schedule_step c s t" "wake_ok s"
  shows "wake_ok t"
proof (cases "sc_fibers s = []")
  case True
  with assms(1) show ?thesis
    by cases (auto simp: wake_ok_def sched_defs)
next
  case False
  from assms(1) show ?thesis
  proof cases
    case (wake w)
    then show ?thesis by (intro wake_ok_awake [of _ w]) (simp add: set_client_def set_worker_def)
  next
    case nobody
    then show ?thesis by (simp add: wake_ok_def set_client_def)
  qed (rule wake_ok_client [OF assms(2) _ _ False]; simp add: set_client_def push_fiber_def)+
qed

lemma main_wake_ok:
  assumes "main_step n s t" "wake_ok s"
  shows "wake_ok t"
  using assms(1)
proof cases
  case (spawn i)
  then show ?thesis by (intro wake_ok_awake [of _ i]) (simp add: set_worker_def)
next
  case notify
  then show ?thesis by (auto simp: wake_ok_def wake_all_def)
qed (use assms(2) in \<open>auto simp: wake_ok_def\<close>)

section \<open>Every reachable state\<close>

lemma sched_inv_step:
  assumes "sched_inv n s" "sched_step n s t"
  shows "sched_inv n t"
proof -
  note i = assms(1) [unfolded sched_inv_def]
  from assms(2) consider
      (worker) w where "w < n" "worker_step w s t"
    | (main) "main_step n s t"
    | (client) c where "schedule_step c s t"
    by (auto simp: sched_step_def own_step_def)
  then show ?thesis
  proof cases
    case worker
    with i show ?thesis unfolding sched_inv_def
      by (blast intro: worker_lock_ok worker_fibers_ok worker_phase_ok worker_wake_ok)
  next
    case main
    with i show ?thesis unfolding sched_inv_def
      by (blast intro: main_lock_ok main_fibers_ok main_phase_ok main_wake_ok)
  next
    case client
    with i show ?thesis unfolding sched_inv_def
      by (blast intro: schedule_lock_ok schedule_fibers_ok schedule_phase_ok schedule_wake_ok)
  qed
qed

interpretation sched: transition_system "\<lambda>s. s = Scheduler" "sched_step n" "sched_inv n" for n
  by unfold_locales (auto simp: Scheduler_inv intro: sched_inv_step)

section \<open>Stopping\<close>

fun stop_called :: "mpc \<Rightarrow> bool" where
  "stop_called StopLocked = True"
| "stop_called NotifyAll = True"
| "stop_called m = after_notify m"

definition calm_clients :: "sched \<Rightarrow> bool" where
  "calm_clients s \<longleftrightarrow> (\<forall>c. sc_clients s c = Idle)"

text \<open>How far a worker and the owner are from their ends; a fiber in the queue costs four steps.\<close>

fun worker_rank :: "wpc \<Rightarrow> nat" where
  "worker_rank (Got (Some f)) = 5"
| "worker_rank (Running f) = 4"
| "worker_rank Asleep = 4"
| "worker_rank Woken = 3"
| "worker_rank AtLock = 3"
| "worker_rank Locked = 2"
| "worker_rank (Got None) = 1"
| "worker_rank pc = 0"

fun main_rank :: "nat \<Rightarrow> mpc \<Rightarrow> nat" where
  "main_rank n StopLocked = n + 5"
| "main_rank n NotifyAll = n + 4"
| "main_rank n SwapLock = n + 3"
| "main_rank n SwapLocked = n + 2"
| "main_rank n (Joining i) = n - i + 1"
| "main_rank n pc = 0"

definition to_go :: "nat \<Rightarrow> sched \<Rightarrow> nat" where
  "to_go n s = main_rank n (sc_main s) + (\<Sum>w<n. worker_rank (sc_workers s w)) + 4 * length (sc_fibers s)"

lemma worker_rank_le: "worker_rank pc \<le> 5"
  by (cases pc rule: worker_rank.cases) simp_all

lemma to_go_le: "to_go n s \<le> 4 * length (sc_fibers s) + 6 * n + 5"
proof -
  have "(\<Sum>w<n. worker_rank (sc_workers s w)) \<le> (\<Sum>w<n. 5)"
    by (intro sum_mono) (rule worker_rank_le)
  moreover have "main_rank n (sc_main s) \<le> n + 5" by (cases "sc_main s") simp_all
  ultimately show ?thesis by (simp add: to_go_def)
qed

text \<open>A step that changes one worker and, perhaps, the queue.\<close>

lemma to_go_worker:
  assumes "w < n" "sc_workers t = (sc_workers s)(w := pc)" "sc_main t = sc_main s"
    and "worker_rank pc + 4 * length (sc_fibers t) < worker_rank (sc_workers s w) + 4 * length (sc_fibers s)"
  shows "to_go n t < to_go n s"
  using assms sum_upd [OF assms(1), of worker_rank "sc_workers s" pc]
    sum_split [OF assms(1), of worker_rank "sc_workers s"]
  by (simp add: to_go_def)

lemma worker_to_go:
  assumes "sched_inv n s" "stop_called (sc_main s)" "w < n" "worker_step w s t"
  shows "to_go n t < to_go n s"
proof -
  have stopping: "sc_stopping s" if "sc_main s \<noteq> StopLocked"
    using assms(1,2) that by (cases "sc_main s") (auto simp: sched_inv_def phase_ok_def)
  have first: "sc_workers s w \<noteq> Locked" "sc_workers s w \<noteq> Got None" if "sc_main s = StopLocked"
    using assms(1) that by (auto simp: sched_inv_def phase_ok_def lock_ok_iff)
  from assms(4) show ?thesis
  proof cases
    case lock
    then show ?thesis by (intro to_go_worker [OF assms(3)]) (auto simp: set_worker_def)
  next
    case sleep
    then show ?thesis using stopping first by (auto simp: wait_done_def)
  next
    case take
    then show ?thesis
      by (cases "sc_fibers s" rule: rev_cases)
         (auto intro!: to_go_worker [OF assms(3)] simp: set_worker_def take_fiber_def)
  next
    case spurious
    then show ?thesis by (intro to_go_worker [OF assms(3)]) (auto simp: set_worker_def)
  next
    case (run fb)
    then show ?thesis using stopping first
      by (cases fb) (auto intro!: to_go_worker [OF assms(3)] simp: set_worker_def run_fiber_def)
  next
    case (returns f)
    then show ?thesis by (intro to_go_worker [OF assms(3)]) (auto simp: set_worker_def)
  qed
qed

lemma main_to_go:
  assumes "stop_called (sc_main s)" "main_step n s t"
  shows "to_go n t < to_go n s"
  using assms(2)
proof cases
  case notify
  have "(\<Sum>w<n. worker_rank (sc_workers t w)) \<le> (\<Sum>w<n. worker_rank (sc_workers s w))"
    using notify by (intro sum_mono) (simp add: wake_all_def)
  then show ?thesis using notify by (simp add: to_go_def wake_all_def)
qed (use assms(1) in \<open>simp_all add: to_go_def\<close>)

lemma own_step_frame:
  assumes "own_step n s t"
  shows "sc_clients t = sc_clients s \<and> sc_scheduled t = sc_scheduled s
    \<and> (stop_called (sc_main s) \<longrightarrow> stop_called (sc_main t))"
proof -
  from assms consider (worker) w where "worker_step w s t" | (main) "main_step n s t"
    by (auto simp: own_step_def)
  then show ?thesis
  proof cases
    case worker
    then show ?thesis
      by cases (auto simp: set_worker_def take_fiber_def run_fiber_def split: option.splits)
  next
    case main
    then show ?thesis by cases (simp_all add: set_worker_def wake_all_def)
  qed
qed

text \<open>While fibers wait, some worker will look at the queue again.\<close>

fun looks_again :: "wpc \<Rightarrow> bool" where
  "looks_again NotStarted = False"
| "looks_again Exited = False"
| "looks_again (Got None) = False"
| "looks_again pc = True"

definition covered :: "nat \<Rightarrow> sched \<Rightarrow> bool" where
  "covered n s \<longleftrightarrow> (sc_fibers s \<noteq> [] \<longrightarrow> (\<exists>w < n. looks_again (sc_workers s w)))"

lemma covered_step:
  assumes "covered n s" "own_step n s t"
  shows "covered n t"
proof -
  from assms(2) consider (worker) w where "w < n" "worker_step w s t" | (main) "main_step n s t"
    by (auto simp: own_step_def)
  then show ?thesis
  proof cases
    case worker
    note w = worker(1)
    from worker(2) show ?thesis
    proof cases
      case (run fb)
      show ?thesis
      proof (cases fb)
        case None
        have "covered n s \<longleftrightarrow> (sc_fibers s \<noteq> [] \<longrightarrow> (\<exists>v < n. v \<noteq> w \<and> looks_again (sc_workers s v)))"
          using run None by (auto simp: covered_def)
        then show ?thesis using assms(1) run None by (auto simp: covered_def run_fiber_def set_worker_def)
      next
        case (Some f)
        then show ?thesis using run w by (auto simp: covered_def run_fiber_def set_worker_def)
      qed
    qed (use w in \<open>auto simp: covered_def take_fiber_def set_worker_def\<close>)
  next
    case main
    then show ?thesis
    proof cases
      case (spawn i)
      then show ?thesis by (auto simp: covered_def set_worker_def)
    next
      case notify
      have "looks_again (sc_workers t w) = looks_again (sc_workers s w)" for w
        using notify by (simp add: wake_all_def)
      then show ?thesis using assms(1) notify by (simp add: covered_def wake_all_def)
    qed (use assms(1) in \<open>simp_all add: covered_def\<close>)
  qed
qed

text \<open>When nothing can move, the owner is through.\<close>

lemma stuck_stopped:
  assumes "sched_inv n s" "calm_clients s" "stop_called (sc_main s)" "\<nexists>t. own_step n s t"
  shows "sc_main s = Stopped \<and> (\<forall>w < n. sc_workers s w = Exited)"
proof -
  note inv = assms(1) [unfolded sched_inv_def]
  have no_main: "\<not> main_step n s t" and no_worker: "w < n \<Longrightarrow> \<not> worker_step w s t" for t w
    using assms(4) by (auto simp: own_step_def)
  have live: "sc_workers s w \<noteq> NotStarted \<longleftrightarrow> w < spawned n (sc_main s)" for w
    using inv by (simp add: phase_ok_def)
  have "spawned n (sc_main s) = n" using assms(3) by (cases "sc_main s") simp_all
  then have live: "sc_workers s w \<noteq> NotStarted \<longleftrightarrow> w < n" for w using live by simp
  have main: "sc_main s \<noteq> StopLocked" "sc_main s \<noteq> NotifyAll" "sc_main s \<noteq> SwapLocked"
    using no_main by (blast intro: main_step.intros)+
  have unlocked: "sc_workers s w \<noteq> Locked" for w
    using live [of w] no_worker [of w] by (cases "w < n") (auto intro: worker_step.sleep worker_step.take)
  have mutex: "sc_mutex s = None"
  proof (rule ccontr)
    assume "sc_mutex s \<noteq> None"
    then obtain a where "sc_mutex s = Some a" by blast
    then have "holds s a" using inv by (simp add: lock_ok_def)
    then show False using unlocked main assms(2) by (cases a) (auto simp: calm_clients_def)
  qed
  then have "sc_main s \<noteq> SwapLock" using no_main by (blast intro: main_step.swap_lock)
  with main assms(3) have after: "after_notify (sc_main s)" by (cases "sc_main s") simp_all
  have exited: "sc_workers s w = Exited" if "w < n" for w
  proof (cases "sc_workers s w")
    case Asleep
    then show ?thesis using inv after by (simp add: phase_ok_def)
  qed (use no_worker [OF that] mutex unlocked [of w] live [of w] that in \<open>auto intro: worker_step.intros\<close>)
  have "sc_main s \<noteq> Joining i" for i
  proof
    assume "sc_main s = Joining i"
    moreover from this have "i \<le> n" using inv by (simp add: phase_ok_def)
    ultimately show False
      using no_main exited main_step.join [of s i n] main_step.joined [of s n] by (metis le_neq_implies_less)
  qed
  with after main \<open>sc_main s \<noteq> SwapLock\<close> exited show ?thesis by (cases "sc_main s") auto
qed

lemma own_steps_keep:
  assumes "(own_step n)\<^sup>*\<^sup>* s t" "sched_inv n s" "calm_clients s" "stop_called (sc_main s)" "covered n s"
  shows "sched_inv n t \<and> calm_clients t \<and> stop_called (sc_main t) \<and> covered n t
    \<and> sc_scheduled t = sc_scheduled s"
  using assms
proof (induction rule: rtranclp_induct)
  case (step t u)
  then have "sched_step n t u" by (simp add: sched_step_def)
  with step own_step_frame [OF step.hyps(2)] show ?case
    by (auto simp: calm_clients_def intro: sched_inv_step covered_step)
qed simp

lemma own_step_to_go:
  "sched_inv n s \<Longrightarrow> stop_called (sc_main s) \<Longrightarrow> own_step n s t \<Longrightarrow> to_go n t < to_go n s"
  by (auto simp: own_step_def intro: worker_to_go main_to_go)

lemma own_steps_bounded:
  assumes "((own_step n) ^^ k) s t" "sched_inv n s" "stop_called (sc_main s)"
  shows "k + to_go n t \<le> to_go n s"
  using assms
proof (induction k arbitrary: t)
  case (Suc k)
  then obtain u where u: "((own_step n) ^^ k) s u" "own_step n u t" by auto
  have "sched_inv n u \<and> stop_called (sc_main u)"
    using relpowp_imp_rtranclp [OF u(1)] Suc.prems(2,3)
  proof (induction rule: rtranclp_induct)
    case (step v w)
    then show ?case using own_step_frame [OF step.hyps(2)] sched_inv_step
      by (auto simp: sched_step_def)
  qed simp
  with Suc.IH [OF u(1)] Suc.prems own_step_to_go [OF _ _ u(2)] show ?case by fastforce
qed simp

lemma sched_step_main: "main_step n s t \<Longrightarrow> sched_step n s t"
  and sched_step_worker: "worker_step w s t \<Longrightarrow> w < n \<Longrightarrow> sched_step n s t"
  and sched_step_client: "schedule_step c s t \<Longrightarrow> sched_step n s t"
  by (auto simp: sched_step_def own_step_def)

section \<open>Properties\<close>

text \<open>
  C32 (Scheduler::schedule, run, start, stop). In every reachable state, with any number of workers
  and callers: at most one thread is inside a critical section; every fiber scheduled is still in
  the queue, in the hands of exactly one worker, or swapped in exactly once; a worker has left
  \<^verbatim>\<open>run\<close> only if the scheduler is stopping; and no wake-up is lost: when fibers wait while a worker
  sleeps, another worker is awake or a notification is still to come.
\<close>

theorem scheduler_safe:
  assumes "(sched_step n)\<^sup>*\<^sup>* Scheduler s"
  shows "(\<forall>a b. holds s a \<and> holds s b \<longrightarrow> a = b)
    \<and> mset (sc_scheduled s) = mset (sc_fibers s) + mset (sc_swapped s) + (\<Sum>w<n. in_hand (sc_workers s w))
    \<and> ((\<exists>w. sc_workers s w = Exited) \<longrightarrow> sc_stopping s)
    \<and> (sc_fibers s \<noteq> [] \<and> (\<exists>w. sc_workers s w = Asleep) \<longrightarrow>
         (\<exists>w. awake (sc_workers s w)) \<or> (\<exists>c. sc_clients s c = Tickle True) \<or> sc_main s = NotifyAll)"
proof -
  have "sched_inv n s" by (rule sched.reachable_inv [OF refl assms])
  then have lock: "\<And>a. holds s a \<longleftrightarrow> sc_mutex s = Some a" and fibers: "fibers_ok n s"
      and phase: "phase_ok n s" and wake: "wake_ok s"
    by (simp_all add: sched_inv_def lock_ok_def)
  have "\<forall>a b. holds s a \<and> holds s b \<longrightarrow> a = b" by (auto simp: lock)
  moreover have "(\<exists>w. sc_workers s w = Exited) \<longrightarrow> sc_stopping s"
    using phase by (auto simp: phase_ok_def)
  ultimately show ?thesis using fibers wake by (simp add: fibers_ok_def wake_ok_def)
qed

text \<open>
  C33 (Scheduler::stop, run). When \<^verbatim>\<open>stop\<close> is called on a started scheduler with at least one
  thread while no call of \<^verbatim>\<open>schedule\<close> is under way, and none is made after, it returns: however
  the threads are interleaved, not more than \<open>4 * q + 6 * n + 5\<close> steps are made, with \<open>q\<close> fibers
  waiting, and where no thread can make another step, \<^verbatim>\<open>stop\<close> has returned, every worker has left
  \<^verbatim>\<open>run\<close>, and the fibers swapped in are exactly those ever scheduled.
\<close>

theorem stop_drains_and_returns:
  assumes "(sched_step n)\<^sup>*\<^sup>* Scheduler s" "sc_main s = StopLocked" "\<forall>c. sc_clients s c = Idle" "0 < n"
  shows "(\<forall>k t. ((own_step n) ^^ k) s t \<longrightarrow> k \<le> 4 * length (sc_fibers s) + 6 * n + 5)
    \<and> (\<forall>t. (own_step n)\<^sup>*\<^sup>* s t \<and> (\<nexists>u. own_step n t u) \<longrightarrow>
         sc_main t = Stopped \<and> (\<forall>w<n. sc_workers t w = Exited) \<and> sc_fibers t = []
         \<and> mset (sc_swapped t) = mset (sc_scheduled s))"
proof -
  have inv: "sched_inv n s" by (rule sched.reachable_inv [OF refl assms(1)])
  have calm: "calm_clients s" and called: "stop_called (sc_main s)"
    using assms(2,3) by (simp_all add: calm_clients_def)
  have "sc_workers s 0 \<noteq> NotStarted" "sc_workers s 0 \<noteq> Exited" "sc_workers s 0 \<noteq> Got None"
    using inv assms(2,4) by (simp_all add: sched_inv_def phase_ok_def)
  then have "looks_again (sc_workers s 0)" by (cases "sc_workers s 0" rule: looks_again.cases) simp_all
  then have cov: "covered n s" using assms(4) by (auto simp: covered_def)
  have "k \<le> 4 * length (sc_fibers s) + 6 * n + 5" if "((own_step n) ^^ k) s t" for k t
    using own_steps_bounded [OF that inv called] to_go_le [of n s] by simp
  moreover have "sc_main t = Stopped \<and> (\<forall>w<n. sc_workers t w = Exited) \<and> sc_fibers t = []
      \<and> mset (sc_swapped t) = mset (sc_scheduled s)"
    if "(own_step n)\<^sup>*\<^sup>* s t" "\<nexists>u. own_step n t u" for t
  proof -
    note t = own_steps_keep [OF that(1) inv calm called cov]
    have stopped: "sc_main t = Stopped" "\<forall>w<n. sc_workers t w = Exited"
      using stuck_stopped [of n t] t that(2) by auto
    then have "sc_fibers t = []" "(\<Sum>w<n. in_hand (sc_workers t w)) = {#}"
      using t by (auto simp: covered_def)
    with stopped t show ?thesis by (auto simp: sched_inv_def fibers_ok_def)
  qed
  ultimately show ?thesis by blast
qed

end
