(* ===== verification/SchedulerRuns.thy ===== *)
theory SchedulerRuns
  imports SchedulerProps
begin

text \<open>
  Runs of the scheduler with its threads, computed: an order in which the threads move gives the
  state they reach, and two orders show what \<^verbatim>\<open>schedule\<close> does not promise.
\<close>

section \<open>Moves\<close>

text \<open>
  Who moves next. A call names its fiber and a notification the worker it wakes; every other move
  is determined by where the thread is.
\<close>

datatype move = MainMoves | WorkerMoves nat | Calls nat nat | ClientMoves nat | Wakes nat nat

definition worker_move :: "nat \<Rightarrow> sched \<Rightarrow> sched option" where
  "worker_move w s =
     (case sc_workers s w of
        AtLock \<Rightarrow> (if sc_mutex s = None then Some (set_worker w Locked (s\<lparr>sc_mutex := Some (Worker w)\<rparr>)) else None)
      | Woken \<Rightarrow> (if sc_mutex s = None then Some (set_worker w Locked (s\<lparr>sc_mutex := Some (Worker w)\<rparr>)) else None)
      | Locked \<Rightarrow> Some (if wait_done s then take_fiber w s else set_worker w Asleep (s\<lparr>sc_mutex := None\<rparr>))
      | Got fb \<Rightarrow> Some (run_fiber w fb s)
      | Running f \<Rightarrow> Some (set_worker w AtLock s)
      | _ \<Rightarrow> None)"

definition client_move :: "nat \<Rightarrow> nat \<Rightarrow> sched \<Rightarrow> sched option" where
  "client_move n c s =
     (case sc_clients s c of
        SLock f \<Rightarrow> (if sc_mutex s = None then Some (set_client c (SLocked f) (s\<lparr>sc_mutex := Some (Client c)\<rparr>)) else None)
      | SLocked f \<Rightarrow> Some (push_fiber c f s)
      | Tickle b \<Rightarrow>
          (if b \<and> (\<exists>w \<in> set [0..<n]. sc_workers s w = Asleep) then None else Some (set_client c Idle s))
      | Idle \<Rightarrow> None)"

definition main_move :: "nat \<Rightarrow> sched \<Rightarrow> sched option" where
  "main_move n s =
     (case sc_main s of
        Made \<Rightarrow> Some (s\<lparr>sc_stopping := False, sc_main := Spawning 0\<rparr>)
      | Spawning i \<Rightarrow>
          (if i < n then Some ((set_worker i AtLock s)\<lparr>sc_main := Spawning (Suc i)\<rparr>)
           else if i = n then Some (s\<lparr>sc_main := Started\<rparr>) else None)
      | StartThrew i \<Rightarrow> None
      | Started \<Rightarrow> Some (s\<lparr>sc_main := StopLock\<rparr>)
      | StopLock \<Rightarrow> (if sc_mutex s = None then Some (s\<lparr>sc_main := StopLocked, sc_mutex := Some Main\<rparr>) else None)
      | StopLocked \<Rightarrow> Some (s\<lparr>sc_main := NotifyAll, sc_stopping := True, sc_mutex := None\<rparr>)
      | NotifyAll \<Rightarrow> Some ((wake_all s)\<lparr>sc_main := SwapLock\<rparr>)
      | SwapLock \<Rightarrow> (if sc_mutex s = None then Some (s\<lparr>sc_main := SwapLocked, sc_mutex := Some Main\<rparr>) else None)
      | SwapLocked \<Rightarrow> Some (s\<lparr>sc_main := Joining 0, sc_mutex := None\<rparr>)
      | Joining i \<Rightarrow>
          (if i < n \<and> sc_workers s i = Exited then Some (s\<lparr>sc_main := Joining (Suc i)\<rparr>)
           else if i = n then Some (s\<lparr>sc_main := Stopped\<rparr>) else None)
      | Stopped \<Rightarrow> None)"

fun perform :: "nat \<Rightarrow> move \<Rightarrow> sched \<Rightarrow> sched option" where
  "perform n MainMoves s = main_move n s"
| "perform n (WorkerMoves w) s = (if w < n then worker_move w s else None)"
| "perform n (Calls c f) s = (if sc_clients s c = Idle then Some (set_client c (SLock f) s) else None)"
| "perform n (ClientMoves c) s = client_move n c s"
| "perform n (Wakes c w) s =
     (if sc_clients s c = Tickle True \<and> sc_workers s w = Asleep
      then Some (set_client c Idle (set_worker w Woken s)) else None)"

fun perform_all :: "nat \<Rightarrow> move list \<Rightarrow> sched \<Rightarrow> sched option" where
  "perform_all n [] s = Some s"
| "perform_all n (m # ms) s = (case perform n m s of None \<Rightarrow> None | Some t \<Rightarrow> perform_all n ms t)"

section \<open>Moves are steps\<close>

lemma worker_move_step: "worker_move w s = Some t \<Longrightarrow> worker_step w s t"
  by (auto simp: worker_move_def intro: worker_step.intros split: wpc.splits if_splits)

lemma main_move_step: "main_move n s = Some t \<Longrightarrow> main_step n s t"
  by (auto simp: main_move_def intro: main_step.intros split: mpc.splits if_splits)

lemma client_move_step:
  assumes "client_move n c s = Some t" "sched_inv n s"
  shows "schedule_step c s t"
proof -
  have "w < n" if "sc_workers s w = Asleep" for w
  proof -
    have "w < spawned n (sc_main s)" using assms(2) that by (auto simp: sched_inv_def phase_ok_def)
    moreover have "spawned n (sc_main s) \<le> n"
      using assms(2) by (cases "sc_main s") (auto simp: sched_inv_def phase_ok_def)
    ultimately show ?thesis by simp
  qed
  then have nobody: "\<forall>w \<in> set [0..<n]. sc_workers s w \<noteq> Asleep \<Longrightarrow> \<forall>w. sc_workers s w \<noteq> Asleep"
    by auto
  show ?thesis
  proof (cases "sc_clients s c")
    case (Tickle b)
    with assms(1) nobody show ?thesis
      by (cases b) (auto simp: client_move_def intro: schedule_step.nobody schedule_step.quiet split: if_splits)
  qed (use assms(1) in \<open>auto simp: client_move_def intro: schedule_step.intros split: if_splits\<close>)
qed

lemma perform_step:
  assumes "perform n m s = Some t" "sched_inv n s"
  shows "sched_step n s t"
proof (cases m)
  case (Wakes c w)
  with assms(1) show ?thesis by (auto intro: sched_step_client schedule_step.wake split: if_splits)
qed (use assms in \<open>auto intro: sched_step_main sched_step_worker sched_step_client main_move_step
      worker_move_step client_move_step schedule_step.call split: if_splits\<close>)

lemma perform_all_reachable:
  assumes "perform_all n ms s = Some t" "(sched_step n)\<^sup>*\<^sup>* Scheduler s"
  shows "(sched_step n)\<^sup>*\<^sup>* Scheduler t"
  using assms
proof (induction ms arbitrary: s)
  case (Cons m ms)
  then obtain u where u: "perform n m s = Some u" "perform_all n ms u = Some t"
    by (auto split: option.splits)
  have "sched_step n s u"
    by (rule perform_step [OF u(1) sched.reachable_inv [OF refl Cons.prems(2)]])
  with Cons.prems(2) Cons.IH [OF u(2)] show ?case by (meson rtranclp.rtrancl_into_rtrancl)
qed simp

section \<open>What schedule does not promise\<close>

text \<open>Two workers go to sleep; of two fibers scheduled at once only the first is announced.\<close>

definition sleeper_moves :: "move list" where
  "sleeper_moves =
     [MainMoves, MainMoves, MainMoves, MainMoves,
      WorkerMoves 0, WorkerMoves 0, WorkerMoves 1, WorkerMoves 1,
      Calls 0 7, ClientMoves 0, ClientMoves 0, Calls 1 8, ClientMoves 1, ClientMoves 1,
      Wakes 0 0, ClientMoves 1]"

text \<open>The only worker leaves between the flag and a call of \<^verbatim>\<open>schedule\<close>.\<close>

definition late_moves :: "move list" where
  "late_moves =
     [MainMoves, MainMoves, MainMoves, MainMoves, MainMoves, MainMoves,
      WorkerMoves 0, WorkerMoves 0, WorkerMoves 0,
      Calls 0 7, ClientMoves 0, ClientMoves 0, ClientMoves 0,
      MainMoves, MainMoves, MainMoves, MainMoves, MainMoves]"

lemma sleeper_run:
  "\<exists>s. perform_all 2 sleeper_moves Scheduler = Some s \<and> sc_fibers s = [7, 8] \<and> sc_workers s 1 = Asleep
     \<and> (\<forall>c. sc_clients s c = Idle) \<and> sc_main s = Started"
  by (simp add: sleeper_moves_def Scheduler_def main_move_def worker_move_def client_move_def sched_defs
      upt_rec numeral_2_eq_2)

lemma late_run:
  "\<exists>s. perform_all 1 late_moves Scheduler = Some s \<and> sc_fibers s = [7] \<and> sc_swapped s = []
     \<and> (\<forall>c. sc_clients s c = Idle) \<and> sc_main s = Stopped"
  by (simp add: late_moves_def Scheduler_def main_move_def worker_move_def client_move_def sched_defs upt_rec)

text \<open>
  C34 (Scheduler::schedule, run, stop). Two things the scheduler does not promise. A worker can
  be left asleep although fibers wait and no call is under way, since \<^verbatim>\<open>schedule\<close> announces a fiber only when
  the queue was empty; and a fiber scheduled while \<^verbatim>\<open>stop\<close> is under way can stay in the queue for
  good: \<^verbatim>\<open>stop\<close> has returned and no worker is left to swap it in.
\<close>

theorem scheduler_leaves_work:
  "(\<exists>s. (sched_step 2)\<^sup>*\<^sup>* Scheduler s \<and> sc_fibers s \<noteq> [] \<and> sc_workers s 1 = Asleep
      \<and> (\<forall>c. sc_clients s c = Idle) \<and> sc_main s = Started)
   \<and> (\<exists>s. (sched_step 1)\<^sup>*\<^sup>* Scheduler s \<and> sc_main s = Stopped \<and> (\<forall>c. sc_clients s c = Idle)
      \<and> set (sc_fibers s) - set (sc_swapped s) \<noteq> {} \<and> \<not> (\<exists>t. own_step 1 s t))"
proof -
  obtain s where s: "(sched_step 2)\<^sup>*\<^sup>* Scheduler s" "sc_fibers s = [7, 8]" "sc_workers s 1 = Asleep"
      "\<forall>c. sc_clients s c = Idle" "sc_main s = Started"
    using sleeper_run perform_all_reachable [OF _ rtranclp.rtrancl_refl] by blast
  obtain t where t: "(sched_step 1)\<^sup>*\<^sup>* Scheduler t" "sc_fibers t = [7]" "sc_swapped t = []"
      "\<forall>c. sc_clients t c = Idle" "sc_main t = Stopped"
    using late_run perform_all_reachable [OF _ rtranclp.rtrancl_refl] by blast
  have "sched_inv 1 t" by (rule sched.reachable_inv [OF refl t(1)])
  then have "sc_workers t 0 = Exited" using t(5) by (simp add: sched_inv_def phase_ok_def)
  then have "\<not> (\<exists>u. own_step 1 t u)"
    using t(5) by (auto simp: own_step_def worker_step_iff main_step_iff)
  with s t show ?thesis by (intro conjI exI [of _ s] exI [of _ t]) auto
qed

section \<open>Witnesses for the properties of SchedulerProps\<close>

text \<open>One worker, one scheduled fiber, and the owner about to set the flag.\<close>

definition demo_stop :: sched where
  "demo_stop = Scheduler\<lparr>sc_fibers := [7], sc_stopping := False, sc_mutex := Some Main,
     sc_workers := (\<lambda>_. NotStarted)(0 := AtLock), sc_main := StopLocked, sc_scheduled := [7]\<rparr>"

definition demo_moves :: "move list" where
  "demo_moves = [MainMoves, MainMoves, MainMoves, Calls 0 7, ClientMoves 0, ClientMoves 0, ClientMoves 0,
     MainMoves, MainMoves]"

lemma demo_stop_reachable: "(sched_step 1)\<^sup>*\<^sup>* Scheduler demo_stop"
proof (rule perform_all_reachable [OF _ rtranclp.rtrancl_refl])
  show "perform_all 1 demo_moves Scheduler = Some demo_stop"
    by (simp add: demo_moves_def demo_stop_def Scheduler_def main_move_def client_move_def sched_defs upt_rec
        fun_eq_iff)
qed

theorem scheduler_safe_witness:
  "mset (sc_scheduled demo_stop) = {#7#} + {#} + in_hand (sc_workers demo_stop 0)"
  using scheduler_safe [OF demo_stop_reachable] by (simp add: demo_stop_def Scheduler_def)

theorem stop_drains_and_returns_witness:
  "\<not> (\<exists>t. ((own_step 1) ^^ 16) demo_stop t)
   \<and> \<not> (\<exists>t. (own_step 1)\<^sup>*\<^sup>* demo_stop t \<and> \<not> (\<exists>u. own_step 1 t u) \<and> mset (sc_swapped t) \<noteq> {#7#})"
proof -
  have "sc_main demo_stop = StopLocked" "\<forall>c. sc_clients demo_stop c = Idle" "(0::nat) < 1"
    by (simp_all add: demo_stop_def Scheduler_def)
  note returns = stop_drains_and_returns [OF demo_stop_reachable this]
  have "\<not> (16::nat) \<le> 4 * length (sc_fibers demo_stop) + 6 * 1 + 5" "mset (sc_scheduled demo_stop) = {#7#}"
    by (simp_all add: demo_stop_def Scheduler_def)
  with returns show ?thesis by metis
qed

end
