(* ===== verification/SchedulerFibers.thy ===== *)
theory SchedulerFibers
  imports SchedulerRuns FiberProps
begin

text \<open>
  The scheduler with its threads and the fibers together: the workers of \<open>Scheduler\<close> share the
  fibers of \<open>Fiber\<close>, every worker with its own thread-local variables, and a swap executes the
  machine of \<open>Fiber\<close>. A resumption is one step, from the switch into the fiber to the switch
  back; two resumptions of one fiber at a time would share a stack and are a race.
\<close>

section \<open>State and steps\<close>

text \<open>\<open>wk_order\<close> records the resumptions that have come back.\<close>

record works =
  wk_sched :: sched
  wk_mem :: fsys
  wk_tls :: "nat \<Rightarrow> tls"
  wk_order :: "nat list"
  wk_race :: bool
  wk_ended :: bool

text \<open>
  \<^verbatim>\<open>run\<close> on worker \<open>w\<close>: the steps of the scheduler, and the body of \<^verbatim>\<open>if(fiber)\<close>: into the fiber,
  unless another worker is in it, and back, unless the fiber ends the thread or leaves its stack.
\<close>

inductive worker_work :: "nat \<Rightarrow> works \<Rightarrow> works \<Rightarrow> bool" for w :: nat where
  plain: "\<forall>f. sc_workers (wk_sched W) w \<noteq> Running f \<Longrightarrow>
     \<forall>f v. sc_workers (wk_sched W) w = Got (Some f) \<longrightarrow> sc_workers (wk_sched W) v \<noteq> Running f \<Longrightarrow>
     worker_step w (wk_sched W) t \<Longrightarrow>
     worker_work w W (W\<lparr>wk_sched := t\<rparr>)"
| race: "sc_workers (wk_sched W) w = Got (Some f) \<Longrightarrow> sc_workers (wk_sched W) v = Running f \<Longrightarrow>
     worker_work w W (W\<lparr>wk_race := True\<rparr>)"
| resumed: "sc_workers (wk_sched W) w = Running f \<Longrightarrow>
     leads ([SwapIn f], wk_tls W w, wk_mem W) ([], T, S) \<Longrightarrow>
     worker_work w W (W\<lparr>wk_sched := set_worker w AtLock (wk_sched W), wk_mem := S,
       wk_tls := (wk_tls W)(w := T), wk_order := wk_order W @ [f]\<rparr>)"
| ended: "sc_workers (wk_sched W) w = Running f \<Longrightarrow>
     fails ([SwapIn f], wk_tls W w, wk_mem W) e \<Longrightarrow>
     worker_work w W (W\<lparr>wk_ended := True\<rparr>)"

text \<open>Nothing is said about what follows a race or the end of a worker's thread.\<close>

inductive work_step :: "nat \<Rightarrow> works \<Rightarrow> works \<Rightarrow> bool" for n :: nat where
  owner: "\<not> wk_race W \<Longrightarrow> \<not> wk_ended W \<Longrightarrow> main_step n (wk_sched W) t \<Longrightarrow>
     work_step n W (W\<lparr>wk_sched := t\<rparr>)"
| caller: "\<not> wk_race W \<Longrightarrow> \<not> wk_ended W \<Longrightarrow> schedule_step c (wk_sched W) t \<Longrightarrow>
     work_step n W (W\<lparr>wk_sched := t\<rparr>)"
| worker: "\<not> wk_race W \<Longrightarrow> \<not> wk_ended W \<Longrightarrow> w < n \<Longrightarrow> worker_work w W W' \<Longrightarrow>
     work_step n W W'"

section \<open>Callers that keep to the rules\<close>

text \<open>Who has a fiber: the worker that took it, a caller that is about to schedule it.\<close>

definition has :: "wpc \<Rightarrow> nat \<Rightarrow> bool" where
  "has pc f \<longleftrightarrow> pc = Got (Some f) \<or> pc = Running f"

definition wants :: "cpc \<Rightarrow> nat \<Rightarrow> bool" where
  "wants pc f \<longleftrightarrow> pc = SLock f \<or> pc = SLocked f"

definition pending :: "nat \<Rightarrow> sched \<Rightarrow> bool" where
  "pending f s \<longleftrightarrow> f \<in> set (sc_fibers s) \<or> (\<exists>w. has (sc_workers s w) f) \<or> (\<exists>c. wants (sc_clients s c) f)"

text \<open>
  A caller schedules a fiber only while nobody has it and its \<^verbatim>\<open>getState\<close> says that it has not
  ended; the code does not check this.
\<close>

definition polite_calls :: "nat set \<Rightarrow> works \<Rightarrow> works \<Rightarrow> bool" where
  "polite_calls F W W' \<longleftrightarrow>
     (\<forall>c f. sc_clients (wk_sched W) c = Idle \<and> sc_clients (wk_sched W') c = SLock f \<longrightarrow>
        f \<in> F \<and> \<not> pending f (wk_sched W)
        \<and> fb_state (fs_fibers (wk_mem W) ! f) \<noteq> TERMINATED \<and> fb_state (fs_fibers (wk_mem W) ! f) \<noteq> EXCEPT)"

definition polite_step :: "nat \<Rightarrow> nat set \<Rightarrow> works \<Rightarrow> works \<Rightarrow> bool" where
  "polite_step n F W W' \<longleftrightarrow> work_step n W W' \<and> polite_calls F W W'"

section \<open>Every fiber is with one thread\<close>

definition exclusive :: "sched \<Rightarrow> bool" where
  "exclusive s \<longleftrightarrow> distinct (sc_fibers s)
     \<and> (\<forall>w f. has (sc_workers s w) f \<longrightarrow> f \<notin> set (sc_fibers s))
     \<and> (\<forall>w v f. has (sc_workers s w) f \<and> has (sc_workers s v) f \<longrightarrow> w = v)
     \<and> (\<forall>c f. wants (sc_clients s c) f \<longrightarrow> f \<notin> set (sc_fibers s) \<and> (\<forall>w. \<not> has (sc_workers s w) f))
     \<and> (\<forall>c d f. wants (sc_clients s c) f \<and> wants (sc_clients s d) f \<longrightarrow> c = d)"

lemma has_simps [simp]:
  "has (Got (Some g)) f \<longleftrightarrow> g = f" "has (Running g) f \<longleftrightarrow> g = f" "\<not> has (Got None) f"
  "\<not> has AtLock f" "\<not> has Locked f" "\<not> has Asleep f" "\<not> has Woken f" "\<not> has Exited f" "\<not> has NotStarted f"
  by (auto simp: has_def)

lemma wants_simps [simp]:
  "wants (SLock g) f \<longleftrightarrow> g = f" "wants (SLocked g) f \<longleftrightarrow> g = f" "\<not> wants Idle f" "\<not> wants (Tickle b) f"
  by (auto simp: wants_def)

text \<open>A worker that changes its place without a new fiber, a caller without a new wish.\<close>

lemma exclusive_worker:
  assumes "exclusive s" "\<forall>f. has pc f \<longrightarrow> has (sc_workers s w) f"
    and "sc_fibers t = sc_fibers s" "sc_clients t = sc_clients s" "sc_workers t = (sc_workers s)(w := pc)"
  shows "exclusive t"
proof -
  have old: "has (sc_workers t v) f \<Longrightarrow> has (sc_workers s v) f" for v f
    using assms(2,5) by (cases "v = w") auto
  from assms(1) show ?thesis unfolding exclusive_def assms(3,4) by (blast dest: old)
qed

lemma exclusive_client:
  assumes "exclusive s" "\<forall>f. wants pc f \<longrightarrow> wants (sc_clients s c) f"
    and "sc_fibers t = sc_fibers s" "sc_workers t = sc_workers s" "sc_clients t = (sc_clients s)(c := pc)"
  shows "exclusive t"
proof -
  have old: "wants (sc_clients t d) f \<Longrightarrow> wants (sc_clients s d) f" for d f
    using assms(2,5) by (cases "d = c") auto
  from assms(1) show ?thesis unfolding exclusive_def assms(3,4) by (blast dest: old)
qed

lemma exclusive_take:
  assumes "exclusive s" "sc_fibers s = fs @ [f]" "sc_workers s w = Locked"
    and "sc_fibers t = fs" "sc_clients t = sc_clients s" "sc_workers t = (sc_workers s)(w := Got (Some f))"
  shows "exclusive t"
  using assms unfolding exclusive_def by (auto simp: fun_upd_apply)

lemma exclusive_push:
  assumes "exclusive s" "wants (sc_clients s c) f" "\<And>g. \<not> wants pc g"
    and "sc_fibers t = sc_fibers s @ [f]" "sc_workers t = sc_workers s" "sc_clients t = (sc_clients s)(c := pc)"
  shows "exclusive t"
proof -
  have free: "f \<notin> set (sc_fibers s)" "\<And>w. \<not> has (sc_workers s w) f"
    using assms(1,2) by (auto simp: exclusive_def)
  have only: "wants (sc_clients s d) f \<Longrightarrow> d = c" for d
    using assms(1,2) unfolding exclusive_def by blast
  have old: "wants (sc_clients t d) g \<Longrightarrow> d \<noteq> c \<and> wants (sc_clients s d) g" for d g
    using assms(3,6) by (cases "d = c") auto
  then have new: "wants (sc_clients t d) g \<Longrightarrow> g \<noteq> f" for d g using only by blast
  from assms(1) have "distinct (sc_fibers t)" "\<forall>w g. has (sc_workers t w) g \<longrightarrow> g \<notin> set (sc_fibers t)"
    using free by (auto simp: exclusive_def assms(4,5))
  moreover have "\<forall>d g. wants (sc_clients t d) g \<longrightarrow> g \<notin> set (sc_fibers t) \<and> (\<forall>w. \<not> has (sc_workers t w) g)"
    using assms(1) old new unfolding exclusive_def assms(4,5) by fastforce
  moreover have "\<forall>d e g. wants (sc_clients t d) g \<and> wants (sc_clients t e) g \<longrightarrow> d = e"
    using assms(1) old unfolding exclusive_def by blast
  ultimately show ?thesis
    using assms(1) unfolding exclusive_def assms(5) by blast
qed

lemma exclusive_call:
  assumes "exclusive s" "\<not> pending f s"
    and "sc_fibers t = sc_fibers s" "sc_workers t = sc_workers s" "sc_clients t = (sc_clients s)(c := SLock f)"
  shows "exclusive t"
proof -
  have free: "f \<notin> set (sc_fibers s)" "\<And>w. \<not> has (sc_workers s w) f" "\<And>d. \<not> wants (sc_clients s d) f"
    using assms(2) by (auto simp: pending_def)
  have old: "wants (sc_clients t d) g \<Longrightarrow> d = c \<and> g = f \<or> g \<noteq> f \<and> wants (sc_clients s d) g" for d g
    using free(3) assms(5) by (cases "d = c") auto
  have uniq: "wants (sc_clients s d) g \<Longrightarrow> wants (sc_clients s e) g \<Longrightarrow> d = e" for d e g
    using assms(1) unfolding exclusive_def by blast
  have "\<forall>d g. wants (sc_clients t d) g \<longrightarrow> g \<notin> set (sc_fibers t) \<and> (\<forall>w. \<not> has (sc_workers t w) g)"
    using assms(1) old free unfolding exclusive_def assms(3,4) by blast
  moreover have "\<forall>d e g. wants (sc_clients t d) g \<and> wants (sc_clients t e) g \<longrightarrow> d = e"
    using old uniq by metis
  ultimately show ?thesis
    using assms(1) unfolding exclusive_def assms(3,4) by blast
qed

lemma worker_exclusive:
  assumes "worker_step w s t" "exclusive s"
  shows "exclusive t"
  using assms(1)
proof cases
  case take
  show ?thesis
  proof (cases "sc_fibers s" rule: rev_cases)
    case Nil
    with take show ?thesis
      by (intro exclusive_worker [OF assms(2), of "Got None" w]) (auto simp: take_fiber_def set_worker_def)
  next
    case (snoc fs f)
    with take show ?thesis
      by (intro exclusive_take [OF assms(2), of fs f w]) (auto simp: take_fiber_def set_worker_def)
  qed
next
  case (run fb)
  then show ?thesis
    by (cases fb; intro exclusive_worker [OF assms(2), of "case fb of None \<Rightarrow> if sc_stopping s then Exited else AtLock | Some f \<Rightarrow> Running f" w])
       (auto simp: run_fiber_def set_worker_def split: option.splits)
next
  case lock
  then show ?thesis by (intro exclusive_worker [OF assms(2), of Locked w]) (auto simp: set_worker_def)
next
  case sleep
  then show ?thesis by (intro exclusive_worker [OF assms(2), of Asleep w]) (auto simp: set_worker_def)
next
  case spurious
  then show ?thesis by (intro exclusive_worker [OF assms(2), of Woken w]) (auto simp: set_worker_def)
next
  case (returns f)
  then show ?thesis by (intro exclusive_worker [OF assms(2), of AtLock w]) (auto simp: set_worker_def)
qed

lemma exclusive_same:
  assumes "exclusive s" "\<And>v f. has (sc_workers t v) f \<longleftrightarrow> has (sc_workers s v) f"
    and "sc_fibers t = sc_fibers s" "sc_clients t = sc_clients s"
  shows "exclusive t"
  using assms(1) unfolding exclusive_def assms(2-4) .

lemma main_exclusive:
  assumes "main_step n s t" "exclusive s" "phase_ok n s"
  shows "exclusive t"
  using assms(1)
proof cases
  case (spawn i)
  then have "sc_workers s i = NotStarted" using assms(3) by (auto simp: phase_ok_def)
  with spawn show ?thesis by (intro exclusive_worker [OF assms(2), of AtLock i]) (auto simp: set_worker_def)
next
  case notify
  then show ?thesis by (intro exclusive_same [OF assms(2)]) (auto simp: wake_all_def)
qed (auto intro!: exclusive_same [OF assms(2)])

lemma schedule_exclusive:
  assumes "schedule_step c s t" "exclusive s"
    and "\<And>f. sc_clients s c = Idle \<Longrightarrow> sc_clients t c = SLock f \<Longrightarrow> \<not> pending f s"
  shows "exclusive t"
  using assms(1)
proof cases
  case (call f)
  then have "\<not> pending f s" by (intro assms(3)) (simp_all add: set_client_def)
  with call show ?thesis
    by (intro exclusive_call [where f = f and c = c, OF assms(2)]) (auto simp: set_client_def)
next
  case (push f)
  then show ?thesis
    by (intro exclusive_push [OF assms(2), of c f "Tickle (sc_fibers s = [])"])
       (auto simp: push_fiber_def set_client_def)
next
  case (lock f)
  then show ?thesis by (intro exclusive_client [OF assms(2), of "SLocked f" c]) (auto simp: set_client_def)
next
  case (wake w)
  have woken: "exclusive (set_worker w Woken s)"
    by (rule exclusive_worker [where pc = Woken and w = w, OF assms(2)]) (simp_all add: set_worker_def)
  show ?thesis
    by (rule exclusive_client [where pc = Idle and c = c, OF woken]) (simp_all add: wake set_client_def)
qed (rule exclusive_client [where pc = Idle and c = c, OF assms(2)]; simp add: set_client_def)+

section \<open>Executions that come to an end\<close>

lemma steps_stay: "steps n c = Inr ([], T, S) \<Longrightarrow> steps (n + k) c = Inr ([], T, S)"
proof -
  have "steps k ([], T, S) = Inr ([], T, S)" by (induction k) simp_all
  then show "steps n c = Inr ([], T, S) \<Longrightarrow> steps (n + k) c = Inr ([], T, S)"
    by (simp only: steps_add rbind.simps)
qed

lemma leads_end_unique:
  assumes "leads c ([], T, S)" "leads c ([], T', S')"
  shows "T' = T \<and> S' = S"
proof -
  from assms obtain n m where "steps n c = Inr ([], T, S)" "steps m c = Inr ([], T', S')"
    by (auto simp: leads_def)
  from steps_stay [OF this(1), of m] steps_stay [OF this(2), of n] show ?thesis
    by (simp add: add.commute)
qed

lemma leads_end_no_fail: "leads c ([], T, S) \<Longrightarrow> \<not> fails c e"
proof
  assume "leads c ([], T, S)" "fails c e"
  then obtain n m where n: "steps n c = Inr ([], T, S)" and m: "steps m c = Inl e"
    by (auto simp: leads_def fails_def)
  have "steps (m + n) c = Inl e" using m by (simp only: steps_add rbind.simps)
  with steps_stay [OF n, of m] show False by (simp add: add.commute)
qed

lemma resume_all_snoc:
  "resume_all C fs = Some (ws, C') \<Longrightarrow> C' f = Ready st c \<Longrightarrow>
     resume_all C (fs @ [f]) = Some (ws @ marks c, C'(f := next_state st c))"
  by (induction fs arbitrary: C ws) (auto split: costate.splits option.splits)

section \<open>The invariant\<close>

fun running_of :: "wpc \<Rightarrow> nat multiset" where
  "running_of (Running f) = {#f#}"
| "running_of pc = {#}"

definition order_ok :: "nat \<Rightarrow> sched \<Rightarrow> nat list \<Rightarrow> bool" where
  "order_ok n s order \<longleftrightarrow> mset (sc_swapped s) = mset order + (\<Sum>w<n. running_of (sc_workers s w))"

text \<open>The fibers are where the coroutines \<open>C\<close> are, and who waits for one will not find it ended.\<close>

definition fibers_at :: "nat \<Rightarrow> nat set \<Rightarrow> (nat \<Rightarrow> nat) \<Rightarrow> (nat \<Rightarrow> costate) \<Rightarrow> works \<Rightarrow> bool" where
  "fibers_at n F m C W \<longleftrightarrow>
     (\<forall>w < n. represents F (m w) C (wk_tls W w) (wk_mem W))
     \<and> (\<forall>f. pending f (wk_sched W) \<longrightarrow> f \<in> F \<and> (\<exists>st c. C f = Ready st c))
     \<and> (\<forall>f st. C f = Ended st \<longrightarrow> st = TERMINATED \<or> st = EXCEPT)"

definition works_inv :: "nat \<Rightarrow> nat set \<Rightarrow> (nat \<Rightarrow> nat) \<Rightarrow> (nat \<Rightarrow> costate) \<Rightarrow> string list \<Rightarrow> works \<Rightarrow> bool" where
  "works_inv n F m C0 out0 W \<longleftrightarrow>
     \<not> wk_race W \<and> \<not> wk_ended W \<and> sched_inv n (wk_sched W) \<and> exclusive (wk_sched W)
     \<and> order_ok n (wk_sched W) (wk_order W)
     \<and> (\<exists>C ws. resume_all C0 (wk_order W) = Some (ws, C) \<and> fs_out (wk_mem W) = out0 @ ws \<and> fibers_at n F m C W)"

lemma order_ok_same:
  assumes "order_ok n s order" "\<And>w. running_of (sc_workers t w) = running_of (sc_workers s w)"
    and "sc_swapped t = sc_swapped s"
  shows "order_ok n t order"
  using assms by (simp add: order_ok_def)

lemma main_order_ok:
  assumes "main_step n s t" "order_ok n s order" "phase_ok n s"
  shows "order_ok n t order"
  using assms(1)
proof cases
  case (spawn i)
  then have "sc_workers s i = NotStarted" using assms(3) by (auto simp: phase_ok_def)
  with spawn show ?thesis by (intro order_ok_same [OF assms(2)]) (auto simp: set_worker_def)
qed (auto intro!: order_ok_same [OF assms(2)] simp: wake_all_def)

lemma schedule_order_ok: "schedule_step c s t \<Longrightarrow> order_ok n s order \<Longrightarrow> order_ok n t order"
  by (erule schedule_step.cases) (auto intro: order_ok_same simp: set_client_def set_worker_def push_fiber_def)

lemma worker_order_ok:
  assumes "worker_step w s t" "order_ok n s order" "w < n" "\<forall>f. sc_workers s w \<noteq> Running f"
  shows "order_ok n t order"
  using assms(1)
proof cases
  case (run fb)
  show ?thesis
  proof (cases fb)
    case (Some f)
    with run show ?thesis
      using assms(2) sum_upd [OF assms(3), of running_of "sc_workers s" "Running f"]
        sum_split [OF assms(3), of running_of "sc_workers s"]
      by (simp add: order_ok_def run_fiber_def set_worker_def)
  next
    case None
    with run show ?thesis
      by (intro order_ok_same [OF assms(2)]) (auto simp: run_fiber_def set_worker_def)
  qed
qed (use assms(4) in \<open>auto intro!: order_ok_same [OF assms(2)] simp: set_worker_def take_fiber_def\<close>)

section \<open>What becomes pending\<close>

lemma pendingI:
  "f \<in> set (sc_fibers s) \<Longrightarrow> pending f s" "has (sc_workers s w) f \<Longrightarrow> pending f s"
  "wants (sc_clients s c) f \<Longrightarrow> pending f s"
  by (auto simp: pending_def)

lemma pending_back:
  assumes "pending f t" "\<And>g. g \<in> set (sc_fibers t) \<Longrightarrow> pending g s"
    and "\<And>w g. has (sc_workers t w) g \<Longrightarrow> pending g s"
    and "\<And>c g. wants (sc_clients t c) g \<Longrightarrow> pending g s"
  shows "pending f s"
  using assms unfolding pending_def [of f t] by blast

lemma worker_pending:
  assumes "worker_step w s t" "pending f t"
  shows "pending f s"
  using assms(1)
proof cases
  case take
  show ?thesis
    by (rule pending_back [OF assms(2)])
       (use take in \<open>auto simp: take_fiber_def set_worker_def intro: pendingI dest: in_set_butlastD split: if_splits\<close>)
next
  case (run fb)
  have here: "pending g s" if "fb = Some g" for g
    using pendingI(2) [of s w g] run that by simp
  show ?thesis
    by (rule pending_back [OF assms(2)])
       (use run here in \<open>auto simp: run_fiber_def set_worker_def intro: pendingI split: if_splits option.splits\<close>)
qed (rule pending_back [OF assms(2)], auto simp: set_worker_def intro: pendingI split: if_splits)+

lemma main_pending:
  assumes "main_step n s t" "pending f t"
  shows "pending f s"
  using assms(1)
  by cases (rule pending_back [OF assms(2)],
    auto simp: set_worker_def wake_all_def intro: pendingI split: if_splits)+

lemma schedule_pending:
  assumes "schedule_step c s t" "pending f t"
  shows "pending f s \<or> sc_clients s c = Idle \<and> sc_clients t c = SLock f"
proof (cases "\<exists>g. sc_clients t c = SLock g")
  case True
  with assms(1) obtain g where "sc_clients s c = Idle" "t = set_client c (SLock g) s"
    by cases (auto simp: set_client_def push_fiber_def)
  then show ?thesis using assms(2) by (auto simp: pending_def set_client_def split: if_splits)
next
  case False
  have mine: "wants (sc_clients s c) g \<Longrightarrow> pending g s" for g by (rule pendingI)
  from assms(1) have "pending f s"
  proof cases
    case (lock g)
    with mine [of g] show ?thesis
      by (intro pending_back [OF assms(2)]) (auto simp: set_client_def intro: pendingI split: if_splits)
  next
    case (push g)
    with mine [of g] show ?thesis
      by (intro pending_back [OF assms(2)]) (auto simp: set_client_def push_fiber_def intro: pendingI split: if_splits)
  next
    case (call g)
    with False show ?thesis by (simp add: set_client_def)
  qed (rule pending_back [OF assms(2)],
      auto simp: set_client_def set_worker_def intro: pendingI split: if_splits)+
  then show ?thesis ..
qed

section \<open>Steps of the scheduler keep the invariant\<close>

lemma works_inv_sched:
  assumes "works_inv n F m C0 out0 W" "sched_step n (wk_sched W) t" "exclusive t"
    and "order_ok n t (wk_order W)"
    and "\<And>f C. pending f t \<Longrightarrow> fibers_at n F m C W \<Longrightarrow> pending f (wk_sched W) \<or> f \<in> F \<and> (\<exists>st c. C f = Ready st c)"
  shows "works_inv n F m C0 out0 (W\<lparr>wk_sched := t\<rparr>)"
proof -
  obtain C ws where C: "resume_all C0 (wk_order W) = Some (ws, C)" "fs_out (wk_mem W) = out0 @ ws"
      "fibers_at n F m C W"
    using assms(1) by (auto simp: works_inv_def)
  have "f \<in> F \<and> (\<exists>st c. C f = Ready st c)" if "pending f t" for f
    using assms(5) [OF that C(3)] C(3) unfolding fibers_at_def by blast
  then have "fibers_at n F m C (W\<lparr>wk_sched := t\<rparr>)" using C(3) by (simp add: fibers_at_def)
  moreover have "sched_inv n t"
    by (rule sched_inv_step [OF _ assms(2)]) (use assms(1) in \<open>simp add: works_inv_def\<close>)
  ultimately show ?thesis using assms(1,3,4) C by (auto simp: works_inv_def)
qed

text \<open>A fiber that says it has not ended is ready.\<close>

lemma not_ended_ready:
  assumes "fibers_at n F m C W" "0 < n" "f \<in> F"
    and "fb_state (fs_fibers (wk_mem W) ! f) \<noteq> TERMINATED" "fb_state (fs_fibers (wk_mem W) ! f) \<noteq> EXCEPT"
  shows "\<exists>st c. C f = Ready st c"
proof (cases "C f")
  case (Ended st)
  have "suspended f (fs_fibers (wk_mem W) ! f) (C f)"
    using assms(1-3) by (auto simp: fibers_at_def represents_def)
  then have "fb_state (fs_fibers (wk_mem W) ! f) = st" using Ended by (simp add: suspended_def)
  moreover have "st = TERMINATED \<or> st = EXCEPT" using assms(1) Ended by (simp add: fibers_at_def)
  ultimately show ?thesis using assms(4,5) by auto
qed simp

section \<open>Resumptions keep the invariant\<close>

lemma represents_transfer:
  assumes "represents F m C T S" "represents F m' C' T' S'" "same_sched S S'"
  shows "represents F m C' T S'"
  using assms by (simp add: represents_def same_sched_def)

lemma returned_not_pending:
  assumes "exclusive s" "sc_workers s w = Running f"
  shows "\<not> pending f (set_worker w AtLock s)"
proof -
  have has: "has (sc_workers s w) f" using assms(2) by simp
  have "v = w" if "has (sc_workers s v) f" for v
    using assms(1) has that unfolding exclusive_def by blast
  moreover have "f \<notin> set (sc_fibers s)" "\<not> wants (sc_clients s c) f" for c
    using assms(1) has unfolding exclusive_def by blast+
  ultimately show ?thesis by (auto simp: pending_def set_worker_def split: if_splits)
qed

lemma running_ready:
  assumes "works_inv n F m C0 out0 W" "sc_workers (wk_sched W) w = Running f" "fibers_at n F m C W"
  shows "f \<in> F \<and> (\<exists>st c. C f = Ready st c)"
proof -
  have "pending f (wk_sched W)" using pendingI(2) [of "wk_sched W" w f] assms(2) by simp
  then show ?thesis using assms(3) by (simp add: fibers_at_def)
qed

lemma resumed_inv:
  assumes inv: "works_inv n F m C0 out0 W" and w: "w < n" and run: "sc_workers (wk_sched W) w = Running f"
    and leads: "leads ([SwapIn f], wk_tls W w, wk_mem W) ([], T, S)"
  shows "works_inv n F m C0 out0 (W\<lparr>wk_sched := set_worker w AtLock (wk_sched W), wk_mem := S,
       wk_tls := (wk_tls W)(w := T), wk_order := wk_order W @ [f]\<rparr>)"
proof -
  let ?s = "wk_sched W" and ?t = "set_worker w AtLock (wk_sched W)"
  obtain C ws where C: "resume_all C0 (wk_order W) = Some (ws, C)" "fs_out (wk_mem W) = out0 @ ws"
      "fibers_at n F m C W" and s: "sched_inv n ?s" "exclusive ?s" "order_ok n ?s (wk_order W)"
    using inv by (auto simp: works_inv_def)
  obtain st c where f: "f \<in> F" "C f = Ready st c" using running_ready [OF inv run C(3)] by blast
  have rep: "represents F (m v) C (wk_tls W v) (wk_mem W)" if "v < n" for v
    using C(3) that by (simp add: fibers_at_def)
  obtain T' S' where one: "leads ([SwapIn f], wk_tls W w, wk_mem W) ([], T', S')"
      "represents F (m w) (C(f := next_state st c)) T' S'" "fs_out S' = fs_out (wk_mem W) @ marks c"
      "same_sched (wk_mem W) S'"
    using resume_one [OF rep [OF w] f, of "[]"] by blast
  have TS: "T' = T" "S' = S" using leads_end_unique [OF leads one(1)] by simp_all
  have step: "worker_step w ?s ?t" by (rule worker_step.returns [OF run])
  have "represents F (m v) (C(f := next_state st c)) (((wk_tls W)(w := T)) v) S" if "v < n" for v
    using represents_transfer [OF rep [OF that] one(2,4)] one(2) TS by (cases "v = w") simp_all
  moreover have "g \<in> F \<and> (\<exists>st' c'. (C(f := next_state st c)) g = Ready st' c')" if "pending g ?t" for g
  proof -
    have "g \<noteq> f" using returned_not_pending [OF s(2) run] that by blast
    moreover have "pending g ?s" by (rule worker_pending [OF step that])
    ultimately show ?thesis using C(3) by (simp add: fibers_at_def)
  qed
  moreover have "x = TERMINATED \<or> x = EXCEPT" if "(C(f := next_state st c)) g = Ended x" for g x
    using that C(3) by (cases c) (auto simp: fibers_at_def split: if_splits)
  moreover have "order_ok n ?t (wk_order W @ [f])"
    using s(3) sum_upd [OF w, of running_of "sc_workers ?s" AtLock] sum_split [OF w, of running_of "sc_workers ?s"] run
    by (simp add: order_ok_def set_worker_def)
  moreover have "sched_inv n ?t" by (rule sched_inv_step [OF s(1) sched_step_worker [OF step w]])
  moreover have "exclusive ?t" by (rule worker_exclusive [OF step s(2)])
  moreover have "resume_all C0 (wk_order W @ [f]) = Some (ws @ marks c, C(f := next_state st c))"
    by (rule resume_all_snoc [OF C(1) f(2)])
  moreover have "\<not> wk_race W" "\<not> wk_ended W" using inv by (simp_all add: works_inv_def)
  ultimately show ?thesis
    unfolding works_inv_def fibers_at_def using C(2) one(3) TS by (auto simp del: fun_upd_apply)
qed

section \<open>Every step keeps it\<close>

lemma worker_work_inv:
  assumes inv: "works_inv n F m C0 out0 W" and w: "w < n" and work: "worker_work w W W'"
  shows "works_inv n F m C0 out0 W'"
proof -
  let ?s = "wk_sched W"
  have s: "exclusive ?s" "order_ok n ?s (wk_order W)" using inv by (simp_all add: works_inv_def)
  obtain C where C: "fibers_at n F m C W" using inv by (auto simp: works_inv_def)
  from work show ?thesis
  proof cases
    case (plain t)
    show ?thesis unfolding plain(1)
      by (rule works_inv_sched [OF inv sched_step_worker [OF plain(4) w] worker_exclusive [OF plain(4) s(1)]
            worker_order_ok [OF plain(4) s(2) w plain(2)]])
         (use worker_pending [OF plain(4)] in blast)
  next
    case (race f v)
    then have "has (sc_workers ?s w) f" "has (sc_workers ?s v) f" by simp_all
    then have "w = v" using s(1) unfolding exclusive_def by blast
    with race show ?thesis by simp
  next
    case (resumed f T S)
    show ?thesis unfolding resumed(1) by (rule resumed_inv [OF inv w resumed(2,3)])
  next
    case (ended f e)
    obtain st c where f: "f \<in> F" "C f = Ready st c" using running_ready [OF inv ended(2) C] by blast
    have "represents F (m w) C (wk_tls W w) (wk_mem W)" using C w by (simp add: fibers_at_def)
    from resume_one [OF this f, of "[]"] show ?thesis using leads_end_no_fail ended(3) by blast
  qed
qed

lemma main_inv:
  assumes inv: "works_inv n F m C0 out0 W" and main: "main_step n (wk_sched W) t"
  shows "works_inv n F m C0 out0 (W\<lparr>wk_sched := t\<rparr>)"
proof -
  have s: "exclusive (wk_sched W)" "order_ok n (wk_sched W) (wk_order W)" "phase_ok n (wk_sched W)"
    using inv by (auto simp: works_inv_def sched_inv_def)
  show ?thesis
    by (rule works_inv_sched [OF inv sched_step_main [OF main] main_exclusive [OF main s(1,3)]
          main_order_ok [OF main s(2,3)]])
       (use main_pending [OF main] in blast)
qed

lemma calls_inv:
  assumes inv: "works_inv n F m C0 out0 W" and "0 < n" and step: "schedule_step c (wk_sched W) t"
    and polite: "polite_calls F W (W\<lparr>wk_sched := t\<rparr>)"
  shows "works_inv n F m C0 out0 (W\<lparr>wk_sched := t\<rparr>)"
proof -
  let ?s = "wk_sched W"
  have s: "exclusive ?s" "order_ok n ?s (wk_order W)" using inv by (simp_all add: works_inv_def)
  have call: "f \<in> F \<and> \<not> pending f ?s \<and> fb_state (fs_fibers (wk_mem W) ! f) \<noteq> TERMINATED
      \<and> fb_state (fs_fibers (wk_mem W) ! f) \<noteq> EXCEPT"
    if "sc_clients ?s c = Idle" "sc_clients t c = SLock f" for f
    using polite that by (auto simp: polite_calls_def)
  have "exclusive t" by (rule schedule_exclusive [OF step s(1)]) (use call in blast)
  moreover have "pending f ?s \<or> f \<in> F \<and> (\<exists>st c. C f = Ready st c)"
    if "pending f t" "fibers_at n F m C W" for f C
    using schedule_pending [OF step that(1)] call not_ended_ready [OF that(2) \<open>0 < n\<close>] by blast
  ultimately show ?thesis
    by (intro works_inv_sched [OF inv sched_step_client [OF step]] schedule_order_ok [OF step s(2)])
qed

lemma works_inv_step:
  assumes inv: "works_inv n F m C0 out0 W" and "0 < n" and polite: "polite_step n F W W'"
  shows "works_inv n F m C0 out0 W'"
proof -
  have "work_step n W W'" and calls: "polite_calls F W W'" using polite by (simp_all add: polite_step_def)
  from this(1) show ?thesis
  proof cases
    case (owner t)
    with main_inv [OF inv] show ?thesis by blast
  next
    case (caller c t)
    with calls_inv [OF inv \<open>0 < n\<close>] calls show ?thesis by blast
  next
    case (worker w)
    with worker_work_inv [OF inv] show ?thesis by blast
  qed
qed

end
