(* ===== verification/WorkersProps.thy ===== *)
theory WorkersProps
  imports SchedulerFibers
begin

text \<open>
  What the scheduler with its threads does with fibers: with callers that keep to the rules, the
  threads together do what one thread would do that resumes the fibers in some order; with
  callers that do not, two threads can be in one fiber.
\<close>

section \<open>From the start\<close>

definition starts :: "nat \<Rightarrow> nat set \<Rightarrow> (nat \<Rightarrow> nat) \<Rightarrow> (nat \<Rightarrow> costate) \<Rightarrow> works \<Rightarrow> bool" where
  "starts n F m C0 W \<longleftrightarrow> wk_sched W = Scheduler \<and> wk_order W = [] \<and> \<not> wk_race W \<and> \<not> wk_ended W
     \<and> (\<forall>w < n. represents F (m w) C0 (wk_tls W w) (wk_mem W)) \<and> (\<forall>f. \<exists>st c. C0 f = Ready st c)"

lemma starts_inv:
  assumes "starts n F m C0 W"
  shows "works_inv n F m C0 (fs_out (wk_mem W)) W"
proof -
  have "\<not> pending f Scheduler" for f by (simp add: pending_def Scheduler_def)
  moreover have "C0 f \<noteq> Ended st" for f st
    using assms unfolding starts_def by (metis costate.distinct(1))
  ultimately have "fibers_at n F m C0 W" using assms by (simp add: starts_def fibers_at_def)
  moreover have "exclusive Scheduler" "order_ok n Scheduler []"
    by (simp_all add: exclusive_def order_ok_def Scheduler_def)
  ultimately show ?thesis using assms Scheduler_inv [of n] by (auto simp: works_inv_def starts_def)
qed

lemma works_inv_reachable:
  assumes "(polite_step n F)\<^sup>*\<^sup>* W W'" "0 < n" "works_inv n F m C0 out0 W"
  shows "works_inv n F m C0 out0 W'"
  using assms by (induction rule: rtranclp_induct) (blast intro: works_inv_step)+

interpretation works: transition_system "starts n F m C0" "\<lambda>W W'. 0 < n \<and> polite_step n F W W'"
    "\<lambda>W. \<exists>out0. works_inv n F m C0 out0 W" for n F m C0
  by unfold_locales (auto intro: starts_inv works_inv_step)

section \<open>The scheduler's part of a step\<close>

lemma work_step_sched:
  assumes "work_step n W W'"
  shows "sched_step n (wk_sched W) (wk_sched W') \<or> wk_sched W' = wk_sched W"
  using assms
proof cases
  case (worker w)
  from worker(4) show ?thesis
  proof cases
    case (resumed f T S)
    have "worker_step w (wk_sched W) (set_worker w AtLock (wk_sched W))" by (rule worker_step.returns [OF resumed(2)])
    then show ?thesis using resumed(1) worker(3) sched_step_worker by simp
  qed (use worker(3) in \<open>auto intro: sched_step_worker\<close>)
qed (auto intro: sched_step_main sched_step_client)

lemma polite_steps_sched:
  "(polite_step n F)\<^sup>*\<^sup>* W W' \<Longrightarrow> (sched_step n)\<^sup>*\<^sup>* (wk_sched W) (wk_sched W')"
proof (induction rule: rtranclp_induct)
  case (step V V')
  then have "work_step n V V'" by (simp add: polite_step_def)
  from work_step_sched [OF this] step.IH show ?case by (metis rtranclp.rtrancl_into_rtrancl)
qed simp

lemma running_comes_back:
  assumes "works_inv n F m C0 out0 W" "w < n" "sc_workers (wk_sched W) w = Running f"
  shows "\<exists>W'. polite_step n F W W' \<and> wk_order W' = wk_order W @ [f]"
proof -
  obtain C where C: "fibers_at n F m C W" using assms(1) by (auto simp: works_inv_def)
  obtain st c where f: "f \<in> F" "C f = Ready st c" using running_ready [OF assms(1,3) C] by blast
  have "represents F (m w) C (wk_tls W w) (wk_mem W)" using C assms(2) by (simp add: fibers_at_def)
  from resume_one [OF this f, of "[]"] obtain T S where
    "leads ([SwapIn f], wk_tls W w, wk_mem W) ([], T, S)" by auto
  from worker_work.resumed [OF assms(3) this]
  have "work_step n W (W\<lparr>wk_sched := set_worker w AtLock (wk_sched W), wk_mem := S,
       wk_tls := (wk_tls W)(w := T), wk_order := wk_order W @ [f]\<rparr>)"
    using assms by (intro work_step.worker) (auto simp: works_inv_def)
  then show ?thesis
    by (intro exI conjI) (auto simp: polite_step_def polite_calls_def set_worker_def)
qed

lemma stopped_order:
  assumes "works_inv n F m C0 out0 W" "sc_main (wk_sched W) = Stopped" "sc_fibers (wk_sched W) = []"
  shows "mset (wk_order W) = mset (sc_scheduled (wk_sched W))"
proof -
  have "\<forall>w < n. sc_workers (wk_sched W) w = Exited" "fibers_ok n (wk_sched W)"
      "order_ok n (wk_sched W) (wk_order W)"
    using assms(1,2) by (auto simp: works_inv_def sched_inv_def phase_ok_def)
  then show ?thesis using assms(3) by (simp add: fibers_ok_def order_ok_def)
qed

text \<open>
  C35 (Scheduler::run, schedule, stop; Fiber::swapIn, Yield, MainFunc). Several threads run
  fibers. When callers schedule a fiber only while nobody has it and it has not ended, then in
  every reachable state: no two threads are in one fiber and no thread has been ended by one or has
  left its stack; what was printed is what one thread would print that resumes the fibers one block at a time in some
  order; a worker in a fiber comes back from it; the threads make steps of the scheduler alone, so
  that its safety and the end of \<^verbatim>\<open>stop\<close> (\<open>SchedulerProps\<close>) hold of them; and when \<^verbatim>\<open>stop\<close> has
  returned with the queue empty, every fiber has executed as many of its blocks as it was
  scheduled times.
\<close>

theorem workers_run_coroutines:
  assumes "starts n F m C0 W0" "0 < n" "(polite_step n F)\<^sup>*\<^sup>* W0 W"
  shows "\<not> wk_race W \<and> \<not> wk_ended W
    \<and> (\<exists>ws C. resume_all C0 (wk_order W) = Some (ws, C) \<and> fs_out (wk_mem W) = fs_out (wk_mem W0) @ ws)
    \<and> (\<forall>w < n. \<forall>f. sc_workers (wk_sched W) w = Running f \<longrightarrow>
         (\<exists>W'. polite_step n F W W' \<and> wk_order W' = wk_order W @ [f]))
    \<and> (sched_step n)\<^sup>*\<^sup>* Scheduler (wk_sched W)
    \<and> (sc_main (wk_sched W) = Stopped \<and> sc_fibers (wk_sched W) = [] \<longrightarrow>
         mset (wk_order W) = mset (sc_scheduled (wk_sched W)))"
proof -
  have inv: "works_inv n F m C0 (fs_out (wk_mem W0)) W"
    by (rule works_inv_reachable [OF assms(3,2) starts_inv [OF assms(1)]])
  have "(sched_step n)\<^sup>*\<^sup>* Scheduler (wk_sched W)"
    using polite_steps_sched [OF assms(3)] assms(1) by (simp add: starts_def)
  with inv running_comes_back [OF inv] stopped_order [OF inv] show ?thesis
    unfolding works_inv_def by blast
qed

section \<open>Runs without resumptions, computed\<close>

text \<open>\<open>Q\<close> says which fibers a caller schedules where.\<close>

definition calm_move :: "(nat \<Rightarrow> sched \<Rightarrow> bool) \<Rightarrow> nat \<Rightarrow> move \<Rightarrow> sched \<Rightarrow> bool" where
  "calm_move Q n mv s =
     (case mv of
        WorkerMoves w \<Rightarrow>
          (case sc_workers s w of
             Running f \<Rightarrow> False
           | Got (Some f) \<Rightarrow> (\<forall>v \<in> set [0..<n]. sc_workers s v \<noteq> Running f)
           | _ \<Rightarrow> True)
      | Calls c f \<Rightarrow> Q f s
      | _ \<Rightarrow> True)"

fun calm_moves :: "(nat \<Rightarrow> sched \<Rightarrow> bool) \<Rightarrow> nat \<Rightarrow> move list \<Rightarrow> sched \<Rightarrow> sched option" where
  "calm_moves Q n [] s = Some s"
| "calm_moves Q n (mv # ms) s =
     (if calm_move Q n mv s then (case perform n mv s of None \<Rightarrow> None | Some t \<Rightarrow> calm_moves Q n ms t) else None)"

definition calm_step :: "(nat \<Rightarrow> sched \<Rightarrow> bool) \<Rightarrow> nat \<Rightarrow> fsys \<Rightarrow> works \<Rightarrow> works \<Rightarrow> bool" where
  "calm_step Q n M W W' \<longleftrightarrow> work_step n W W' \<and> wk_mem W = M \<and>
     (\<forall>c f. sc_clients (wk_sched W) c = Idle \<and> sc_clients (wk_sched W') c = SLock f \<longrightarrow> Q f (wk_sched W))"

lemma started_below: "sched_inv n s \<Longrightarrow> sc_workers s v \<noteq> NotStarted \<Longrightarrow> v < n"
proof -
  assume inv: "sched_inv n s" and "sc_workers s v \<noteq> NotStarted"
  then have "v < spawned n (sc_main s)" by (simp add: sched_inv_def phase_ok_def)
  moreover have "spawned n (sc_main s) \<le> n"
    using inv by (cases "sc_main s") (auto simp: sched_inv_def phase_ok_def)
  ultimately show "v < n" by simp
qed

lemma calm_perform:
  assumes "calm_move Q n mv (wk_sched W)" "perform n mv (wk_sched W) = Some t"
    and "sched_inv n (wk_sched W)" "\<not> wk_race W" "\<not> wk_ended W"
  shows "work_step n W (W\<lparr>wk_sched := t\<rparr>)"
proof (cases mv)
  case (WorkerMoves w)
  with assms(2) have w: "w < n" "worker_step w (wk_sched W) t"
    by (auto intro: worker_move_step split: if_splits)
  have "sc_workers (wk_sched W) v \<noteq> Running f" if "sc_workers (wk_sched W) w = Got (Some f)" for f v
    using assms(1) WorkerMoves that started_below [OF assms(3), of v] by (auto simp: calm_move_def)
  moreover have "\<forall>f. sc_workers (wk_sched W) w \<noteq> Running f"
    using assms(1) WorkerMoves by (auto simp: calm_move_def)
  ultimately show ?thesis using work_step.worker [OF assms(4,5) w(1) worker_work.plain [OF _ _ w(2)]] by blast
next
  case MainMoves
  then show ?thesis using assms by (auto intro: work_step.owner main_move_step)
next
  case (Calls c f)
  then show ?thesis using assms by (auto intro!: work_step.caller [where c = c] schedule_step.call split: if_splits)
next
  case (ClientMoves c)
  then show ?thesis using assms by (auto intro: work_step.caller client_move_step)
next
  case (Wakes c w)
  then show ?thesis using assms
    by (auto intro!: work_step.caller [where c = c] schedule_step.wake split: if_splits)
qed

lemma calm_perform_calls:
  assumes "calm_move Q n mv s" "perform n mv s = Some t" "sc_clients s c = Idle" "sc_clients t c = SLock f"
  shows "Q f s"
proof (cases mv)
  case (WorkerMoves w)
  with assms(2) have "own_step n s t" by (auto simp: own_step_def intro: worker_move_step split: if_splits)
  with own_step_frame assms(3,4) show ?thesis by fastforce
next
  case MainMoves
  with assms(2) have "own_step n s t" by (auto simp: own_step_def intro: main_move_step)
  with own_step_frame assms(3,4) show ?thesis by fastforce
next
  case (Calls d g)
  with assms show ?thesis by (auto simp: calm_move_def set_client_def split: if_splits)
next
  case (ClientMoves d)
  with assms show ?thesis
    by (auto simp: client_move_def set_client_def push_fiber_def split: if_splits cpc.splits)
next
  case (Wakes d w)
  with assms show ?thesis by (auto simp: set_client_def set_worker_def split: if_splits)
qed

lemma calm_moves_steps:
  assumes "calm_moves Q n ms (wk_sched W) = Some t" "sched_inv n (wk_sched W)" "\<not> wk_race W" "\<not> wk_ended W"
  shows "(calm_step Q n (wk_mem W))\<^sup>*\<^sup>* W (W\<lparr>wk_sched := t\<rparr>)"
  using assms
proof (induction ms arbitrary: W)
  case Nil
  then have "W\<lparr>wk_sched := t\<rparr> = W" by simp
  then show ?case by simp
next
  case (Cons mv ms)
  then obtain u where u: "calm_move Q n mv (wk_sched W)" "perform n mv (wk_sched W) = Some u"
      "calm_moves Q n ms u = Some t"
    by (auto split: if_splits option.splits)
  have "calm_step Q n (wk_mem W) W (W\<lparr>wk_sched := u\<rparr>)"
    using calm_perform [OF u(1,2) Cons.prems(2-4)] calm_perform_calls [OF u(1,2)] by (auto simp: calm_step_def)
  moreover have "sched_inv n u" by (rule sched_inv_step [OF Cons.prems(2) perform_step [OF u(2) Cons.prems(2)]])
  then have "(calm_step Q n (wk_mem W))\<^sup>*\<^sup>* (W\<lparr>wk_sched := u\<rparr>) (W\<lparr>wk_sched := t\<rparr>)"
    using Cons.IH [of "W\<lparr>wk_sched := u\<rparr>"] u(3) Cons.prems(3,4) by simp
  ultimately show ?case by (rule converse_rtranclp_into_rtranclp)
qed

lemma calm_polite:
  assumes "(calm_step Q n M)\<^sup>*\<^sup>* W W'"
    and "\<And>f s. Q f s \<Longrightarrow> f \<in> F \<and> \<not> pending f s \<and> fb_state (fs_fibers M ! f) \<noteq> TERMINATED
      \<and> fb_state (fs_fibers M ! f) \<noteq> EXCEPT"
  shows "(polite_step n F)\<^sup>*\<^sup>* W W'"
proof -
  have "calm_step Q n M V V' \<Longrightarrow> polite_step n F V V'" for V V'
    using assms(2) by (auto simp: calm_step_def polite_step_def polite_calls_def)
  then show ?thesis using assms(1) by (metis mono_rtranclp)
qed

section \<open>Callers that do not keep to the rules\<close>

text \<open>One fiber scheduled twice, and two workers that take it.\<close>

definition twice_moves :: "move list" where
  "twice_moves =
     [MainMoves, MainMoves, MainMoves, MainMoves,
      Calls 0 7, ClientMoves 0, ClientMoves 0, ClientMoves 0,
      Calls 0 7, ClientMoves 0, ClientMoves 0, ClientMoves 0,
      WorkerMoves 0, WorkerMoves 0, WorkerMoves 0, WorkerMoves 1, WorkerMoves 1]"

lemma twice_run:
  "\<exists>t. calm_moves (\<lambda>_ _. True) 2 twice_moves Scheduler = Some t
     \<and> sc_workers t 0 = Running 7 \<and> sc_workers t 1 = Got (Some 7)"
  by (simp add: twice_moves_def Scheduler_def calm_move_def main_move_def worker_move_def client_move_def
      sched_defs upt_rec numeral_2_eq_2)

lemma double_schedule_races:
  assumes "wk_sched W0 = Scheduler" "\<not> wk_race W0" "\<not> wk_ended W0"
  shows "\<exists>W. (work_step 2)\<^sup>*\<^sup>* W0 W \<and> wk_race W"
proof -
  obtain t where t: "calm_moves (\<lambda>_ _. True) 2 twice_moves (wk_sched W0) = Some t" "sc_workers t 0 = Running 7"
      "sc_workers t 1 = Got (Some 7)"
    using twice_run assms(1) by metis
  have inv: "sched_inv 2 (wk_sched W0)" using assms(1) Scheduler_inv by simp
  have "calm_step (\<lambda>_ _. True) 2 M V V' \<Longrightarrow> work_step 2 V V'" for M V V' by (simp add: calm_step_def)
  then have "(work_step 2)\<^sup>*\<^sup>* W0 (W0\<lparr>wk_sched := t\<rparr>)"
    using calm_moves_steps [OF t(1) inv assms(2,3)] by (metis mono_rtranclp)
  moreover have "work_step 2 (W0\<lparr>wk_sched := t\<rparr>) (W0\<lparr>wk_sched := t, wk_race := True\<rparr>)"
    using work_step.worker [OF _ _ _ worker_work.race [of "W0\<lparr>wk_sched := t\<rparr>" 1 7 0]] assms(2,3) t by simp
  ultimately show ?thesis
    by (intro exI [of _ "W0\<lparr>wk_sched := t, wk_race := True\<rparr>"]) (simp add: rtranclp.rtrancl_into_rtrancl)
qed

section \<open>Witness\<close>

text \<open>One worker, the two fibers of \<open>demo\<close>, and one of them in the hands of a worker.\<close>

definition demo_works :: works where
  "demo_works = \<lparr>wk_sched = Scheduler, wk_mem = demo_system, wk_tls = (\<lambda>_. demo_thread), wk_order = [],
     wk_race = False, wk_ended = False\<rparr>"

definition first_call :: "nat \<Rightarrow> sched \<Rightarrow> bool" where
  "first_call f s \<longleftrightarrow> f = 1 \<and> \<not> pending f s"

lemma demo_run:
  "\<exists>t. calm_moves first_call 1
       [MainMoves, MainMoves, MainMoves, Calls 0 1, ClientMoves 0, ClientMoves 0, ClientMoves 0,
        WorkerMoves 0, WorkerMoves 0, WorkerMoves 0] Scheduler = Some t \<and> sc_workers t 0 = Running 1"
  by (simp add: first_call_def pending_def Scheduler_def calm_move_def main_move_def worker_move_def
      client_move_def sched_defs upt_rec)

lemma demo_starts: "starts 1 {1, 2} (\<lambda>_. 0) (\<lambda>f. Ready INIT (demo ! (f - 1))) demo_works"
  by (simp add: starts_def demo_works_def represents_def suspended_def demo_system_def demo_thread_def demo_def
      Fiber_GetThis_def Fiber_main_def Fiber_def new_thread_def new_system_def roomy_def fits_def)

theorem workers_run_coroutines_witness:
  "\<exists>W. (polite_step 1 {1, 2})\<^sup>*\<^sup>* demo_works W \<and> \<not> wk_race W \<and> wk_order W = [1] \<and> fs_out (wk_mem W) = [''a'']"
proof -
  obtain ms t where run: "calm_moves first_call 1 ms Scheduler = Some t" and t: "sc_workers t 0 = Running 1"
    using demo_run by blast
  have reach: "(calm_step first_call 1 demo_system)\<^sup>*\<^sup>* demo_works (demo_works\<lparr>wk_sched := t\<rparr>)"
    using calm_moves_steps [of first_call 1 ms demo_works t] run Scheduler_inv by (simp add: demo_works_def)
  have init: "fb_state (fs_fibers demo_system ! 1) = INIT"
    by (simp add: demo_system_def Fiber_def Fiber_GetThis_def Fiber_main_def new_thread_def new_system_def)
  have V: "(polite_step 1 {1, 2})\<^sup>*\<^sup>* demo_works (demo_works\<lparr>wk_sched := t\<rparr>)"
    by (rule calm_polite [OF reach]) (use init in \<open>auto simp: first_call_def\<close>)
  have "\<exists>W. polite_step 1 {1, 2} (demo_works\<lparr>wk_sched := t\<rparr>) W \<and> wk_order W = [1]"
    using workers_run_coroutines [OF demo_starts _ V] t by (simp add: demo_works_def)
  then obtain W where W: "(polite_step 1 {1, 2})\<^sup>*\<^sup>* demo_works W" "wk_order W = [1]"
    using V by (meson rtranclp.rtrancl_into_rtrancl)
  have "fs_out (wk_mem demo_works) = []"
    by (simp add: demo_works_def demo_system_def Fiber_def Fiber_GetThis_def Fiber_main_def new_thread_def new_system_def)
  with workers_run_coroutines [OF demo_starts _ W(1)] W show ?thesis
    by (intro exI [of _ W]) (auto simp: demo_def)
qed

end
