(* ===== verification/CallerScheduler.thy ===== *)
theory CallerScheduler
  imports SchedulerRuns
begin

text \<open>
  \<^verbatim>\<open>class Scheduler\<close> made with \<^verbatim>\<open>user_caller\<close>, with its threads. One of the \<^verbatim>\<open>threadCount\<close> threads is
  the caller's own: \<^verbatim>\<open>start\<close> makes one thread less, and \<^verbatim>\<open>stop\<close>, when it has joined them, calls the
  root fiber, which executes \<^verbatim>\<open>run\<close> on the caller's thread. With \<open>n\<close> threads the root fiber has the
  place of worker \<open>n\<close>.
\<close>

section \<open>How many threads\<close>

text \<open>\<^verbatim>\<open>m_threadCount\<close>, as the constructor leaves it.\<close>

definition Scheduler_threadCount :: "i32 \<Rightarrow> bool \<Rightarrow> i32" where
  "Scheduler_threadCount threadCount user_caller = (if user_caller then threadCount - 1 else threadCount)"

text \<open>
  \<^verbatim>\<open>m_threads.resize(m_threadCount)\<close> takes the number as a \<^verbatim>\<open>size_t\<close>, and throws when it is more than
  \<^verbatim>\<open>max_size()\<close>, half of the address space in elements of sixteen bytes.
\<close>

definition max_size :: nat where
  "max_size = 2 ^ 63 div 16 - 1"

text \<open>
  \<^verbatim>\<open>start\<close> on a scheduler that has not been started: what it leaves in \<^verbatim>\<open>m_threads\<close>, every entry the
  name of its thread or a null pointer, and the exception that leaves it. Whether thread \<open>i\<close> can be
  made is up to \<^verbatim>\<open>pthread_create\<close>: \<open>create_fails\<close>.
\<close>

definition thread_name :: "string \<Rightarrow> nat \<Rightarrow> string" where
  "thread_name m_name i = m_name @ ''_'' @ show_nat i"

function start_loop ::
  "string \<Rightarrow> (nat \<Rightarrow> bool) \<Rightarrow> nat \<Rightarrow> nat \<Rightarrow> string option list \<Rightarrow> string option list \<times> err option" where
  "start_loop m_name create_fails i n m_threads =
     (if i < n then
        if create_fails i then (m_threads, Some (LogicError ''pthread_create fail''))
        else start_loop m_name create_fails (Suc i) n (m_threads[i := Some (thread_name m_name i)])
      else (m_threads, None))"
  by pat_completeness auto
termination by (relation "measure (\<lambda>(m_name, create_fails, i, n, m_threads). n - i)") auto

declare start_loop.simps [simp del]

definition Scheduler_start ::
  "string \<Rightarrow> (nat \<Rightarrow> bool) \<Rightarrow> i32 \<Rightarrow> string option list \<times> err option" where
  "Scheduler_start m_name create_fails m_threadCount =
     (let sz = unat (scast m_threadCount :: u64)
      in if max_size < sz then ([], Some (LogicError ''length_error''))
         else start_loop m_name create_fails 0 (nat (sint m_threadCount)) (replicate sz None))"

text \<open>The joins of \<^verbatim>\<open>stop\<close>: the threads joined, in order, unless one of the entries is a null pointer.\<close>

fun join_threads :: "string option list \<Rightarrow> string list res" where
  "join_threads [] = Inr []"
| "join_threads (None # thrs) = Inl NullDeref"
| "join_threads (Some t # thrs) = rbind (join_threads thrs) (\<lambda>ts. Inr (t # ts))"

lemma size_t_of_int:
  "uint (scast (x :: i32) :: u64) = (if sint x < 0 then sint x + 2 ^ 64 else sint x)"
proof -
  have "uint (scast x :: u64) = sint x mod 2 ^ 64"
    unfolding scast_eq uint_word_of_int by simp
  moreover have "sint x mod 2 ^ 64 = sint x + 2 ^ 64" if "sint x < 0"
    using that mod_add_self2 [of "sint x" "2 ^ 64"] mod_pos_pos_trivial [of "sint x + 2 ^ 64" "2 ^ 64"]
      sint_greater_eq [of x] by simp
  moreover have "sint x mod 2 ^ 64 = sint x" if "0 \<le> sint x"
    using that mod_pos_pos_trivial [of "sint x" "2 ^ 64"] sint_less [of x] by simp
  ultimately show ?thesis by simp
qed

lemma sint_threadCount:
  assumes "- (2 ^ 31) < sint threadCount"
  shows "sint (Scheduler_threadCount threadCount user_caller) = sint threadCount - (if user_caller then 1 else 0)"
proof -
  have "sint (threadCount - 1) = sint threadCount - 1"
    using assms sint_less [of threadCount] by (simp add: sint_word_ariths signed_take_bit_int_eq_self)
  then show ?thesis by (simp add: Scheduler_threadCount_def)
qed

text \<open>A negative number of threads is a size above the maximum, any other one is not.\<close>

lemma Scheduler_start_cases:
  "Scheduler_start m_name create_fails c =
     (if sint c < 0 then ([], Some (LogicError ''length_error''))
      else start_loop m_name create_fails 0 (nat (sint c)) (replicate (nat (sint c)) None))"
proof -
  have "unat (scast c :: u64) = nat (if sint c < 0 then sint c + 2 ^ 64 else sint c)"
    by (simp add: unat_eq_nat_uint size_t_of_int)
  then show ?thesis
    using sint_greater_eq [of c] sint_less [of c]
    by (simp add: Scheduler_start_def Let_def max_size_def zless_nat_eq_int_zless)
qed

text \<open>The loop up to the first thread that cannot be made, number \<open>m\<close>, or to the end.\<close>

definition made :: "string \<Rightarrow> nat \<Rightarrow> nat \<Rightarrow> string option list" where
  "made m_name i n = map (\<lambda>j. Some (thread_name m_name j)) [0..<i] @ replicate (n - i) None"

lemma made_next:
  assumes "i < n"
  shows "(made m_name i n)[i := Some (thread_name m_name i)] = made m_name (Suc i) n"
proof -
  have "n - i = Suc (n - Suc i)" using assms by simp
  then show ?thesis by (simp add: made_def list_update_append)
qed

lemma start_loop_made:
  assumes "i \<le> m" "m \<le> n" "\<forall>j < m. \<not> create_fails j" "m < n \<longrightarrow> create_fails m"
  shows "start_loop m_name create_fails i n (made m_name i n) =
    (made m_name m n, if m < n then Some (LogicError ''pthread_create fail'') else None)"
  using assms
proof (induction "m - i" arbitrary: i)
  case 0
  then have "i = m" by simp
  then show ?case using 0 by (subst start_loop.simps) simp
next
  case (Suc d)
  then have "i < m" by simp
  then have "start_loop m_name create_fails i n (made m_name i n)
      = start_loop m_name create_fails (Suc i) n (made m_name (Suc i) n)"
    using Suc.prems by (subst start_loop.simps) (simp add: made_next)
  also have "\<dots> = (made m_name m n, if m < n then Some (LogicError ''pthread_create fail'') else None)"
    using Suc.hyps(2) Suc.prems \<open>i < m\<close> by (intro Suc.hyps(1)) simp_all
  finally show ?case .
qed

lemma join_threads_made:
  "join_threads (map Some ts @ replicate k None) = (if k = 0 then Inr ts else Inl NullDeref)"
  by (induction ts) (cases k; simp)+

lemma made_names:
  "\<exists>names. made m_name i n = map Some names @ replicate (n - i) None \<and> length names = i \<and> distinct names"
  by (intro exI [of _ "map (thread_name m_name) [0..<i]"])
     (simp add: made_def comp_def distinct_map inj_on_def thread_name_def show_nat_inject)

section \<open>Steps\<close>

text \<open>The call of the root fiber at the end of \<^verbatim>\<open>stop\<close>, and \<^verbatim>\<open>run\<close> in it.\<close>

inductive root_step :: "nat \<Rightarrow> sched \<Rightarrow> sched \<Rightarrow> bool" for n :: nat where
  call: "sc_main s = Stopped \<Longrightarrow> sc_workers s n = NotStarted \<Longrightarrow>
     root_step n s (set_worker n AtLock s)"
| runs: "sc_main s = Stopped \<Longrightarrow> worker_step n s t \<Longrightarrow>
     root_step n s t"

definition caller_own_step :: "nat \<Rightarrow> sched \<Rightarrow> sched \<Rightarrow> bool" where
  "caller_own_step n s t \<longleftrightarrow> own_step n s t \<or> root_step n s t"

definition caller_step :: "nat \<Rightarrow> sched \<Rightarrow> sched \<Rightarrow> bool" where
  "caller_step n s t \<longleftrightarrow> sched_step n s t \<or> root_step n s t"

section \<open>One thread more\<close>

text \<open>
  Seen from the queue, the root fiber is one thread more, which is slow: it is made with the
  others, and does not come to its lock before the others are joined.
\<close>

fun thread_main :: "nat \<Rightarrow> mpc \<Rightarrow> mpc" where
  "thread_main n Stopped = Joining n"
| "thread_main n pc = pc"

fun thread_root :: "mpc \<Rightarrow> wpc \<Rightarrow> wpc" where
  "thread_root Made pc = pc"
| "thread_root (Spawning i) pc = pc"
| "thread_root (StartThrew i) pc = pc"
| "thread_root m NotStarted = AtLock"
| "thread_root m pc = pc"

definition as_threads :: "nat \<Rightarrow> sched \<Rightarrow> sched" where
  "as_threads n s = s\<lparr>sc_main := thread_main n (sc_main s),
     sc_workers := (sc_workers s)(n := thread_root (sc_main s) (sc_workers s n))\<rparr>"

definition root_waits :: "nat \<Rightarrow> sched \<Rightarrow> bool" where
  "root_waits n s \<longleftrightarrow> (sc_main s \<noteq> Stopped \<longrightarrow> sc_workers s n = NotStarted)"

lemma as_threads_sel [simp]:
  "sc_fibers (as_threads n s) = sc_fibers s" "sc_stopping (as_threads n s) = sc_stopping s"
  "sc_mutex (as_threads n s) = sc_mutex s" "sc_clients (as_threads n s) = sc_clients s"
  "sc_main (as_threads n s) = thread_main n (sc_main s)"
  "sc_scheduled (as_threads n s) = sc_scheduled s" "sc_swapped (as_threads n s) = sc_swapped s"
  "w \<noteq> n \<Longrightarrow> sc_workers (as_threads n s) w = sc_workers s w"
  "sc_workers (as_threads n s) n = thread_root (sc_main s) (sc_workers s n)"
  by (simp_all add: as_threads_def)

lemma thread_root_not_asleep:
  "thread_root m pc = Asleep \<longleftrightarrow> pc = Asleep" "thread_root m pc = Exited \<longleftrightarrow> pc = Exited"
  "thread_root m pc = Running f \<longleftrightarrow> pc = Running f" "thread_root m pc = Got fb \<longleftrightarrow> pc = Got fb"
  "thread_root m pc = Locked \<longleftrightarrow> pc = Locked" "thread_root m pc = Woken \<longleftrightarrow> pc = Woken"
  by (cases "(m, pc)" rule: thread_root.cases; simp; fail)+

lemma thread_root_awake [simp]: "pc \<noteq> NotStarted \<Longrightarrow> thread_root m pc = pc"
  by (cases "(m, pc)" rule: thread_root.cases) simp_all

text \<open>Operations of the threads and callers on the two views.\<close>

lemma as_threads_started:
  "sc_workers s w \<noteq> NotStarted \<Longrightarrow> sc_workers (as_threads n s) w = sc_workers s w"
  by (cases "w = n") simp_all

lemma as_threads_worker:
  assumes "sc_workers s w \<noteq> NotStarted" "pc \<noteq> NotStarted"
  shows "as_threads n (set_worker w pc s) = set_worker w pc (as_threads n s)"
  using assms by (cases "w = n") (simp_all add: as_threads_def set_worker_def fun_upd_twist)

lemma as_threads_client: "as_threads n (set_client c pc s) = set_client c pc (as_threads n s)"
  by (simp add: as_threads_def set_client_def)

lemma as_threads_upd:
  "as_threads n (s\<lparr>sc_mutex := a\<rparr>) = (as_threads n s)\<lparr>sc_mutex := a\<rparr>"
  "as_threads n (s\<lparr>sc_fibers := fs\<rparr>) = (as_threads n s)\<lparr>sc_fibers := fs\<rparr>"
  "as_threads n (s\<lparr>sc_swapped := ws\<rparr>) = (as_threads n s)\<lparr>sc_swapped := ws\<rparr>"
  by (simp_all add: as_threads_def)

lemma as_threads_push: "as_threads n (push_fiber c f s) = push_fiber c f (as_threads n s)"
  by (simp add: as_threads_def push_fiber_def set_client_def)

lemma as_threads_take:
  "sc_workers s w \<noteq> NotStarted \<Longrightarrow> as_threads n (take_fiber w s) = take_fiber w (as_threads n s)"
  by (simp add: take_fiber_def as_threads_worker as_threads_upd)

lemma as_threads_run:
  "sc_workers s w \<noteq> NotStarted \<Longrightarrow> as_threads n (run_fiber w fb s) = run_fiber w fb (as_threads n s)"
  by (cases fb) (simp_all add: run_fiber_def as_threads_worker as_threads_upd)

lemma worker_step_threads:
  assumes "worker_step w s t"
  shows "worker_step w (as_threads n s) (as_threads n t)"
proof -
  have started: "sc_workers s w \<noteq> NotStarted" using assms by cases auto
  note here = as_threads_started [OF started] as_threads_take [OF started] as_threads_run [OF started]
    as_threads_worker as_threads_upd wait_done_def
  from assms show ?thesis
    by cases (use started in \<open>auto simp: here intro: worker_step.intros\<close>)
qed

lemma schedule_step_threads:
  assumes "schedule_step c s t"
  shows "schedule_step c (as_threads n s) (as_threads n t)"
  using assms
proof cases
  case (lock f)
  have "as_threads n t = set_client c (SLocked f) ((as_threads n s)\<lparr>sc_mutex := Some (Client c)\<rparr>)"
    using lock by (simp add: as_threads_def set_client_def)
  then show ?thesis using lock by (auto intro: schedule_step.lock)
next
  case (wake w)
  have "as_threads n (set_worker w Woken s) = set_worker w Woken (as_threads n s)"
    using wake by (simp add: as_threads_worker)
  moreover have "sc_workers (as_threads n s) w = Asleep" using wake by (cases "w = n") simp_all
  ultimately show ?thesis using wake by (auto simp: as_threads_client intro!: schedule_step.wake)
next
  case nobody
  have "\<forall>w. sc_workers (as_threads n s) w \<noteq> Asleep"
  proof
    fix w
    show "sc_workers (as_threads n s) w \<noteq> Asleep"
      using nobody by (cases "w = n") (simp_all add: thread_root_not_asleep)
  qed
  then show ?thesis using nobody by (auto simp: as_threads_client intro!: schedule_step.nobody)
qed (auto simp: as_threads_client as_threads_push intro: schedule_step.intros)

lemma fun_upd_back: "i \<noteq> n \<Longrightarrow> f(i := a, n := f n) = f(i := a)"
  by (simp add: fun_eq_iff)

lemma as_threads_spawn:
  "i \<noteq> n \<Longrightarrow> sc_main s = Spawning j \<Longrightarrow> as_threads n ((set_worker i AtLock s)\<lparr>sc_main := Spawning k\<rparr>)
     = (set_worker i AtLock (as_threads n s))\<lparr>sc_main := Spawning k\<rparr>"
  by (simp add: as_threads_def set_worker_def fun_upd_back)

lemma as_threads_wake:
  assumes "sc_main s = NotifyAll"
  shows "as_threads n ((wake_all s)\<lparr>sc_main := SwapLock\<rparr>) = (wake_all (as_threads n s))\<lparr>sc_main := SwapLock\<rparr>"
  using assms by (cases "sc_workers s n") (simp_all add: as_threads_def wake_all_def fun_eq_iff)

text \<open>
  The owner: the last thread is made when \<^verbatim>\<open>start\<close> is through with the others, and the end of the
  joins is not yet the end.
\<close>

lemma main_step_threads:
  assumes "main_step n s t" "root_waits n s"
  shows "(main_step (Suc n))\<^sup>*\<^sup>* (as_threads n s) (as_threads n t)"
proof -
  have root: "sc_workers s n = NotStarted" using assms by cases (simp_all add: root_waits_def)
  from assms(1) show ?thesis
  proof cases
    case started
    let ?u = "(set_worker n AtLock (as_threads n s))\<lparr>sc_main := Spawning (Suc n)\<rparr>"
    have t: "as_threads n t = ?u\<lparr>sc_main := Started\<rparr>"
      using started root by (simp add: as_threads_def set_worker_def)
    have "main_step (Suc n) (as_threads n s) ?u" using started by (intro main_step.spawn) simp_all
    moreover have "main_step (Suc n) ?u (as_threads n t)" unfolding t by (rule main_step.started) simp
    ultimately show ?thesis by (meson converse_rtranclp_into_rtranclp r_into_rtranclp)
  next
    case joined
    then have "as_threads n t = as_threads n s" using root by (simp add: as_threads_def)
    then show ?thesis by simp
  next
    case (spawn i)
    then have "main_step (Suc n) (as_threads n s) (as_threads n t)"
      by (auto simp: as_threads_spawn intro: main_step.spawn)
    then show ?thesis ..
  next
    case notify
    then have "main_step (Suc n) (as_threads n s) (as_threads n t)"
      by (auto simp: as_threads_wake intro: main_step.notify)
    then show ?thesis ..
  next
    case (join i)
    then have "as_threads n t = (as_threads n s)\<lparr>sc_main := Joining (Suc i)\<rparr>"
      by (simp add: as_threads_def root)
    moreover have "main_step (Suc n) (as_threads n s) ((as_threads n s)\<lparr>sc_main := Joining (Suc i)\<rparr>)"
      by (rule main_step.join) (use join in simp_all)
    ultimately show ?thesis by auto
  next
    case (spawn_fails i)
    then have "as_threads n t = (as_threads n s)\<lparr>sc_main := StartThrew i\<rparr>"
      by (simp add: as_threads_def root)
    moreover have "main_step (Suc n) (as_threads n s) ((as_threads n s)\<lparr>sc_main := StartThrew i\<rparr>)"
      by (rule main_step.spawn_fails) (use spawn_fails in simp_all)
    ultimately show ?thesis by auto
  next
    case start
    then have "as_threads n t = (as_threads n s)\<lparr>sc_stopping := False, sc_main := Spawning 0\<rparr>" by (simp add: as_threads_def root)
    moreover have "main_step (Suc n) (as_threads n s) ((as_threads n s)\<lparr>sc_stopping := False, sc_main := Spawning 0\<rparr>)"
      by (rule main_step.start) (use start in simp_all)
    ultimately show ?thesis by auto
  next
    case stop
    then have "as_threads n t = (as_threads n s)\<lparr>sc_main := StopLock\<rparr>" by (simp add: as_threads_def root)
    moreover have "main_step (Suc n) (as_threads n s) ((as_threads n s)\<lparr>sc_main := StopLock\<rparr>)"
      by (rule main_step.stop) (use stop in simp_all)
    ultimately show ?thesis by auto
  next
    case stop_lock
    then have "as_threads n t = (as_threads n s)\<lparr>sc_main := StopLocked, sc_mutex := Some Main\<rparr>" by (simp add: as_threads_def root)
    moreover have "main_step (Suc n) (as_threads n s) ((as_threads n s)\<lparr>sc_main := StopLocked, sc_mutex := Some Main\<rparr>)"
      by (rule main_step.stop_lock) (use stop_lock in simp_all)
    ultimately show ?thesis by auto
  next
    case stop_flag
    then have "as_threads n t = (as_threads n s)\<lparr>sc_main := NotifyAll, sc_stopping := True, sc_mutex := None\<rparr>" by (simp add: as_threads_def root)
    moreover have "main_step (Suc n) (as_threads n s) ((as_threads n s)\<lparr>sc_main := NotifyAll, sc_stopping := True, sc_mutex := None\<rparr>)"
      by (rule main_step.stop_flag) (use stop_flag in simp_all)
    ultimately show ?thesis by auto
  next
    case swap_lock
    then have "as_threads n t = (as_threads n s)\<lparr>sc_main := SwapLocked, sc_mutex := Some Main\<rparr>" by (simp add: as_threads_def root)
    moreover have "main_step (Suc n) (as_threads n s) ((as_threads n s)\<lparr>sc_main := SwapLocked, sc_mutex := Some Main\<rparr>)"
      by (rule main_step.swap_lock) (use swap_lock in simp_all)
    ultimately show ?thesis by auto
  next
    case swap
    then have "as_threads n t = (as_threads n s)\<lparr>sc_main := Joining 0, sc_mutex := None\<rparr>" by (simp add: as_threads_def root)
    moreover have "main_step (Suc n) (as_threads n s) ((as_threads n s)\<lparr>sc_main := Joining 0, sc_mutex := None\<rparr>)"
      by (rule main_step.swap) (use swap in simp_all)
    ultimately show ?thesis by auto
  qed
qed

section \<open>The refinement\<close>

text \<open>The call of the root fiber changes nothing that its queue could see.\<close>

lemma root_call_threads:
  "sc_main s = Stopped \<Longrightarrow> sc_workers s n = NotStarted \<Longrightarrow> as_threads n (set_worker n AtLock s) = as_threads n s"
  by (simp add: as_threads_def set_worker_def)

lemma root_waits_step:
  assumes "caller_step n s t" "root_waits n s"
  shows "root_waits n t"
proof -
  have waits: "sc_main s \<noteq> Stopped \<Longrightarrow> sc_workers s n = NotStarted" using assms(2) by (simp add: root_waits_def)
  from assms(1) consider (worker) w where "w < n" "worker_step w s t" | (main) "main_step n s t"
    | (client) c where "schedule_step c s t" | (root) "root_step n s t"
    by (auto simp: caller_step_def sched_step_def own_step_def)
  then show ?thesis
  proof cases
    case worker
    note w = worker(1)
    from worker(2) show ?thesis
      by cases (use w waits in \<open>auto simp: root_waits_def set_worker_def take_fiber_def run_fiber_def split: option.splits\<close>)
  next
    case main
    then show ?thesis
      by cases (use waits in \<open>auto simp: root_waits_def set_worker_def wake_all_def\<close>)
  next
    case client
    then show ?thesis
      by (cases "sc_main s = Stopped"; cases)
         (use waits in \<open>auto simp: root_waits_def set_client_def set_worker_def push_fiber_def\<close>)
  next
    case root
    then have "sc_main t = Stopped"
    proof cases
      case runs
      from runs(2) show ?thesis
        by cases (use runs(1) in \<open>auto simp: set_worker_def take_fiber_def run_fiber_def split: option.splits\<close>)
    qed (simp add: set_worker_def)
    then show ?thesis by (simp add: root_waits_def)
  qed
qed

lemma caller_own_step_threads:
  assumes "caller_own_step n s t" "root_waits n s"
  shows "(own_step (Suc n))\<^sup>*\<^sup>* (as_threads n s) (as_threads n t)"
proof -
  from assms(1) consider (worker) w where "w < Suc n" "worker_step w s t" | (main) "main_step n s t"
    | (call) "as_threads n t = as_threads n s"
    unfolding caller_own_step_def own_step_def root_step.simps
    by (metis lessI less_Suc_eq root_call_threads)
  then show ?thesis
  proof cases
    case worker
    then show ?thesis unfolding own_step_def by (blast intro: worker_step_threads r_into_rtranclp)
  next
    case main
    have "main_step (Suc n) u v \<Longrightarrow> own_step (Suc n) u v" for u v by (simp add: own_step_def)
    with main_step_threads [OF main assms(2)] show ?thesis by (metis mono_rtranclp)
  next
    case call
    then show ?thesis by simp
  qed
qed

lemma caller_step_iff: "caller_step n s t \<longleftrightarrow> caller_own_step n s t \<or> (\<exists>c. schedule_step c s t)"
  by (auto simp: caller_step_def caller_own_step_def sched_step_def)

lemma caller_step_threads:
  assumes "caller_step n s t" "root_waits n s"
  shows "(sched_step (Suc n))\<^sup>*\<^sup>* (as_threads n s) (as_threads n t)"
proof -
  have mono: "own_step (Suc n) u v \<Longrightarrow> sched_step (Suc n) u v" for u v by (simp add: sched_step_def)
  from assms(1) consider (own) "caller_own_step n s t" | (client) c where "schedule_step c s t"
    by (auto simp: caller_step_iff)
  then show ?thesis
  proof cases
    case own
    from caller_own_step_threads [OF this assms(2)] mono show ?thesis by (metis mono_rtranclp)
  next
    case client
    then show ?thesis by (blast intro: sched_step_client schedule_step_threads r_into_rtranclp)
  qed
qed

interpretation caller: refined_system "\<lambda>s. s = Scheduler" "sched_step (Suc n)" "sched_inv (Suc n)"
    "\<lambda>s. s = Scheduler" "caller_step n" "as_threads n" "root_waits n" for n
proof
  fix s
  assume "s = Scheduler"
  then show "as_threads n s = Scheduler \<and> root_waits n s"
    by (simp add: as_threads_def root_waits_def Scheduler_def fun_eq_iff)
next
  fix s t
  assume "root_waits n s" "sched_inv (Suc n) (as_threads n s)" "caller_step n s t"
  then show "root_waits n t \<and> (sched_step (Suc n))\<^sup>*\<^sup>* (as_threads n s) (as_threads n t)"
    by (blast intro: root_waits_step caller_step_threads)
qed

section \<open>Before the root fiber is called\<close>

text \<open>Until then this is a scheduler with \<open>n\<close> threads and without \<^verbatim>\<open>user_caller\<close>.\<close>

lemma stays_started:
  assumes "caller_step n s t" "sc_workers s w \<noteq> NotStarted"
  shows "sc_workers t w \<noteq> NotStarted"
proof -
  from assms(1) consider (worker) v where "worker_step v s t" | (main) "main_step n s t"
    | (client) c where "schedule_step c s t" | (call) "t = set_worker n AtLock s"
    by (auto simp: caller_step_def sched_step_def own_step_def root_step.simps)
  then show ?thesis
  proof cases
    case worker
    then show ?thesis
      by cases (use assms(2) in \<open>auto simp: set_worker_def take_fiber_def run_fiber_def split: option.splits\<close>)
  next
    case main
    then show ?thesis by cases (use assms(2) in \<open>auto simp: set_worker_def wake_all_def\<close>)
  next
    case client
    then show ?thesis by cases (use assms(2) in \<open>auto simp: set_client_def set_worker_def push_fiber_def\<close>)
  next
    case call
    then show ?thesis using assms(2) by (simp add: set_worker_def)
  qed
qed

lemma stays_stopped:
  assumes "caller_step n s t" "sc_main s = Stopped"
  shows "sc_main t = Stopped"
proof -
  from assms(1) consider (worker) v where "worker_step v s t" | (main) "main_step n s t"
    | (client) c where "schedule_step c s t" | (call) "t = set_worker n AtLock s"
    by (auto simp: caller_step_def sched_step_def own_step_def root_step.simps)
  then show ?thesis
  proof cases
    case worker
    then show ?thesis
      by cases (use assms(2) in \<open>auto simp: set_worker_def take_fiber_def run_fiber_def split: option.splits\<close>)
  next
    case main
    then show ?thesis by cases (use assms(2) in simp_all)
  next
    case client
    then show ?thesis by cases (use assms(2) in \<open>auto simp: set_client_def set_worker_def push_fiber_def\<close>)
  next
    case call
    then show ?thesis using assms(2) by (simp add: set_worker_def)
  qed
qed

lemma not_started_sched_step:
  assumes "caller_step n s t" "sc_workers t n = NotStarted"
  shows "sched_step n s t"
proof -
  have "\<not> root_step n s t"
  proof
    assume root: "root_step n s t"
    then have "sc_workers s n \<noteq> NotStarted \<or> sc_workers t n \<noteq> NotStarted"
    proof cases
      case runs
      then show ?thesis by (auto elim: worker_step.cases)
    qed (simp add: set_worker_def)
    then show False using stays_started [OF assms(1)] assms(2) by blast
  qed
  with assms(1) show ?thesis by (simp add: caller_step_def)
qed

lemma plain_before_root:
  assumes "(caller_step n)\<^sup>*\<^sup>* Scheduler s" "sc_workers s n = NotStarted"
  shows "(sched_step n)\<^sup>*\<^sup>* Scheduler s"
  using assms
proof (induction rule: rtranclp_induct)
  case (step t u)
  then have "sc_workers t n = NotStarted" using stays_started by blast
  with step not_started_sched_step show ?case by (meson rtranclp.rtrancl_into_rtrancl)
qed simp

section \<open>The end of \<open>stop\<close>\<close>

lemma main_steps_to_go:
  assumes "(main_step n)\<^sup>*\<^sup>* s t" "stop_called (sc_main s)"
  shows "stop_called (sc_main t) \<and> (s = t \<or> to_go n t < to_go n s)"
  using assms
proof (induction rule: rtranclp_induct)
  case (step t u)
  then have "stop_called (sc_main u)" using own_step_frame [of n t u] by (simp add: own_step_def)
  moreover have "to_go n u < to_go n t" using step main_to_go by blast
  ultimately show ?case using step by auto
qed simp

definition root_to_go :: "nat \<Rightarrow> sched \<Rightarrow> nat" where
  "root_to_go n s = (if sc_main s \<noteq> Stopped then 2 else if sc_workers s n = NotStarted then 1 else 0)"

lemma thread_main_called [simp]: "stop_called (thread_main n m) \<longleftrightarrow> stop_called m"
  by (cases m) simp_all

lemma main_step_moves:
  "main_step n s t \<Longrightarrow> as_threads n t = as_threads n s \<Longrightarrow> sc_main t = Stopped \<and> sc_main s \<noteq> Stopped"
  by (erule main_step.cases) (auto dest!: arg_cong [where f = sc_main])

lemma caller_own_step_to_go:
  assumes "caller_own_step n s t" "root_waits n s" "sched_inv (Suc n) (as_threads n s)" "stop_called (sc_main s)"
  shows "to_go (Suc n) (as_threads n t) + root_to_go n t < to_go (Suc n) (as_threads n s) + root_to_go n s"
proof -
  have stays: "root_to_go n t \<le> root_to_go n s"
    using stays_started [of n s t n] stays_stopped [of n s t] assms(1)
    by (auto simp: root_to_go_def caller_step_iff)
  from assms(1) consider (worker) w where "w < Suc n" "worker_step w s t" | (main) "main_step n s t"
    | (call) "sc_main s = Stopped" "sc_workers s n = NotStarted" "t = set_worker n AtLock s"
    unfolding caller_own_step_def own_step_def root_step.simps by (metis lessI less_Suc_eq)
  then show ?thesis
  proof cases
    case worker
    have "to_go (Suc n) (as_threads n t) < to_go (Suc n) (as_threads n s)"
      by (rule worker_to_go [OF assms(3) _ worker(1) worker_step_threads [OF worker(2)]]) (simp add: assms(4))
    with stays show ?thesis by simp
  next
    case main
    have "as_threads n s = as_threads n t \<or> to_go (Suc n) (as_threads n t) < to_go (Suc n) (as_threads n s)"
      using main_steps_to_go [OF main_step_threads [OF main assms(2)]] assms(4) by simp
    moreover have "root_to_go n t < root_to_go n s" if "as_threads n s = as_threads n t"
      using main_step_moves [OF main that [symmetric]] by (simp add: root_to_go_def)
    ultimately show ?thesis using stays by fastforce
  next
    case call
    then show ?thesis by (simp add: root_call_threads root_to_go_def) (simp add: set_worker_def)
  qed
qed

lemma caller_own_steps_keep:
  assumes "(caller_own_step n)\<^sup>*\<^sup>* s t" "root_waits n s"
  shows "(own_step (Suc n))\<^sup>*\<^sup>* (as_threads n s) (as_threads n t) \<and> root_waits n t"
  using assms
proof (induction rule: rtranclp_induct)
  case (step t u)
  then have "root_waits n u" using root_waits_step caller_step_iff by blast
  with step caller_own_step_threads [of n t u] show ?case by (blast intro: rtranclp_trans)
qed simp

lemma caller_own_steps_bounded:
  assumes "((caller_own_step n) ^^ k) s t" "root_waits n s" "sched_inv (Suc n) (as_threads n s)"
    "stop_called (sc_main s)" "calm_clients s" "covered (Suc n) (as_threads n s)"
  shows "k + to_go (Suc n) (as_threads n t) + root_to_go n t \<le> to_go (Suc n) (as_threads n s) + root_to_go n s"
  using assms
proof (induction k arbitrary: t)
  case (Suc k)
  then obtain u where u: "((caller_own_step n) ^^ k) s u" "caller_own_step n u t" by auto
  note own = caller_own_steps_keep [OF relpowp_imp_rtranclp [OF u(1)] Suc.prems(2)]
  have "sched_inv (Suc n) (as_threads n u)" "stop_called (sc_main u)"
    using own_steps_keep [OF conjunct1 [OF own] Suc.prems(3)] Suc.prems(4-6) by (simp_all add: calm_clients_def)
  with Suc.IH [OF u(1)] Suc.prems own caller_own_step_to_go [OF u(2)] show ?case by fastforce
qed simp

text \<open>When nothing can move any more, the root fiber has left \<^verbatim>\<open>run\<close>.\<close>

lemma caller_stuck:
  assumes "root_waits n s" "sched_inv (Suc n) (as_threads n s)" "calm_clients s" "stop_called (sc_main s)"
    and "sc_workers s n = NotStarted \<Longrightarrow> sched_inv n s" "\<nexists>t. caller_own_step n s t"
  shows "sc_main s = Stopped \<and> (\<forall>w < Suc n. sc_workers s w = Exited)"
proof -
  have no_own: "\<nexists>t. own_step n s t" and no_call: "\<nexists>t. root_step n s t"
    using assms(6) by (auto simp: caller_own_step_def)
  have started: "sc_workers s n \<noteq> NotStarted"
  proof
    assume "sc_workers s n = NotStarted"
    with stuck_stopped [OF assms(5) assms(3,4) no_own] no_call root_step.call [of s n] show False by blast
  qed
  then have stopped: "sc_main s = Stopped" using assms(1) by (auto simp: root_waits_def)
  have exited: "sc_workers s w = Exited" if "w < n" for w
    using assms(2) stopped that by (auto simp: sched_inv_def phase_ok_def dest: spec [of _ w])
  have no_root: "\<not> worker_step n s t" for t
    using no_call root_step.runs [OF stopped] by blast
  have unlocked: "sc_workers s n \<noteq> Locked" using no_root by (blast intro: worker_step.sleep worker_step.take)
  have "sc_mutex s = None"
  proof (rule ccontr)
    assume "sc_mutex s \<noteq> None"
    then obtain a where "sc_mutex (as_threads n s) = Some a" by auto
    then have "holds (as_threads n s) a" using assms(2) by (simp add: sched_inv_def lock_ok_def)
    moreover have "sc_workers s w \<noteq> Locked" if "w \<noteq> n" for w
    proof (cases "w < n")
      case False
      have "sc_workers (as_threads n s) w \<noteq> NotStarted \<longleftrightarrow> w < Suc n"
        using assms(2) stopped by (simp only: sched_inv_def phase_ok_def as_threads_sel thread_main.simps spawned.simps)
      with that False show ?thesis by simp
    qed (simp add: exited)
    ultimately show False using assms(3) stopped unlocked
      by (cases a) (auto simp: calm_clients_def thread_root_not_asleep as_threads_def split: if_splits)
  qed
  then have "sc_workers s n = Exited"
    using no_root started unlocked by (cases "sc_workers s n") (auto intro: worker_step.intros)
  with stopped exited show ?thesis by (auto simp: less_Suc_eq)
qed

section \<open>Properties\<close>

text \<open>
  C36 (Scheduler::stop, run with user_caller). A scheduler that uses its caller loses no fiber. When
  \<^verbatim>\<open>stop\<close> is called on it, started with any number \<open>n\<close> of threads of its own, none of them
  included, while no call of \<^verbatim>\<open>schedule\<close> is under way and none is made after: however the threads are
  interleaved, not more than \<open>4 * q + 6 * n + 13\<close> steps are made, with \<open>q\<close> fibers waiting, and where
  nobody can make another step, the threads have left \<^verbatim>\<open>run\<close>, then the root fiber has been called
  and has left it as well, and the fibers swapped in are exactly those ever scheduled.
\<close>

theorem caller_drains_queue:
  assumes "(caller_step n)\<^sup>*\<^sup>* Scheduler s" "sc_main s = StopLocked" "\<forall>c. sc_clients s c = Idle"
  shows "(\<forall>k t. ((caller_own_step n) ^^ k) s t \<longrightarrow> k \<le> 4 * length (sc_fibers s) + 6 * n + 13)
    \<and> (\<forall>t. (caller_own_step n)\<^sup>*\<^sup>* s t \<and> (\<nexists>u. caller_own_step n t u) \<longrightarrow>
         sc_main t = Stopped \<and> (\<forall>w \<le> n. sc_workers t w = Exited) \<and> sc_fibers t = []
         \<and> mset (sc_swapped t) = mset (sc_scheduled s))"
proof -
  have inv: "root_waits n s" "sched_inv (Suc n) (as_threads n s)"
    using caller.abs_reachable [OF assms(1) refl] by simp_all
  have called: "stop_called (sc_main s)" and calm: "calm_clients s"
    using assms(2,3) by (simp_all add: calm_clients_def)
  have "sc_workers s n = NotStarted" using inv(1) assms(2) by (simp add: root_waits_def)
  then have "looks_again (sc_workers (as_threads n s) n)" using assms(2) by simp
  then have cov: "covered (Suc n) (as_threads n s)" unfolding covered_def by blast
  have "k \<le> 4 * length (sc_fibers s) + 6 * n + 13" if "((caller_own_step n) ^^ k) s t" for k t
    using caller_own_steps_bounded [OF that inv called calm cov] to_go_le [of "Suc n" "as_threads n s"] assms(2)
    by (simp add: root_to_go_def)
  moreover have "sc_main t = Stopped \<and> (\<forall>w \<le> n. sc_workers t w = Exited) \<and> sc_fibers t = []
      \<and> mset (sc_swapped t) = mset (sc_scheduled s)"
    if run: "(caller_own_step n)\<^sup>*\<^sup>* s t" and stuck: "\<nexists>u. caller_own_step n t u" for t
  proof -
    have own: "(own_step (Suc n))\<^sup>*\<^sup>* (as_threads n s) (as_threads n t)" and waits: "root_waits n t"
      using caller_own_steps_keep [OF run inv(1)] by simp_all
    have t: "sched_inv (Suc n) (as_threads n t)" "calm_clients t" "stop_called (sc_main t)"
        "covered (Suc n) (as_threads n t)" "sc_scheduled t = sc_scheduled s"
      using own_steps_keep [OF own inv(2)] called calm cov by (simp_all add: calm_clients_def)
    have "(caller_step n)\<^sup>*\<^sup>* s t" using run by (rule rtranclp_mono [THEN predicate2D, rotated]) (auto simp: caller_step_iff)
    with assms(1) have "(caller_step n)\<^sup>*\<^sup>* Scheduler t" by (rule rtranclp_trans)
    then have "sc_workers t n = NotStarted \<Longrightarrow> sched_inv n t"
      using plain_before_root sched.reachable_inv by blast
    from caller_stuck [OF waits t(1-3) this stuck]
    have over: "sc_main t = Stopped" "\<forall>w < Suc n. sc_workers t w = Exited" by simp_all
    then have out: "sc_workers (as_threads n t) w = Exited" if "w < Suc n" for w
      using that as_threads_started [of t w n] by simp
    have "sc_fibers t = []" using t(4) out by (auto simp: covered_def)
    moreover have "(\<Sum>w < Suc n. in_hand (sc_workers (as_threads n t) w)) = {#}"
      using out by (intro sum.neutral) auto
    then have "mset (sc_scheduled t) = mset (sc_fibers t) + mset (sc_swapped t)"
      using t(1) by (simp add: sched_inv_def fibers_ok_def del: sum.lessThan_Suc)
    ultimately show ?thesis using over t(5) by (auto simp: less_Suc_eq_le)
  qed
  ultimately show ?thesis by blast
qed

text \<open>
  C38 (Scheduler::Scheduler, start, stop; Thread::Thread). \<^verbatim>\<open>start\<close> is to make as many threads as the
  constructor was told, less the caller's own. When that number is negative, as for no threads
  and the caller, \<^verbatim>\<open>resize\<close> throws. When every thread can be made, all of them are, they have
  different names, and the joins of \<^verbatim>\<open>stop\<close> reach them all. When thread \<open>i\<close> is the first that
  \<^verbatim>\<open>pthread_create\<close> refuses, the exception of its constructor leaves \<^verbatim>\<open>start\<close>: the threads before it
  run, the other entries stay null, and the joins of \<^verbatim>\<open>stop\<close> use a null pointer.
\<close>

theorem start_makes_threads:
  assumes "- (2 ^ 31) < sint threadCount"
  shows "let t = sint threadCount - (if user_caller then 1 else 0);
      (threads, thrown) =
        Scheduler_start m_name create_fails (Scheduler_threadCount threadCount user_caller)
    in (t < 0 \<longrightarrow> threads = [] \<and> thrown = Some (LogicError ''length_error''))
     \<and> (0 \<le> t \<and> (\<forall>i < nat t. \<not> create_fails i) \<longrightarrow> thrown = None
         \<and> (\<exists>names. threads = map Some names \<and> length names = nat t \<and> distinct names
              \<and> join_threads threads = Inr names))
     \<and> (\<forall>i < nat t. create_fails i \<and> (\<forall>j < i. \<not> create_fails j) \<longrightarrow>
           thrown = Some (LogicError ''pthread_create fail'')
         \<and> (\<exists>names. threads = map Some names @ replicate (nat t - i) None
              \<and> length names = i \<and> distinct names)
         \<and> join_threads threads = Inl NullDeref)"
proof -
  let ?t = "sint threadCount - (if user_caller then 1 else 0)"
  let ?r = "Scheduler_start m_name create_fails (Scheduler_threadCount threadCount user_caller)"
  have r: "?r = (if ?t < 0 then ([], Some (LogicError ''length_error''))
      else start_loop m_name create_fails 0 (nat ?t) (made m_name 0 (nat ?t)))"
    using sint_threadCount [OF assms] by (simp add: Scheduler_start_cases made_def)
  have all: "snd ?r = None \<and> (\<exists>names. fst ?r = map Some names \<and> length names = nat ?t \<and> distinct names
      \<and> join_threads (fst ?r) = Inr names)" if "0 \<le> ?t" "\<forall>i < nat ?t. \<not> create_fails i"
  proof -
    have "?r = (made m_name (nat ?t) (nat ?t), None)"
      using that by (subst r, subst start_loop_made [where m = "nat ?t"]) simp_all
    then show ?thesis using made_names [of m_name "nat ?t" "nat ?t"] join_threads_made [of _ 0] by auto
  qed
  have some: "snd ?r = Some (LogicError ''pthread_create fail'')
      \<and> (\<exists>names. fst ?r = map Some names @ replicate (nat ?t - i) None \<and> length names = i \<and> distinct names)
      \<and> join_threads (fst ?r) = Inl NullDeref"
    if "i < nat ?t" "create_fails i" "\<forall>j < i. \<not> create_fails j" for i
  proof -
    have "?r = (made m_name i (nat ?t), Some (LogicError ''pthread_create fail''))"
      using that by (subst r, subst start_loop_made [where m = i]) simp_all
    then show ?thesis
      using made_names [of m_name i "nat ?t"] join_threads_made [of _ "nat ?t - i"] that(1) by auto
  qed
  have neg: "?t < 0 \<Longrightarrow> ?r = ([], Some (LogicError ''length_error''))" using r by simp
  show ?thesis using neg all some by (auto simp: Let_def split_beta)
qed

theorem start_makes_threads_witness:
  "snd (Scheduler_start ''s'' (\<lambda>_. False) (Scheduler_threadCount 0 True)) = Some (LogicError ''length_error'')
   \<and> (\<exists>names. fst (Scheduler_start ''s'' (\<lambda>_. False) (Scheduler_threadCount 3 True)) = map Some names
        \<and> length names = 2)
   \<and> join_threads (fst (Scheduler_start ''s'' (\<lambda>i. i = 1) (Scheduler_threadCount 3 True))) = Inl NullDeref"
proof -
  have neg: "snd (Scheduler_start ''s'' (\<lambda>_. False) (Scheduler_threadCount 0 True)) = Some (LogicError ''length_error'')"
    using start_makes_threads [of 0 True "''s''" "\<lambda>_. False"] by (auto simp: Let_def split_beta)
  have all: "\<exists>names. fst (Scheduler_start ''s'' (\<lambda>_. False) (Scheduler_threadCount 3 True)) = map Some names
        \<and> length names = 2"
    using start_makes_threads [of 3 True "''s''" "\<lambda>_. False"] by (auto simp: Let_def split_beta)
  have some: "join_threads (fst (Scheduler_start ''s'' (\<lambda>i. i = 1) (Scheduler_threadCount 3 True))) = Inl NullDeref"
    using start_makes_threads [of 3 True "''s''" "\<lambda>i. i = 1"] by (auto simp: Let_def split_beta)
  from neg all some show ?thesis by blast
qed

section \<open>Witness\<close>

text \<open>A thread, a fiber, and \<^verbatim>\<open>stop\<close>.\<close>

lemma caller_run:
  "\<exists>s. perform_all 1 [MainMoves, MainMoves, MainMoves, Calls 0 7, ClientMoves 0, ClientMoves 0, ClientMoves 0,
       MainMoves, MainMoves] Scheduler = Some s
     \<and> sc_main s = StopLocked \<and> (\<forall>c. sc_clients s c = Idle) \<and> sc_fibers s = [7] \<and> sc_scheduled s = [7]"
  by (simp add: Scheduler_def main_move_def worker_move_def client_move_def sched_defs upt_rec)

theorem caller_drains_queue_witness:
  "\<exists>s. (caller_step 1)\<^sup>*\<^sup>* Scheduler s \<and> sc_fibers s = [7]
     \<and> \<not> (\<exists>t. ((caller_own_step 1) ^^ 24) s t)"
proof -
  obtain ms s where run: "perform_all 1 ms Scheduler = Some s" and s: "sc_main s = StopLocked"
      "\<forall>c. sc_clients s c = Idle" "sc_fibers s = [7]"
    using caller_run by blast
  have "(sched_step 1)\<^sup>*\<^sup>* Scheduler s" by (rule perform_all_reachable [OF run]) simp
  then have reach: "(caller_step 1)\<^sup>*\<^sup>* Scheduler s"
    by (rule rtranclp_mono [THEN predicate2D, rotated]) (auto simp: caller_step_def)
  have "\<not> ((caller_own_step 1) ^^ 24) s t" for t
    using conjunct1 [OF caller_drains_queue [OF reach s(1,2)], THEN spec [of _ 24], THEN spec [of _ t]] s(3) by auto
  with reach s(3) show ?thesis by blast
qed

end
