(* ===== verification/CallerFibers.thy ===== *)
theory CallerFibers
  imports WorkersProps CallerScheduler
begin

text \<open>
  A scheduler made with \<^verbatim>\<open>user_caller\<close>, its threads and the fibers together. The thread-local
  variables of the caller are those of number \<open>n\<close>, after those of the \<open>n\<close> threads. When the
  threads are joined, \<^verbatim>\<open>stop\<close> switches to the root fiber, which takes the fibers that are left.
\<close>

section \<open>Steps\<close>

text \<open>
  The switch takes three statements: \<^verbatim>\<open>call\<close>, the start of \<^verbatim>\<open>MainFunc\<close> and the start of \<^verbatim>\<open>run\<close>. \<open>k\<close> is
  what the caller of \<^verbatim>\<open>stop\<close> had still to do; it is left in the context of its main fiber.
\<close>

inductive caller_work :: "stmt list \<Rightarrow> nat \<Rightarrow> works \<Rightarrow> works \<Rightarrow> bool" for k :: "stmt list" and n :: nat where
  threads: "work_step n W W' \<Longrightarrow> caller_work k n W W'"
| called: "\<not> wk_race W \<Longrightarrow> \<not> wk_ended W \<Longrightarrow> sc_main (wk_sched W) = Stopped \<Longrightarrow>
     sc_workers (wk_sched W) n = NotStarted \<Longrightarrow> fs_root (wk_mem W) = Some r \<Longrightarrow>
     steps 3 (Call r # k, wk_tls W n, wk_mem W) = Inr (RunLoop # [CbEnd r, SwapOut r, ExitThread], T, S) \<Longrightarrow>
     caller_work k n W (W\<lparr>wk_sched := set_worker n AtLock (wk_sched W), wk_mem := S, wk_tls := (wk_tls W)(n := T)\<rparr>)"
| root: "\<not> wk_race W \<Longrightarrow> \<not> wk_ended W \<Longrightarrow> sc_main (wk_sched W) = Stopped \<Longrightarrow> worker_work n W W' \<Longrightarrow>
     caller_work k n W W'"

definition polite_caller :: "stmt list \<Rightarrow> nat \<Rightarrow> nat set \<Rightarrow> works \<Rightarrow> works \<Rightarrow> bool" where
  "polite_caller k n F W W' \<longleftrightarrow> caller_work k n W W' \<and> polite_calls F W W'"

section \<open>One thread more\<close>

definition as_works :: "nat \<Rightarrow> works \<Rightarrow> works" where
  "as_works n W = W\<lparr>wk_sched := as_threads n (wk_sched W)\<rparr>"

lemma as_works_sel [simp]:
  "wk_sched (as_works n W) = as_threads n (wk_sched W)" "wk_mem (as_works n W) = wk_mem W"
  "wk_tls (as_works n W) = wk_tls W" "wk_order (as_works n W) = wk_order W"
  "wk_race (as_works n W) = wk_race W" "wk_ended (as_works n W) = wk_ended W"
  by (simp_all add: as_works_def)

lemma as_works_sched [simp]: "as_works n (W\<lparr>wk_sched := t\<rparr>) = (as_works n W)\<lparr>wk_sched := as_threads n t\<rparr>"
  by (simp add: as_works_def)

lemma as_works_upd [simp]:
  "as_works n (W\<lparr>wk_race := b\<rparr>) = (as_works n W)\<lparr>wk_race := b\<rparr>"
  "as_works n (W\<lparr>wk_ended := b\<rparr>) = (as_works n W)\<lparr>wk_ended := b\<rparr>"
  "as_works n (W\<lparr>wk_mem := S\<rparr>) = (as_works n W)\<lparr>wk_mem := S\<rparr>"
  "as_works n (W\<lparr>wk_tls := T\<rparr>) = (as_works n W)\<lparr>wk_tls := T\<rparr>"
  "as_works n (W\<lparr>wk_order := fs\<rparr>) = (as_works n W)\<lparr>wk_order := fs\<rparr>"
  by (simp_all add: as_works_def)

lemma running_threads [simp]:
  "sc_workers (as_threads n s) v = Running f \<longleftrightarrow> sc_workers s v = Running f"
  "sc_workers (as_threads n s) v = Got fb \<longleftrightarrow> sc_workers s v = Got fb"
  by (cases "v = n"; simp add: thread_root_not_asleep)+

lemma has_threads [simp]: "has (sc_workers (as_threads n s) v) f \<longleftrightarrow> has (sc_workers s v) f"
  by (simp add: has_def)

lemma pending_threads [simp]: "pending f (as_threads n s) \<longleftrightarrow> pending f s"
  by (simp add: pending_def)

lemma polite_calls_threads: "polite_calls F W W' \<Longrightarrow> polite_calls F (as_works n W) (as_works n W')"
  by (simp add: polite_calls_def)

lemma worker_work_threads:
  assumes "worker_work w W W'"
  shows "worker_work w (as_works n W) (as_works n W')"
  using assms
proof cases
  case (plain t)
  have "worker_work w (as_works n W) ((as_works n W)\<lparr>wk_sched := as_threads n t\<rparr>)"
    by (rule worker_work.plain) (use plain worker_step_threads in simp_all)
  with plain(1) show ?thesis by simp
next
  case (race f v)
  have "worker_work w (as_works n W) ((as_works n W)\<lparr>wk_race := True\<rparr>)"
    by (rule worker_work.race [where f = f and v = v]) (use race in simp_all)
  with race(1) show ?thesis by simp
next
  case (resumed f T S)
  have "worker_work w (as_works n W) ((as_works n W)\<lparr>wk_sched := set_worker w AtLock (as_threads n (wk_sched W)),
      wk_mem := S, wk_tls := (wk_tls W)(w := T), wk_order := wk_order W @ [f]\<rparr>)"
    using worker_work.resumed [of "as_works n W" w f T S] resumed by simp
  with resumed(1,2) show ?thesis by (simp add: as_threads_worker)
next
  case (ended f e)
  have "worker_work w (as_works n W) ((as_works n W)\<lparr>wk_ended := True\<rparr>)"
    by (rule worker_work.ended [where f = f]) (use ended in simp_all)
  with ended(1) show ?thesis by simp
qed

section \<open>The root fiber until it is called\<close>

definition root_fresh :: "nat \<Rightarrow> nat set \<Rightarrow> (nat \<Rightarrow> nat) \<Rightarrow> works \<Rightarrow> bool" where
  "root_fresh n F m W \<longleftrightarrow>
     (sc_workers (wk_sched W) n = NotStarted \<longrightarrow>
        fs_root (wk_mem W) = Some (m n)
        \<and> fb_ctx (fs_fibers (wk_mem W) ! m n) = Some [MainFunc]
        \<and> fb_cb (fs_fibers (wk_mem W) ! m n) = Some [RunStart True]
        \<and> (\<exists>M. t_thread_main_fiber (wk_tls W n) = Some M \<and> M < length (fs_fibers (wk_mem W)) \<and> M \<notin> F \<and> M \<noteq> m n))
     \<and> (\<forall>w < n. m w \<noteq> m n)"

definition caller_inv :: "nat \<Rightarrow> nat set \<Rightarrow> (nat \<Rightarrow> nat) \<Rightarrow> (nat \<Rightarrow> costate) \<Rightarrow> string list \<Rightarrow> works \<Rightarrow> bool" where
  "caller_inv n F m C0 out0 W \<longleftrightarrow>
     works_inv (Suc n) F m C0 out0 (as_works n W) \<and> root_waits n (wk_sched W) \<and> root_fresh n F m W"

text \<open>A resumption on another thread does not touch the root fiber.\<close>

lemma resumed_root_fresh:
  assumes inv: "works_inv (Suc n) F m C0 out0 (as_works n W)" and w: "w < n"
    and run: "sc_workers (wk_sched W) w = Running f"
    and leads: "leads ([SwapIn f], wk_tls W w, wk_mem W) ([], T, S)" and fresh: "root_fresh n F m W"
  shows "root_fresh n F m (W\<lparr>wk_sched := set_worker w AtLock (wk_sched W), wk_mem := S,
       wk_tls := (wk_tls W)(w := T), wk_order := wk_order W @ [f]\<rparr>)"
proof -
  obtain C where C: "fibers_at (Suc n) F m C (as_works n W)" using inv by (auto simp: works_inv_def)
  have "sc_workers (wk_sched (as_works n W)) w = Running f" using run by simp
  from running_ready [OF inv this C] obtain st c where f: "f \<in> F" "C f = Ready st c" by blast
  have rep: "represents F (m w) C (wk_tls W w) (wk_mem W)" "represents F (m n) C (wk_tls W n) (wk_mem W)"
    using C w by (simp_all add: fibers_at_def)
  obtain T' S' where one: "leads ([SwapIn f], wk_tls W w, wk_mem W) ([], T', S')"
      "same_sched (wk_mem W) S'" "\<forall>h. h \<noteq> m w \<and> h \<noteq> f \<longrightarrow> fs_fibers S' ! h = fs_fibers (wk_mem W) ! h"
    using resume_one_frame [OF rep(1) f, of "[]"] by blast
  have "S' = S" using leads_end_unique [OF leads one(1)] by simp
  moreover have "m n \<noteq> m w" "m n \<noteq> f" using fresh w f rep(2) by (auto simp: root_fresh_def represents_def)
  ultimately show ?thesis using fresh one w
    by (auto simp: root_fresh_def same_sched_def set_worker_def)
qed

lemma root_fresh_sched:
  assumes "root_fresh n F m W" "sc_workers t n = NotStarted \<Longrightarrow> sc_workers (wk_sched W) n = NotStarted"
  shows "root_fresh n F m (W\<lparr>wk_sched := t\<rparr>)"
  using assms by (auto simp: root_fresh_def)

lemma worker_work_root_fresh:
  assumes "works_inv (Suc n) F m C0 out0 (as_works n W)" "w < n" "worker_work w W W'" "root_fresh n F m W"
  shows "root_fresh n F m W'"
  using assms(3)
proof cases
  case (plain t)
  have "caller_step n (wk_sched W) t"
    unfolding caller_step_def using plain(4) assms(2) sched_step_worker by blast
  then show ?thesis unfolding plain(1)
    using stays_started by (intro root_fresh_sched [OF assms(4)]) blast
next
  case (resumed f T S)
  show ?thesis unfolding resumed(1)
    by (rule resumed_root_fresh [OF assms(1,2) resumed(2,3) assms(4)])
qed (use assms(4) in \<open>simp_all add: root_fresh_def\<close>)

section \<open>The call of the root fiber\<close>

text \<open>What three statements of the caller do.\<close>

definition after_call :: "nat \<Rightarrow> nat \<Rightarrow> stmt list \<Rightarrow> fsys \<Rightarrow> fsys" where
  "after_call M r k S =
     snd (Fiber [Yield] (1024 * 128) (upd_fiber M (\<lambda>fb. fb\<lparr>fb_ctx := Some k\<rparr>) S))"

lemma call_steps:
  assumes "t_thread_main_fiber T = Some M" "M \<noteq> r" "r < length (fs_fibers S)" "t_scheduler_fiber T = Some r"
    and "fb_ctx (fs_fibers S ! r) = Some [MainFunc]" "fb_cb (fs_fibers S ! r) = Some [RunStart True]"
    and "fits S (fs_fibers S ! r)"
  shows "steps 3 (Call r # k, T, S)
    = Inr (RunLoop # [CbEnd r, SwapOut r, ExitThread], T\<lparr>t_fiber := Some r\<rparr>, after_call M r k S)"
proof -
  let ?T1 = "T\<lparr>t_fiber := Some r\<rparr>" and ?S1 = "upd_fiber M (\<lambda>fb. fb\<lparr>fb_ctx := Some k\<rparr>) S"
  let ?K = "[CbEnd r, SwapOut r, ExitThread]"
  have "step (Call r # k, T, S) = Inr ([MainFunc], ?T1, ?S1)"
    using assms by (simp add: Fiber_call_def swapcontext_def Let_def)
  moreover have "step ([MainFunc], ?T1, ?S1) = Inr ([RunStart True] @ ?K, ?T1, ?S1)"
    using assms by (intro MainFunc_starts) simp_all
  moreover have "step (RunStart True # ?K, ?T1, ?S1) = Inr (RunLoop # ?K, ?T1, after_call M r k S)"
    using assms by (simp add: Scheduler_run_start_def Fiber_def after_call_def)
  ultimately show ?thesis by (simp add: numeral_3_eq_3 del: step.simps)
qed

lemma represents_after_call:
  assumes "represents F m C T S" "M < length (fs_fibers S)" "M \<notin> F" "t_scheduler_fiber T' = t_scheduler_fiber T"
  shows "represents F m C T' (after_call M r k S)"
proof -
  have need: "fits (after_call M r k S) = fits S" "roomy (after_call M r k S) = roomy S"
    by (simp_all add: after_call_def fun_eq_iff)
  moreover have "fs_fibers (after_call M r k S) ! f = fs_fibers S ! f" if "f \<in> F" for f
  proof -
    have "M \<noteq> f" "f < length (fs_fibers S)" using that assms by (auto simp: represents_def)
    then show ?thesis by (simp add: after_call_def Fiber_def nth_append)
  qed
  moreover have "fits S (fs_fibers (after_call M r k S) ! m)"
  proof -
    have "m < length (fs_fibers S)" "fits S (fs_fibers S ! m)" using assms(1) by (auto simp: represents_def)
    then show ?thesis by (cases "m = M") (simp_all add: after_call_def Fiber_def nth_append)
  qed
  moreover have "length (fs_fibers S) \<le> length (fs_fibers (after_call M r k S))"
    by (simp add: after_call_def Fiber_def)
  ultimately show ?thesis using assms by (fastforce simp: represents_def)
qed

lemma called_inv:
  assumes inv: "caller_inv n F m C0 out0 W" and stopped: "sc_main (wk_sched W) = Stopped"
    and new: "sc_workers (wk_sched W) n = NotStarted" and r: "fs_root (wk_mem W) = Some r"
    and steps: "steps 3 (Call r # k, wk_tls W n, wk_mem W) = Inr (RunLoop # [CbEnd r, SwapOut r, ExitThread], T, S)"
  shows "caller_inv n F m C0 out0
    (W\<lparr>wk_sched := set_worker n AtLock (wk_sched W), wk_mem := S, wk_tls := (wk_tls W)(n := T)\<rparr>)"
proof -
  let ?s = "wk_sched W"
  let ?V = "W\<lparr>wk_sched := set_worker n AtLock ?s, wk_mem := S, wk_tls := (wk_tls W)(n := T)\<rparr>"
  have works: "works_inv (Suc n) F m C0 out0 (as_works n W)" and fresh: "root_fresh n F m W"
    using inv by (simp_all add: caller_inv_def)
  obtain C ws where C: "resume_all C0 (wk_order W) = Some (ws, C)" "fs_out (wk_mem W) = out0 @ ws"
      "fibers_at (Suc n) F m C (as_works n W)"
    using works by (auto simp: works_inv_def)
  have rep: "represents F (m w) C (wk_tls W w) (wk_mem W)" if "w < Suc n" for w
    using C(3) that by (simp add: fibers_at_def)
  obtain M where M: "r = m n" "t_thread_main_fiber (wk_tls W n) = Some M" "M < length (fs_fibers (wk_mem W))"
      "M \<notin> F" "M \<noteq> m n" "fb_ctx (fs_fibers (wk_mem W) ! m n) = Some [MainFunc]"
      "fb_cb (fs_fibers (wk_mem W) ! m n) = Some [RunStart True]"
    using fresh new r unfolding root_fresh_def by auto
  have "m n < length (fs_fibers (wk_mem W))" "t_scheduler_fiber (wk_tls W n) = Some (m n)"
      "fits (wk_mem W) (fs_fibers (wk_mem W) ! m n)"
    using rep [of n] by (simp_all add: represents_def)
  then have TS: "T = (wk_tls W n)\<lparr>t_fiber := Some (m n)\<rparr>" "S = after_call M (m n) k (wk_mem W)"
    using steps call_steps [OF M(2,5) _ _ M(6,7), of k] M(1) by simp_all
  have "represents F (m w) C (((wk_tls W)(n := T)) w) S" if "w < Suc n" for w
    unfolding TS by (rule represents_after_call [OF rep [OF that] M(3,4)]) simp
  then have "fibers_at (Suc n) F m C (as_works n ?V)"
    using C(3) root_call_threads [OF stopped new] by (simp add: fibers_at_def del: fun_upd_apply)
  moreover have "fs_out S = fs_out (wk_mem W)" by (simp add: TS after_call_def Fiber_def)
  ultimately have "works_inv (Suc n) F m C0 out0 (as_works n ?V)"
    using works C(1,2) root_call_threads [OF stopped new] by (auto simp: works_inv_def)
  moreover have "root_waits n (wk_sched ?V)" using stopped by (simp add: root_waits_def set_worker_def)
  moreover have "root_fresh n F m ?V" using fresh by (simp add: root_fresh_def set_worker_def)
  ultimately show ?thesis unfolding caller_inv_def by blast
qed

section \<open>Every step keeps the invariant\<close>

lemma main_steps_inv:
  assumes "(main_step n)\<^sup>*\<^sup>* s t" "works_inv n F m C0 out0 (V\<lparr>wk_sched := s\<rparr>)"
  shows "works_inv n F m C0 out0 (V\<lparr>wk_sched := t\<rparr>)"
  using assms
proof (induction rule: rtranclp_induct)
  case (step t u)
  have "works_inv n F m C0 out0 ((V\<lparr>wk_sched := t\<rparr>)\<lparr>wk_sched := u\<rparr>)"
    by (rule main_inv) (use step in simp_all)
  then show ?case by simp
qed

lemma work_step_caller_step:
  assumes "work_step n W W'"
  shows "caller_step n (wk_sched W) (wk_sched W') \<or> wk_sched W' = wk_sched W"
  using work_step_sched [OF assms] by (auto simp: caller_step_def)

lemma threads_inv:
  assumes inv: "caller_inv n F m C0 out0 W" and step: "work_step n W W'" and polite: "polite_calls F W W'"
  shows "caller_inv n F m C0 out0 W'"
proof -
  have works: "works_inv (Suc n) F m C0 out0 (as_works n W)" and waits: "root_waits n (wk_sched W)"
      and fresh: "root_fresh n F m W"
    using inv by (simp_all add: caller_inv_def)
  have waits': "root_waits n (wk_sched W')"
    using work_step_caller_step [OF step] root_waits_step waits by metis
  from step show ?thesis
  proof cases
    case (owner t)
    have "works_inv (Suc n) F m C0 out0 ((as_works n W)\<lparr>wk_sched := as_threads n t\<rparr>)"
      by (rule main_steps_inv [OF main_step_threads [OF owner(4) waits]]) (use works in \<open>simp add: as_works_def\<close>)
    moreover have "root_fresh n F m W'" unfolding owner(1)
      by (rule root_fresh_sched [OF fresh])
         (use stays_started [of n "wk_sched W" t n] sched_step_main [OF owner(4)] in \<open>auto simp: caller_step_def\<close>)
    ultimately show ?thesis using waits' owner(1) by (simp add: caller_inv_def)
  next
    case (caller c t)
    have "polite_calls F (as_works n W) (as_works n W')" by (rule polite_calls_threads [OF polite])
    then have "works_inv (Suc n) F m C0 out0 ((as_works n W)\<lparr>wk_sched := as_threads n t\<rparr>)"
      by (intro calls_inv [OF works]) (use caller schedule_step_threads in simp_all)
    moreover have "root_fresh n F m W'" unfolding caller(1)
      by (rule root_fresh_sched [OF fresh])
         (use stays_started [of n "wk_sched W" t n] sched_step_client [OF caller(4)] in \<open>auto simp: caller_step_def\<close>)
    ultimately show ?thesis using waits' caller(1) by (simp add: caller_inv_def)
  next
    case (worker w)
    have "works_inv (Suc n) F m C0 out0 (as_works n W')"
      by (rule worker_work_inv [OF works _ worker_work_threads [OF worker(4)]]) (use worker(3) in simp)
    moreover have "root_fresh n F m W'" by (rule worker_work_root_fresh [OF works worker(3,4) fresh])
    ultimately show ?thesis using waits' by (simp add: caller_inv_def)
  qed
qed

lemma root_inv:
  assumes inv: "caller_inv n F m C0 out0 W" and stopped: "sc_main (wk_sched W) = Stopped"
    and work: "worker_work n W W'"
  shows "caller_inv n F m C0 out0 W'"
proof -
  have works: "works_inv (Suc n) F m C0 out0 (as_works n W)" and fresh: "root_fresh n F m W"
    using inv by (simp_all add: caller_inv_def)
  have root: "worker_step n (wk_sched W) t \<Longrightarrow> caller_step n (wk_sched W) t" for t
    unfolding caller_step_def using root_step.runs [OF stopped] by blast
  have "works_inv (Suc n) F m C0 out0 (as_works n W')"
    by (rule worker_work_inv [OF works _ worker_work_threads [OF work]]) simp
  moreover have "sc_main (wk_sched W') = Stopped \<and> sc_workers (wk_sched W') n \<noteq> NotStarted"
    using work
  proof cases
    case (plain t)
    then have "sc_workers (wk_sched W) n \<noteq> NotStarted" by (auto elim: worker_step.cases)
    with plain root [OF plain(4)] stays_stopped stays_started stopped show ?thesis by simp
  qed (use stopped in \<open>auto simp: set_worker_def\<close>)
  ultimately show ?thesis using fresh by (simp add: caller_inv_def root_waits_def root_fresh_def)
qed

lemma caller_inv_step:
  assumes "caller_inv n F m C0 out0 W" "polite_caller k n F W W'"
  shows "caller_inv n F m C0 out0 W'"
proof -
  have "caller_work k n W W'" "polite_calls F W W'" using assms(2) by (simp_all add: polite_caller_def)
  from this(1) show ?thesis
  proof cases
    case threads
    then show ?thesis by (rule threads_inv [OF assms(1) _ \<open>polite_calls F W W'\<close>])
  next
    case (called r T S)
    show ?thesis unfolding called(1) by (rule called_inv [OF assms(1) called(4-7)])
  next
    case root
    then show ?thesis by (intro root_inv [OF assms(1)])
  qed
qed

section \<open>From the start\<close>

text \<open>The caller has a main fiber and a root fiber, which is the one of number \<open>n\<close>.\<close>

definition caller_starts :: "nat \<Rightarrow> nat set \<Rightarrow> (nat \<Rightarrow> nat) \<Rightarrow> (nat \<Rightarrow> costate) \<Rightarrow> works \<Rightarrow> bool" where
  "caller_starts n F m C0 W \<longleftrightarrow> starts (Suc n) F m C0 W \<and> root_fresh n F m W"

lemma caller_starts_inv:
  assumes "caller_starts n F m C0 W"
  shows "caller_inv n F m C0 (fs_out (wk_mem W)) W"
proof -
  have "wk_sched W = Scheduler" using assms by (simp add: caller_starts_def starts_def)
  moreover have "as_threads n Scheduler = Scheduler" using caller.abs_init [OF refl] by blast
  ultimately have "wk_sched W = Scheduler" "as_works n W = W" by (cases W; simp add: as_works_def)+
  then show ?thesis
    using assms starts_inv [of "Suc n" F m C0 W]
    by (auto simp: caller_inv_def caller_starts_def root_waits_def Scheduler_def)
qed

interpretation caller_works: transition_system "caller_starts n F m C0" "polite_caller k n F"
    "\<lambda>W. \<exists>out0. caller_inv n F m C0 out0 W" for n F m C0 k
  by unfold_locales (auto intro: caller_starts_inv caller_inv_step)

lemma caller_inv_reachable:
  "(polite_caller k n F)\<^sup>*\<^sup>* W W' \<Longrightarrow> caller_inv n F m C0 out0 W \<Longrightarrow> caller_inv n F m C0 out0 W'"
  by (induction rule: rtranclp_induct) (auto intro: caller_inv_step)

section \<open>What the root fiber can do\<close>

lemma root_can_be_called:
  assumes "caller_inv n F m C0 out0 W" "sc_main (wk_sched W) = Stopped" "sc_workers (wk_sched W) n = NotStarted"
  shows "\<exists>W'. polite_caller k n F W W' \<and> wk_sched W' = set_worker n AtLock (wk_sched W) \<and> wk_order W' = wk_order W"
proof -
  let ?S = "wk_mem W" and ?T = "wk_tls W n"
  have works: "works_inv (Suc n) F m C0 out0 (as_works n W)" and fresh: "root_fresh n F m W"
    using assms(1) by (simp_all add: caller_inv_def)
  obtain C where "fibers_at (Suc n) F m C (as_works n W)" using works by (auto simp: works_inv_def)
  then have rep: "represents F (m n) C ?T ?S" by (simp add: fibers_at_def)
  obtain M where M: "fs_root ?S = Some (m n)" "t_thread_main_fiber ?T = Some M" "M \<noteq> m n"
      "fb_ctx (fs_fibers ?S ! m n) = Some [MainFunc]" "fb_cb (fs_fibers ?S ! m n) = Some [RunStart True]"
    using fresh assms(3) by (auto simp: root_fresh_def)
  have "steps 3 (Call (m n) # k, ?T, ?S) = Inr (RunLoop # [CbEnd (m n), SwapOut (m n), ExitThread],
      ?T\<lparr>t_fiber := Some (m n)\<rparr>, after_call M (m n) k ?S)"
    by (rule call_steps) (use M rep in \<open>simp_all add: represents_def\<close>)
  from caller_work.called [OF _ _ assms(2,3) M(1) this] works
  have "\<exists>W'. caller_work k n W W' \<and> wk_sched W' = set_worker n AtLock (wk_sched W) \<and> wk_order W' = wk_order W"
    by (fastforce simp: works_inv_def)
  then show ?thesis by (auto simp: polite_caller_def polite_calls_def set_worker_def)
qed

lemma caller_comes_back:
  assumes "caller_inv n F m C0 out0 W" "w \<le> n" "sc_workers (wk_sched W) w = Running f"
  shows "\<exists>W'. polite_caller k n F W W' \<and> wk_order W' = wk_order W @ [f]"
proof -
  have works: "works_inv (Suc n) F m C0 out0 (as_works n W)" and waits: "root_waits n (wk_sched W)"
    using assms(1) by (simp_all add: caller_inv_def)
  obtain C where C: "fibers_at (Suc n) F m C (as_works n W)" using works by (auto simp: works_inv_def)
  have "sc_workers (wk_sched (as_works n W)) w = Running f" using assms(3) by simp
  from running_ready [OF works this C] obtain st c where f: "f \<in> F" "C f = Ready st c" by blast
  have "represents F (m w) C (wk_tls W w) (wk_mem W)" using C assms(2) by (simp add: fibers_at_def)
  from resume_one [OF this f, of "[]"] obtain T S where
    "leads ([SwapIn f], wk_tls W w, wk_mem W) ([], T, S)" by auto
  note work = worker_work.resumed [OF assms(3) this]
  have alive: "\<not> wk_race W" "\<not> wk_ended W" using works by (simp_all add: works_inv_def)
  have "caller_work k n W (W\<lparr>wk_sched := set_worker w AtLock (wk_sched W), wk_mem := S,
       wk_tls := (wk_tls W)(w := T), wk_order := wk_order W @ [f]\<rparr>)"
  proof (cases "w = n")
    case True
    then have "sc_main (wk_sched W) = Stopped" using waits assms(3) by (auto simp: root_waits_def)
    with True work alive show ?thesis by (blast intro: caller_work.root)
  next
    case False
    with assms(2) work alive show ?thesis by (intro caller_work.threads work_step.worker) simp_all
  qed
  then show ?thesis
    by (intro exI conjI) (auto simp: polite_caller_def polite_calls_def set_worker_def)
qed

lemma polite_caller_sched:
  "(polite_caller k n F)\<^sup>*\<^sup>* W W' \<Longrightarrow> (caller_step n)\<^sup>*\<^sup>* (wk_sched W) (wk_sched W')"
proof (induction rule: rtranclp_induct)
  case (step V V')
  then have "caller_work k n V V'" by (simp add: polite_caller_def)
  then have "caller_step n (wk_sched V) (wk_sched V') \<or> wk_sched V' = wk_sched V"
  proof cases
    case (called r T S)
    then show ?thesis by (auto simp: caller_step_def intro: root_step.call)
  next
    case root
    from root(4) show ?thesis
    proof cases
      case (resumed f T S)
      have "worker_step n (wk_sched V) (set_worker n AtLock (wk_sched V))" by (rule worker_step.returns [OF resumed(2)])
      then show ?thesis using resumed(1) root(3) by (auto simp: caller_step_def intro: root_step.runs)
    qed (use root(3) in \<open>auto simp: caller_step_def intro: root_step.runs\<close>)
  qed (rule work_step_caller_step)
  with step.IH show ?case by (metis rtranclp.rtrancl_into_rtrancl)
qed simp

text \<open>When the root fiber has left \<^verbatim>\<open>run\<close>, its thread is at its end.\<close>

lemma root_ends_thread:
  assumes "caller_inv n F m C0 out0 W"
  shows "fails ([CbEnd (m n), SwapOut (m n), ExitThread], wk_tls W n, wk_mem W) ThreadExit"
proof -
  obtain C where "fibers_at (Suc n) F m C (as_works n W)" using assms by (auto simp: caller_inv_def works_inv_def)
  then have "t_scheduler_fiber (wk_tls W n) = Some (m n)" "m n < length (fs_fibers (wk_mem W))"
      "fits (wk_mem W) (fs_fibers (wk_mem W) ! m n)"
    by (auto simp: fibers_at_def represents_def)
  from root_fiber_ends [OF this] obtain T S where
    "leads ([CbEnd (m n), SwapOut (m n), ExitThread], wk_tls W n, wk_mem W) ([ExitThread], T, S)" by blast
  then show ?thesis by (rule leads_fails) simp
qed

lemma root_exited_order:
  assumes "caller_inv n F m C0 out0 W" "sc_workers (wk_sched W) n = Exited" "sc_fibers (wk_sched W) = []"
  shows "mset (wk_order W) = mset (sc_scheduled (wk_sched W))"
proof -
  let ?t = "as_threads n (wk_sched W)"
  have inv: "sched_inv (Suc n) ?t" "order_ok (Suc n) ?t (wk_order W)" and waits: "root_waits n (wk_sched W)"
    using assms(1) by (simp_all add: caller_inv_def works_inv_def)
  have "sc_main (wk_sched W) = Stopped" using waits assms(2) by (auto simp: root_waits_def)
  then have "\<forall>w < n. sc_workers ?t w = Exited" using inv(1) by (simp add: sched_inv_def phase_ok_def)
  moreover have "sc_workers ?t n = Exited" using assms(2) by (simp add: thread_root_not_asleep)
  ultimately have "\<forall>w < Suc n. sc_workers ?t w = Exited" by (auto simp: less_Suc_eq)
  then have "(\<Sum>w < Suc n. in_hand (sc_workers ?t w)) = {#}" "(\<Sum>w < Suc n. running_of (sc_workers ?t w)) = {#}"
    by (auto intro!: sum.neutral simp del: sum.lessThan_Suc)
  then show ?thesis using inv assms(3)
    by (simp add: sched_inv_def fibers_ok_def order_ok_def del: sum.lessThan_Suc)
qed

section \<open>Properties\<close>

text \<open>
  C37 (Scheduler::Scheduler, stop, run with user_caller; Fiber::call). A scheduler with \<open>n\<close> threads
  and its caller runs fibers as \<open>n + 1\<close> threads do. When callers schedule a fiber only while nobody
  has it and it has not ended, then in every reachable state: nobody is in a fiber together with
  another, and no thread has been ended by one or has left its stack; what was printed is what one thread would print
  that resumes the fibers one block at a time in some order; a thread, or the root fiber, comes
  back from the fiber it is in; the root fiber is called only when all threads have left \<^verbatim>\<open>run\<close>, and
  then it can be called; until then the steps are those of a scheduler without \<^verbatim>\<open>user_caller\<close>; and
  when the root fiber has left \<^verbatim>\<open>run\<close>, the thread that called \<^verbatim>\<open>stop\<close> ends instead of going on with
  \<open>k\<close>, and if no fiber waits then, every fiber has executed as many blocks as it was scheduled
  times.
\<close>

theorem caller_runs_coroutines:
  assumes "caller_starts n F m C0 W0" "(polite_caller k n F)\<^sup>*\<^sup>* W0 W"
  shows "\<not> wk_race W \<and> \<not> wk_ended W
    \<and> (\<exists>ws C. resume_all C0 (wk_order W) = Some (ws, C) \<and> fs_out (wk_mem W) = fs_out (wk_mem W0) @ ws)
    \<and> (\<forall>w \<le> n. \<forall>f. sc_workers (wk_sched W) w = Running f \<longrightarrow>
         (\<exists>W'. polite_caller k n F W W' \<and> wk_order W' = wk_order W @ [f]))
    \<and> (sc_workers (wk_sched W) n \<noteq> NotStarted \<longrightarrow> (\<forall>w < n. sc_workers (wk_sched W) w = Exited))
    \<and> (sc_main (wk_sched W) = Stopped \<and> sc_workers (wk_sched W) n = NotStarted \<longrightarrow>
         (\<exists>W'. polite_caller k n F W W' \<and> sc_workers (wk_sched W') n = AtLock))
    \<and> (sc_workers (wk_sched W) n = NotStarted \<longrightarrow> (sched_step n)\<^sup>*\<^sup>* Scheduler (wk_sched W))
    \<and> (sc_workers (wk_sched W) n = Exited \<longrightarrow>
         fails ([CbEnd (m n), SwapOut (m n), ExitThread], wk_tls W n, wk_mem W) ThreadExit
         \<and> (sc_fibers (wk_sched W) = [] \<longrightarrow> mset (wk_order W) = mset (sc_scheduled (wk_sched W))))"
proof -
  have inv: "caller_inv n F m C0 (fs_out (wk_mem W0)) W"
    by (rule caller_inv_reachable [OF assms(2) caller_starts_inv [OF assms(1)]])
  have works: "works_inv (Suc n) F m C0 (fs_out (wk_mem W0)) (as_works n W)" and waits: "root_waits n (wk_sched W)"
    using inv by (simp_all add: caller_inv_def)
  then have alive: "\<not> wk_race W" "\<not> wk_ended W"
    "\<exists>ws C. resume_all C0 (wk_order W) = Some (ws, C) \<and> fs_out (wk_mem W) = fs_out (wk_mem W0) @ ws"
    by (auto simp: works_inv_def)
  have exited: "sc_workers (wk_sched W) w = Exited" if "sc_workers (wk_sched W) n \<noteq> NotStarted" "w < n" for w
  proof -
    have "sc_main (wk_sched W) = Stopped" using waits that(1) by (auto simp: root_waits_def)
    with works that(2) have "sc_workers (as_threads n (wk_sched W)) w = Exited"
      by (auto simp: works_inv_def sched_inv_def phase_ok_def)
    with that(2) show ?thesis by simp
  qed
  have "(caller_step n)\<^sup>*\<^sup>* Scheduler (wk_sched W)"
    using polite_caller_sched [OF assms(2)] assms(1) by (simp add: caller_starts_def starts_def)
  then have plain: "sc_workers (wk_sched W) n = NotStarted \<longrightarrow> (sched_step n)\<^sup>*\<^sup>* Scheduler (wk_sched W)"
    using plain_before_root by blast
  have call: "\<exists>W'. polite_caller k n F W W' \<and> sc_workers (wk_sched W') n = AtLock"
    if "sc_main (wk_sched W) = Stopped" "sc_workers (wk_sched W) n = NotStarted"
    using root_can_be_called [OF inv that, of k] by (auto simp: set_worker_def)
  show ?thesis
    using alive exited plain call caller_comes_back [OF inv] root_ends_thread [OF inv] root_exited_order [OF inv]
    by blast
qed

section \<open>Witness\<close>

text \<open>The root fiber takes what is left.\<close>

lemma root_plain:
  assumes "sc_main (wk_sched W) = Stopped" "\<not> wk_race W" "\<not> wk_ended W" "worker_step n (wk_sched W) t"
    and "\<forall>f. sc_workers (wk_sched W) n \<noteq> Running f"
    and "\<forall>f v. sc_workers (wk_sched W) n = Got (Some f) \<longrightarrow> sc_workers (wk_sched W) v \<noteq> Running f"
    and "sc_clients t = sc_clients (wk_sched W)"
  shows "polite_caller k n F W (W\<lparr>wk_sched := t\<rparr>)"
  using caller_work.root [OF assms(2,3,1) worker_work.plain [OF assms(5,6,4)]] assms(7)
  by (auto simp: polite_caller_def polite_calls_def)

lemma root_takes_last:
  assumes W: "sc_main (wk_sched W) = Stopped" "\<not> wk_race W" "\<not> wk_ended W"
    and s: "sc_workers (wk_sched W) n = AtLock" "sc_mutex (wk_sched W) = None" "sc_fibers (wk_sched W) = fs @ [f]"
    and free: "\<forall>v. sc_workers (wk_sched W) v \<noteq> Running f"
  shows "\<exists>t. (polite_caller k n F)\<^sup>*\<^sup>* W (W\<lparr>wk_sched := t\<rparr>) \<and> sc_workers t n = Running f"
proof -
  let ?s1 = "set_worker n Locked ((wk_sched W)\<lparr>sc_mutex := Some (Worker n)\<rparr>)"
  let ?s2 = "take_fiber n ?s1" and ?s3 = "run_fiber n (Some f) (take_fiber n ?s1)"
  have "polite_caller k n F W (W\<lparr>wk_sched := ?s1\<rparr>)"
    by (rule root_plain [OF W]) (use s worker_step.lock [of "wk_sched W" n] in \<open>auto simp: set_worker_def\<close>)
  moreover have "polite_caller k n F (W\<lparr>wk_sched := ?s1\<rparr>) ((W\<lparr>wk_sched := ?s1\<rparr>)\<lparr>wk_sched := ?s2\<rparr>)"
    by (rule root_plain) (use W s worker_step.take [of ?s1 n] in \<open>auto simp: sched_defs\<close>)
  moreover have "polite_caller k n F (W\<lparr>wk_sched := ?s2\<rparr>) ((W\<lparr>wk_sched := ?s2\<rparr>)\<lparr>wk_sched := ?s3\<rparr>)"
    by (rule root_plain) (use W s free worker_step.run [of ?s2 n "Some f"] in \<open>auto simp: sched_defs\<close>)
  ultimately have "(polite_caller k n F)\<^sup>*\<^sup>* W (W\<lparr>wk_sched := ?s3\<rparr>)" by simp
  then show ?thesis by (intro exI [of _ ?s3]) (simp add: run_fiber_def set_worker_def)
qed

text \<open>
  One thread and the caller. The thread leaves \<^verbatim>\<open>run\<close> before a fiber is scheduled that only the root
  fiber can take.
\<close>

definition demo_caller :: works where
  "demo_caller =
     (case Scheduler_new True new_thread (new_system 4096) of
        (T, S) \<Rightarrow>
          (case Fiber_GetThis new_thread (snd (Fiber (code (demo ! 1)) (1024 * 128)
                   (snd (Fiber (code (demo ! 0)) (1024 * 128) S)))) of
             (f, T1, S1) \<Rightarrow>
               \<lparr>wk_sched = Scheduler, wk_mem = S1,
                wk_tls = (\<lambda>w. if w = 0 then T1\<lparr>t_scheduler_fiber := Some f\<rparr> else T),
                wk_order = [], wk_race = False, wk_ended = False\<rparr>))"

lemmas demo_caller_defs = demo_caller_def demo_def Scheduler_new_def Fiber_GetThis_def Fiber_main_def Fiber_def
  new_thread_def new_system_def Let_def

lemma demo_caller_starts:
  "caller_starts 1 {2, 3} (\<lambda>w. if w = 0 then 4 else 1) (\<lambda>f. Ready INIT (demo ! (f - 2))) demo_caller"
  by (simp add: caller_starts_def starts_def represents_def suspended_def root_fresh_def roomy_def fits_def
      demo_caller_defs)

definition left_call :: "nat \<Rightarrow> sched \<Rightarrow> bool" where
  "left_call f s \<longleftrightarrow> f = 2 \<and> \<not> pending f s"

lemma left_run:
  "\<exists>ms t. calm_moves left_call 1 ms Scheduler = Some t \<and> sc_main t = Stopped \<and> sc_fibers t = [] @ [2]
     \<and> sc_workers t 1 = NotStarted \<and> (\<forall>v. sc_workers t v \<noteq> Running 2) \<and> sc_mutex t = None"
  by (rule exI [of _ "[MainMoves, MainMoves, MainMoves, MainMoves, MainMoves, MainMoves,
        WorkerMoves 0, WorkerMoves 0, WorkerMoves 0,
        Calls 0 2, ClientMoves 0, ClientMoves 0, ClientMoves 0,
        MainMoves, MainMoves, MainMoves, MainMoves, MainMoves]"])
     (simp add: left_call_def pending_def Scheduler_def calm_move_def main_move_def worker_move_def
       client_move_def sched_defs upt_rec)

lemma demo_caller_sel:
  "wk_sched demo_caller = Scheduler" "\<not> wk_race demo_caller" "\<not> wk_ended demo_caller"
  "wk_order demo_caller = []" "fs_out (wk_mem demo_caller) = []"
  "fb_state (fs_fibers (wk_mem demo_caller) ! 2) = INIT"
  by (simp_all add: demo_caller_defs)

lemma demo_caller_inv:
  "(polite_caller k 1 {2, 3})\<^sup>*\<^sup>* demo_caller W \<Longrightarrow>
     caller_inv 1 {2, 3} (\<lambda>w. if w = 0 then 4 else 1) (\<lambda>f. Ready INIT (demo ! (f - 2))) [] W"
  using caller_inv_reachable [OF _ caller_starts_inv [OF demo_caller_starts]] demo_caller_sel(5) by metis

lemma demo_caller_root:
  "\<exists>V. (polite_caller k 1 {2, 3})\<^sup>*\<^sup>* demo_caller V \<and> sc_workers (wk_sched V) 1 = Running 2 \<and> wk_order V = []"
proof -
  let ?P = "polite_caller k 1 {2, 3}"
  obtain ms t where run: "calm_moves left_call 1 ms Scheduler = Some t"
      and t: "sc_main t = Stopped" "sc_fibers t = [] @ [2]" "sc_workers t 1 = NotStarted"
        "\<forall>v. sc_workers t v \<noteq> Running 2" "sc_mutex t = None"
    using left_run by blast
  have "(calm_step left_call 1 (wk_mem demo_caller))\<^sup>*\<^sup>* demo_caller (demo_caller\<lparr>wk_sched := t\<rparr>)"
    using calm_moves_steps [of left_call 1 ms demo_caller t] run demo_caller_sel Scheduler_inv by simp
  then have "(polite_step 1 {2, 3})\<^sup>*\<^sup>* demo_caller (demo_caller\<lparr>wk_sched := t\<rparr>)"
    by (rule calm_polite) (use demo_caller_sel(6) in \<open>auto simp: left_call_def\<close>)
  then have threads: "?P\<^sup>*\<^sup>* demo_caller (demo_caller\<lparr>wk_sched := t\<rparr>)"
    by (rule rtranclp_mono [THEN predicate2D, rotated])
       (auto simp: polite_step_def polite_caller_def intro: caller_work.threads)
  obtain V where V: "?P (demo_caller\<lparr>wk_sched := t\<rparr>) V" "wk_sched V = set_worker 1 AtLock t" "wk_order V = []"
    using root_can_be_called [OF demo_caller_inv [OF threads], of k] t demo_caller_sel(4) by auto
  have reachV: "?P\<^sup>*\<^sup>* demo_caller V" using threads V(1) by (rule rtranclp.rtrancl_into_rtrancl)
  have alive: "\<not> wk_race V" "\<not> wk_ended V"
    using demo_caller_inv [OF reachV] by (simp_all add: caller_inv_def works_inv_def)
  have "sc_main (wk_sched V) = Stopped" "sc_workers (wk_sched V) 1 = AtLock" "sc_mutex (wk_sched V) = None"
      "sc_fibers (wk_sched V) = [] @ [2]" "\<forall>v. sc_workers (wk_sched V) v \<noteq> Running 2"
    using V(2) t by (simp_all add: set_worker_def)
  from root_takes_last [OF this(1) alive this(2-5)]
  obtain u where u: "?P\<^sup>*\<^sup>* V (V\<lparr>wk_sched := u\<rparr>)" "sc_workers u 1 = Running 2" by blast
  have "?P\<^sup>*\<^sup>* demo_caller (V\<lparr>wk_sched := u\<rparr>)" using reachV u(1) by (rule rtranclp_trans)
  with u(2) V(3) show ?thesis by (intro exI [of _ "V\<lparr>wk_sched := u\<rparr>"]) simp
qed

theorem caller_runs_coroutines_witness:
  "\<exists>W. (polite_caller [Work ''after''] 1 {2, 3})\<^sup>*\<^sup>* demo_caller W \<and> \<not> wk_race W
     \<and> wk_order W = [2] \<and> fs_out (wk_mem W) = [''a'']"
proof -
  let ?P = "polite_caller [Work ''after''] 1 {2, 3}"
  obtain V where V: "?P\<^sup>*\<^sup>* demo_caller V" "sc_workers (wk_sched V) 1 = Running 2" "wk_order V = []"
    using demo_caller_root by blast
  have "\<exists>W. ?P V W \<and> wk_order W = wk_order V @ [2]"
    using caller_runs_coroutines [OF demo_caller_starts V(1)] V(2) by blast
  then obtain W where W: "?P\<^sup>*\<^sup>* demo_caller W" "wk_order W = [2]"
    using V(1,3) by (auto intro: rtranclp.rtrancl_into_rtrancl)
  have "\<not> wk_race W \<and> (\<exists>ws C. resume_all (\<lambda>f. Ready INIT (demo ! (f - 2))) (wk_order W) = Some (ws, C)
      \<and> fs_out (wk_mem W) = fs_out (wk_mem demo_caller) @ ws)"
    using caller_runs_coroutines [OF demo_caller_starts W(1)] by blast
  with W demo_caller_sel(5) show ?thesis by (intro exI [of _ W]) (auto simp: demo_def)
qed

end
