(* ===== verification/Mutex.thy ===== *)
theory Mutex
  imports ZPrelude
begin

text \<open>
  \<^verbatim>\<open>server/mutex.h\<close>: \<^verbatim>\<open>Semaphore\<close>, \<^verbatim>\<open>Mutex\<close>, \<^verbatim>\<open>NullMutex\<close> and \<^verbatim>\<open>ScopedLockImpl\<close>. A call that would
  block is \<open>None\<close>. Mutexes live in a store, because \<^verbatim>\<open>ScopedLockImpl\<close> takes and keeps its mutex by
  value: every copy is an object of its own that starts in the state of the original. This is what
  copying a \<^verbatim>\<open>pthread_mutex_t\<close> byte by byte gives; POSIX leaves the use of such a copy undefined, and
  nothing is claimed for an implementation in which it does something else.
\<close>

section \<open>Semaphore\<close>

type_synonym semaphore = nat

definition Semaphore :: "u32 \<Rightarrow> semaphore" where
  "Semaphore count = unat count"

definition Semaphore_wait :: "semaphore \<Rightarrow> semaphore option" where
  "Semaphore_wait sem = (if 0 < sem then Some (sem - 1) else None)"

definition Semaphore_notify :: "semaphore \<Rightarrow> semaphore" where
  "Semaphore_notify sem = sem + 1"

section \<open>Mutex\<close>

record mutex =
  mx_locked :: bool
  mx_destroyed :: bool

type_synonym store = "mutex list"

definition Mutex :: "store \<Rightarrow> nat \<times> store" where
  "Mutex h = (length h, h @ [\<lparr>mx_locked = False, mx_destroyed = False\<rparr>])"

definition Mutex_destroy :: "nat \<Rightarrow> store \<Rightarrow> store" where
  "Mutex_destroy m h = h[m := (h ! m)\<lparr>mx_destroyed := True\<rparr>]"

definition Mutex_lock :: "nat \<Rightarrow> store \<Rightarrow> store option" where
  "Mutex_lock m h = (if mx_locked (h ! m) then None else Some (h[m := (h ! m)\<lparr>mx_locked := True\<rparr>]))"

definition Mutex_unlock :: "nat \<Rightarrow> store \<Rightarrow> store" where
  "Mutex_unlock m h = h[m := (h ! m)\<lparr>mx_locked := False\<rparr>]"

text \<open>The copy constructor the compiler makes.\<close>

text \<open>
  The copy constructor the compiler generates: the bytes of \<^verbatim>\<open>m_mutex\<close> as they are. What locking
  the copy does is undefined in POSIX; the bytes say the state the original had.
\<close>

definition Mutex_copy :: "nat \<Rightarrow> store \<Rightarrow> nat \<times> store" where
  "Mutex_copy m h = (length h, h @ [h ! m])"

definition NullMutex_lock :: "'s \<Rightarrow> 's option" where
  "NullMutex_lock s = Some s"

definition NullMutex_unlock :: "'s \<Rightarrow> 's" where
  "NullMutex_unlock s = s"

section \<open>ScopedLockImpl\<close>

record scoped_lock =
  sl_mutex :: nat
  sl_locked :: bool

text \<open>
  The constructor: the argument is copied into the parameter and the parameter into the member,
  which is locked; the parameter is destroyed at the end.
\<close>

definition ScopedLock :: "nat \<Rightarrow> store \<Rightarrow> (scoped_lock \<times> store) option" where
  "ScopedLock mutex h =
     (case Mutex_copy mutex h of
        (param, h1) \<Rightarrow>
          (case Mutex_copy param h1 of
             (own, h2) \<Rightarrow>
               (case Mutex_lock own h2 of
                  None \<Rightarrow> None
                | Some h3 \<Rightarrow> Some (\<lparr>sl_mutex = own, sl_locked = True\<rparr>, Mutex_destroy param h3))))"

definition ScopedLock_lock :: "scoped_lock \<Rightarrow> store \<Rightarrow> (scoped_lock \<times> store) option" where
  "ScopedLock_lock l h =
     (if \<not> sl_locked l
      then (case Mutex_lock (sl_mutex l) h of None \<Rightarrow> None | Some h1 \<Rightarrow> Some (l\<lparr>sl_locked := True\<rparr>, h1))
      else Some (l, h))"

definition ScopedLock_unlock :: "scoped_lock \<Rightarrow> store \<Rightarrow> scoped_lock \<times> store" where
  "ScopedLock_unlock l h =
     (if sl_locked l then (l\<lparr>sl_locked := False\<rparr>, Mutex_unlock (sl_mutex l) h) else (l, h))"

definition ScopedLock_destroy :: "scoped_lock \<Rightarrow> store \<Rightarrow> store" where
  "ScopedLock_destroy l h =
     (let h1 = (if sl_locked l then Mutex_unlock (sl_mutex l) h else h) in Mutex_destroy (sl_mutex l) h1)"

lemmas mutex_defs = Mutex_def Mutex_destroy_def Mutex_lock_def Mutex_unlock_def Mutex_copy_def
  ScopedLock_def ScopedLock_lock_def ScopedLock_unlock_def ScopedLock_destroy_def Let_def

section \<open>What a scoped lock does\<close>

text \<open>Its own mutex is locked as its flag says.\<close>

definition lock_agrees :: "scoped_lock \<Rightarrow> store \<Rightarrow> bool" where
  "lock_agrees l h \<longleftrightarrow> sl_mutex l < length h \<and> (sl_locked l \<longleftrightarrow> mx_locked (h ! sl_mutex l))"

lemma ScopedLock_own:
  assumes "m < length h" "\<not> mx_locked (h ! m)"
  shows "\<exists>l h'. ScopedLock m h = Some (l, h') \<and> lock_agrees l h' \<and> sl_locked l \<and> sl_mutex l = Suc (length h)
    \<and> length h' = Suc (Suc (length h)) \<and> (\<forall>i < length h. h' ! i = h ! i)"
  using assms by (auto simp: mutex_defs nth_append lock_agrees_def nth_list_update)

lemma ScopedLock_blocks: "m < length h \<Longrightarrow> mx_locked (h ! m) \<Longrightarrow> ScopedLock m h = None"
  by (simp add: mutex_defs nth_append)

lemma ScopedLock_lock_agrees:
  "lock_agrees l h \<Longrightarrow> \<exists>h'. ScopedLock_lock l h = Some (l\<lparr>sl_locked := True\<rparr>, h') \<and> lock_agrees (l\<lparr>sl_locked := True\<rparr>) h'"
  by (cases "sl_locked l") (auto simp: mutex_defs lock_agrees_def)

lemma ScopedLock_unlock_agrees:
  "lock_agrees l h \<Longrightarrow> lock_agrees (fst (ScopedLock_unlock l h)) (snd (ScopedLock_unlock l h))"
  by (auto simp: mutex_defs lock_agrees_def)

text \<open>Any number of scoped locks on one mutex, none of them released.\<close>

primrec lock_many :: "nat \<Rightarrow> nat \<Rightarrow> store \<Rightarrow> (scoped_lock list \<times> store) option" where
  "lock_many 0 m h = Some ([], h)"
| "lock_many (Suc k) m h =
     (case ScopedLock m h of
        None \<Rightarrow> None
      | Some (l, h1) \<Rightarrow>
          (case lock_many k m h1 of None \<Rightarrow> None | Some (ls, h2) \<Rightarrow> Some (l # ls, h2)))"

lemma lock_many_succeeds:
  assumes "m < length h" "\<not> mx_locked (h ! m)"
  shows "\<exists>ls h'. lock_many k m h = Some (ls, h') \<and> length ls = k \<and> length h \<le> length h'
    \<and> (\<forall>i < length h. h' ! i = h ! i) \<and> (\<forall>l \<in> set ls. sl_locked l \<and> lock_agrees l h')"
  using assms
proof (induction k arbitrary: h)
  case (Suc k)
  obtain l h1 where l: "ScopedLock m h = Some (l, h1)" "lock_agrees l h1" "sl_locked l"
      "length h \<le> length h1" "\<forall>i < length h. h1 ! i = h ! i"
    using ScopedLock_own [OF Suc.prems] by auto
  have "m < length h1" "\<not> mx_locked (h1 ! m)" using l Suc.prems by auto
  from Suc.IH [OF this] obtain ls h2 where
      ls: "lock_many k m h1 = Some (ls, h2)" "length ls = k" "length h1 \<le> length h2"
        "\<forall>i < length h1. h2 ! i = h1 ! i" "\<forall>l \<in> set ls. sl_locked l \<and> lock_agrees l h2"
    by blast
  have "lock_agrees l h2" using l(2) ls(3,4) by (auto simp: lock_agrees_def)
  with l ls show ?case by auto
qed simp

text \<open>
  C39 (ScopedLockImpl). A scoped lock protects nothing, because it locks its own copy of the mutex,
  taken byte by byte (POSIX does not even define locking such a copy).
  On a mutex nobody holds, any number of scoped locks can be taken one after the other, all of them
  at once in the state of holding the lock, and the mutex itself is never locked, so that another
  thread can lock it too; on a mutex somebody holds, the constructor copies the locked state and
  waits for a copy nobody else can unlock.
\<close>

theorem ScopedLock_excludes_nobody:
  assumes "m < length h"
  shows "if mx_locked (h ! m) then ScopedLock m h = None
    else \<exists>ls h'. lock_many k m h = Some (ls, h') \<and> length ls = k
      \<and> (\<forall>l \<in> set ls. sl_locked l \<and> mx_locked (h' ! sl_mutex l))
      \<and> h' ! m = h ! m \<and> Mutex_lock m h' \<noteq> None"
proof (cases "mx_locked (h ! m)")
  case True
  then show ?thesis using ScopedLock_blocks [OF assms] by simp
next
  case False
  from lock_many_succeeds [OF assms False, of k] obtain ls h' where
      "lock_many k m h = Some (ls, h')" "length ls = k" "h' ! m = h ! m"
      "\<forall>l \<in> set ls. sl_locked l \<and> lock_agrees l h'"
    using assms by auto
  with False show ?thesis by (auto simp: lock_agrees_def Mutex_lock_def)
qed

theorem ScopedLock_excludes_nobody_witness:
  "\<exists>ls h'. lock_many 2 0 (snd (Mutex [])) = Some (ls, h') \<and> length ls = 2 \<and> Mutex_lock 0 h' \<noteq> None"
  using ScopedLock_excludes_nobody [of 0 "snd (Mutex [])" 2] by (auto simp: Mutex_def)

end
