(* ===== verification/Thread.thy ===== *)
theory Thread
  imports Mutex Transitions
begin

text \<open>
  \<^verbatim>\<open>class Thread\<close> (\<^verbatim>\<open>server/thread.h\<close>, \<^verbatim>\<open>server/thread.cpp\<close>): one object, the thread that makes,
  joins and destroys it, and the thread it starts, interleaved statement by statement where they
  share the object. The kernel's thread id is a parameter. Joining twice is left out: it is
  undefined in pthreads.
\<close>

section \<open>State\<close>

text \<open>Where the maker is and where the child is; a callback is a number, \<open>None\<close> an empty function.\<close>

datatype maker = Constructing | Waiting | Ready | Joined | Destroyed | Threw err

datatype child =
    Unborn | Entered | NameSet | IdSet | KernelNameSet | Notified
  | Swapped "nat option" | Returned | Terminated | Dangling

record thread =
  th_id :: int
  th_thread :: nat
  th_cb :: "nat option"
  th_name :: string
  th_joined :: bool
  th_semaphore :: semaphore

text \<open>
  The object with its two threads: the child's \<^verbatim>\<open>t_thread\<close> and \<^verbatim>\<open>t_thread_name\<close>, its name in the
  kernel, whether it was detached, and the callbacks it called.
\<close>

record thsys =
  ts_object :: thread
  ts_maker :: maker
  ts_child :: child
  ts_this :: bool
  ts_thread_name :: string
  ts_kernel_name :: string
  ts_detached :: bool
  ts_ran :: "nat list"

definition Thread_init :: "string \<Rightarrow> nat option \<Rightarrow> thread" where
  "Thread_init name cb =
     \<lparr>th_id = -1, th_thread = 0, th_cb = cb, th_name = (if name = [] then ''UNKNOW'' else name),
      th_joined = False, th_semaphore = Semaphore 0\<rparr>"

definition Thread :: "string \<Rightarrow> nat option \<Rightarrow> thsys" where
  "Thread name cb =
     \<lparr>ts_object = Thread_init name cb, ts_maker = Constructing, ts_child = Unborn, ts_this = False,
      ts_thread_name = ''UNKNOWN'', ts_kernel_name = [], ts_detached = False, ts_ran = []\<rparr>"

definition Thread_GetThis :: "thsys \<Rightarrow> bool" where
  "Thread_GetThis s = ts_this s"

definition Thread_GetName :: "thsys \<Rightarrow> string" where
  "Thread_GetName s = ts_thread_name s"

section \<open>The maker\<close>

text \<open>\<^verbatim>\<open>join\<close> waits, \<open>None\<close>, until the child has returned; the destructor detaches what nobody joined.\<close>

definition Thread_join :: "thsys \<Rightarrow> thsys option" where
  "Thread_join s =
     (if th_thread (ts_object s) \<noteq> 0
      then (if ts_child s = Returned then Some (s\<lparr>ts_object := (ts_object s)\<lparr>th_joined := True\<rparr>\<rparr>) else None)
      else Some s)"

definition Thread_destroy :: "thsys \<Rightarrow> thsys" where
  "Thread_destroy s =
     s\<lparr>ts_detached := (th_thread (ts_object s) \<noteq> 0 \<and> \<not> th_joined (ts_object s))\<rparr>"

text \<open>\<^verbatim>\<open>pthread_create\<close> may fail; the number it stores is not zero.\<close>

inductive maker_step :: "thsys \<Rightarrow> thsys \<Rightarrow> bool" where
  create: "ts_maker s = Constructing \<Longrightarrow> h \<noteq> 0 \<Longrightarrow>
     maker_step s (s\<lparr>ts_maker := Waiting, ts_child := Entered,
       ts_object := (ts_object s)\<lparr>th_thread := h\<rparr>\<rparr>)"
| create_fails: "ts_maker s = Constructing \<Longrightarrow>
     maker_step s (s\<lparr>ts_maker := Threw (LogicError ''pthread_create fail'')\<rparr>)"
| waited: "ts_maker s = Waiting \<Longrightarrow> Semaphore_wait (th_semaphore (ts_object s)) = Some c \<Longrightarrow>
     maker_step s (s\<lparr>ts_maker := Ready, ts_object := (ts_object s)\<lparr>th_semaphore := c\<rparr>\<rparr>)"
| join: "ts_maker s = Ready \<Longrightarrow> Thread_join s = Some t \<Longrightarrow>
     maker_step s (t\<lparr>ts_maker := Joined\<rparr>)"
| destroy: "ts_maker s = Ready \<or> ts_maker s = Joined \<Longrightarrow>
     maker_step s ((Thread_destroy s)\<lparr>ts_maker := Destroyed\<rparr>)"

section \<open>The child\<close>

text \<open>\<^verbatim>\<open>Thread::run\<close>. A statement that needs the object when it is gone leaves the thread \<open>Dangling\<close>.\<close>

definition needs_object :: "child \<Rightarrow> bool" where
  "needs_object k \<longleftrightarrow> k \<in> {Entered, NameSet, IdSet, KernelNameSet, Notified}"

text \<open>
  \<^verbatim>\<open>m_name.substr(0, 15).c_str()\<close>, as \<^verbatim>\<open>pthread_setname_np\<close> reads it: up to the first zero byte.
\<close>

definition kernel_name :: "string \<Rightarrow> string" where
  "kernel_name name = takeWhile (\<lambda>c. c \<noteq> CHR 0x00) (substr name 0 15)"

definition run_statement :: "int \<Rightarrow> thsys \<Rightarrow> thsys" where
  "run_statement tid s =
     (case ts_child s of
        Entered \<Rightarrow> s\<lparr>ts_this := True, ts_thread_name := th_name (ts_object s), ts_child := NameSet\<rparr>
      | NameSet \<Rightarrow> s\<lparr>ts_object := (ts_object s)\<lparr>th_id := tid\<rparr>, ts_child := IdSet\<rparr>
      | IdSet \<Rightarrow> s\<lparr>ts_kernel_name := kernel_name (th_name (ts_object s)), ts_child := KernelNameSet\<rparr>
      | KernelNameSet \<Rightarrow>
          s\<lparr>ts_object := (ts_object s)\<lparr>th_semaphore := Semaphore_notify (th_semaphore (ts_object s))\<rparr>,
            ts_child := Notified\<rparr>
      | Notified \<Rightarrow> s\<lparr>ts_object := (ts_object s)\<lparr>th_cb := None\<rparr>, ts_child := Swapped (th_cb (ts_object s))\<rparr>
      | Swapped (Some f) \<Rightarrow> s\<lparr>ts_ran := ts_ran s @ [f], ts_child := Returned\<rparr>
      | Swapped None \<Rightarrow> s\<lparr>ts_child := Terminated\<rparr>
      | _ \<Rightarrow> s)"

inductive child_step :: "int \<Rightarrow> thsys \<Rightarrow> thsys \<Rightarrow> bool" for tid :: int where
  statement: "needs_object (ts_child s) \<or> (\<exists>cb. ts_child s = Swapped cb) \<Longrightarrow>
     needs_object (ts_child s) \<longrightarrow> ts_maker s \<noteq> Destroyed \<Longrightarrow>
     child_step tid s (run_statement tid s)"
| use_after_free: "needs_object (ts_child s) \<Longrightarrow> ts_maker s = Destroyed \<Longrightarrow>
     child_step tid s (s\<lparr>ts_child := Dangling\<rparr>)"

definition thread_step :: "int \<Rightarrow> thsys \<Rightarrow> thsys \<Rightarrow> bool" where
  "thread_step tid s t \<longleftrightarrow> maker_step s t \<or> child_step tid s t"

section \<open>The invariant\<close>

text \<open>Whether the child has told the maker, and whether the maker has taken note.\<close>

definition told :: "child \<Rightarrow> bool" where
  "told k \<longleftrightarrow> k \<notin> {Unborn, Entered, NameSet, IdSet, KernelNameSet}"

definition taken_note :: "maker \<Rightarrow> bool" where
  "taken_note m \<longleftrightarrow> m \<in> {Ready, Joined, Destroyed}"

fun ran_ok :: "nat option \<Rightarrow> child \<Rightarrow> nat option \<Rightarrow> nat list \<Rightarrow> bool" where
  "ran_ok cb Returned c r \<longleftrightarrow> c = None \<and> (\<exists>f. cb = Some f \<and> r = [f])"
| "ran_ok cb Terminated c r \<longleftrightarrow> c = None \<and> cb = None \<and> r = []"
| "ran_ok cb (Swapped x) c r \<longleftrightarrow> c = None \<and> x = cb \<and> r = []"
| "ran_ok cb k c r \<longleftrightarrow> c = cb \<and> r = []"

definition thread_inv :: "int \<Rightarrow> string \<Rightarrow> nat option \<Rightarrow> thsys \<Rightarrow> bool" where
  "thread_inv tid name cb s \<longleftrightarrow>
     th_name (ts_object s) = (if name = [] then ''UNKNOW'' else name)
     \<and> (ts_child s = Unborn \<longleftrightarrow> ts_maker s = Constructing \<or> (\<exists>e. ts_maker s = Threw e))
     \<and> th_semaphore (ts_object s) = (if told (ts_child s) \<and> \<not> taken_note (ts_maker s) then 1 else 0)
     \<and> (taken_note (ts_maker s) \<longrightarrow> told (ts_child s))
     \<and> (ts_child s \<noteq> Unborn \<longrightarrow> th_thread (ts_object s) \<noteq> 0)
     \<and> (told (ts_child s) \<longrightarrow> th_id (ts_object s) = tid \<and> ts_this s
          \<and> ts_thread_name s = th_name (ts_object s) \<and> ts_kernel_name s = kernel_name (th_name (ts_object s)))
     \<and> (ts_child s \<in> {IdSet, KernelNameSet} \<longrightarrow> th_id (ts_object s) = tid)
     \<and> (ts_child s \<in> {NameSet, IdSet, KernelNameSet} \<longrightarrow> ts_this s \<and> ts_thread_name s = th_name (ts_object s))
     \<and> (ts_child s = KernelNameSet \<longrightarrow> ts_kernel_name s = kernel_name (th_name (ts_object s)))
     \<and> ran_ok cb (ts_child s) (th_cb (ts_object s)) (ts_ran s)
     \<and> (th_joined (ts_object s) \<longleftrightarrow> ts_maker s = Joined \<or> ts_maker s = Destroyed \<and> \<not> ts_detached s)
     \<and> (th_joined (ts_object s) \<longrightarrow> ts_child s = Returned)
     \<and> (ts_child s = Dangling \<longrightarrow> ts_maker s = Destroyed)"

lemma Thread_inv: "thread_inv tid name cb (Thread name cb)"
  by (simp add: thread_inv_def Thread_def Thread_init_def told_def taken_note_def Semaphore_def)

lemmas inv_defs = thread_inv_def told_def taken_note_def

lemma thread_inv_born:
  assumes "thread_inv tid name cb s"
  shows "ts_maker s \<noteq> Constructing \<and> (\<forall>e. ts_maker s \<noteq> Threw e) \<longrightarrow> th_thread (ts_object s) \<noteq> 0"
  using assms unfolding thread_inv_def by blast

lemma maker_inv:
  assumes "maker_step s t" "thread_inv tid name cb s"
  shows "thread_inv tid name cb t"
  using assms(1)
proof cases
  case (waited c)
  then show ?thesis using assms(2)
    by (cases "ts_child s") (auto simp: inv_defs Semaphore_wait_def split: if_splits)
next
  case destroy
  then show ?thesis using assms(2) by (cases "ts_child s") (auto simp: inv_defs Thread_destroy_def)
next
  case (create h)
  then have "ts_child s = Unborn" using assms(2) by (simp add: inv_defs)
  with create assms(2) show ?thesis by (simp add: inv_defs)
next
  case create_fails
  then have "ts_child s = Unborn" using assms(2) by (simp add: inv_defs)
  with create_fails assms(2) show ?thesis by (simp add: inv_defs)
next
  case (join u)
  then have "th_thread (ts_object s) \<noteq> 0" using thread_inv_born [OF assms(2)] by simp
  with join have "ts_child s = Returned" "u = s\<lparr>ts_object := (ts_object s)\<lparr>th_joined := True\<rparr>\<rparr>"
    by (auto simp: Thread_join_def split: if_splits)
  with join assms(2) show ?thesis by (simp add: inv_defs)
qed

lemma child_inv:
  assumes "child_step tid s t" "thread_inv tid name cb s"
  shows "thread_inv tid name cb t"
  using assms(1)
proof cases
  case statement
  show ?thesis
  proof (cases "ts_child s")
    case (Swapped x)
    then show ?thesis using statement assms(2)
      by (cases x) (auto simp: thread_inv_def told_def run_statement_def)
  qed (use statement assms(2) in
      \<open>auto simp: thread_inv_def told_def taken_note_def run_statement_def needs_object_def Semaphore_notify_def\<close>)
next
  case use_after_free
  then show ?thesis using assms(2)
    by (auto simp: thread_inv_def told_def taken_note_def needs_object_def)
qed

interpretation thread: transition_system "\<lambda>s. s = Thread name cb" "thread_step tid" "thread_inv tid name cb"
  for tid name cb
  by unfold_locales (auto simp: Thread_inv thread_step_def intro: maker_inv child_inv)

lemma maker_to_thread: "maker_step s t \<Longrightarrow> thread_step tid s t"
  and child_to_thread: "child_step tid s t \<Longrightarrow> thread_step tid s t"
  by (simp_all add: thread_step_def)

section \<open>Properties\<close>

text \<open>A maker that destroys the object as soon as it is ready can be faster than the child.\<close>

lemma dangling_reachable:
  "\<exists>t. (thread_step tid)\<^sup>*\<^sup>* (Thread name cb) t \<and> ts_child t = Dangling"
proof -
  note sel = Thread_def Thread_init_def run_statement_def needs_object_def Semaphore_def
    Semaphore_notify_def Semaphore_wait_def Thread_destroy_def
  obtain s1 where s1: "s1 = (Thread name cb)\<lparr>ts_maker := Waiting, ts_child := Entered, ts_object := (ts_object (Thread name cb))\<lparr>th_thread := 1\<rparr>\<rparr>" by simp
  have x1: "thread_step tid (Thread name cb) s1"
    unfolding s1 by (rule maker_to_thread, rule maker_step.create) (simp_all add: sel)
  obtain s2 where s2: "s2 = run_statement tid s1" by simp
  have x2: "thread_step tid s1 s2"
    unfolding s2 by (rule child_to_thread, rule child_step.statement) (simp_all add: sel s1)
  obtain s3 where s3: "s3 = run_statement tid s2" by simp
  have x3: "thread_step tid s2 s3"
    unfolding s3 by (rule child_to_thread, rule child_step.statement) (simp_all add: sel s1 s2)
  obtain s4 where s4: "s4 = run_statement tid s3" by simp
  have x4: "thread_step tid s3 s4"
    unfolding s4 by (rule child_to_thread, rule child_step.statement) (simp_all add: sel s1 s2 s3)
  obtain s5 where s5: "s5 = run_statement tid s4" by simp
  have x5: "thread_step tid s4 s5"
    unfolding s5 by (rule child_to_thread, rule child_step.statement) (simp_all add: sel s1 s2 s3 s4)
  obtain s6 where s6: "s6 = s5\<lparr>ts_maker := Ready, ts_object := (ts_object s5)\<lparr>th_semaphore := 0\<rparr>\<rparr>" by simp
  have x6: "thread_step tid s5 s6"
    unfolding s6 by (rule maker_to_thread, rule maker_step.waited) (simp_all add: sel s1 s2 s3 s4 s5)
  obtain s7 where s7: "s7 = (Thread_destroy s6)\<lparr>ts_maker := Destroyed\<rparr>" by simp
  have x7: "thread_step tid s6 s7"
    unfolding s7 by (rule maker_to_thread, rule maker_step.destroy) (simp_all add: sel s1 s2 s3 s4 s5 s6)
  obtain s8 where s8: "s8 = s7\<lparr>ts_child := Dangling\<rparr>" by simp
  have x8: "thread_step tid s7 s8"
    unfolding s8 by (rule child_to_thread, rule child_step.use_after_free) (simp_all add: sel s1 s2 s3 s4 s5 s6 s7)
  note into = rtranclp.rtrancl_into_rtrancl [of "thread_step tid"]
  have "(thread_step tid)\<^sup>*\<^sup>* (Thread name cb) s4"
    by (rule into [OF into [OF into [OF r_into_rtranclp [of "thread_step tid", OF x1] x2] x3] x4])
  then have "(thread_step tid)\<^sup>*\<^sup>* (Thread name cb) s8"
    by (rule into [OF into [OF into [OF into [OF _ x5] x6] x7] x8])
  then show ?thesis by (auto simp: s8)
qed

text \<open>
  C40 (Thread::Thread, run, join, ~Thread). Once the constructor has returned, the child has
  stored its id, carries the name of the object, \<^verbatim>\<open>UNKNOW\<close> for an empty one, and is known to the
  kernel by its first fifteen characters, up to a zero byte among them; the callback is called at most once, and exactly once
  when \<^verbatim>\<open>join\<close> has returned. The child touches the object after its end only if it was
  destroyed without being joined; and that can happen, whatever the callback.
\<close>

theorem thread_lifecycle:
  assumes "(thread_step tid)\<^sup>*\<^sup>* (Thread name cb) s"
  shows "(taken_note (ts_maker s) \<longrightarrow> th_id (ts_object s) = tid \<and> Thread_GetThis s
      \<and> Thread_GetName s = (if name = [] then ''UNKNOW'' else name)
      \<and> ts_kernel_name s = kernel_name (Thread_GetName s))
    \<and> length (ts_ran s) \<le> 1
    \<and> (ts_maker s = Joined \<longrightarrow> (\<exists>f. cb = Some f \<and> ts_ran s = [f]))
    \<and> (ts_child s = Dangling \<longrightarrow> ts_maker s = Destroyed \<and> ts_detached s)
    \<and> (\<exists>t. (thread_step tid)\<^sup>*\<^sup>* (Thread name cb) t \<and> ts_child t = Dangling)"
proof -
  have inv: "thread_inv tid name cb s" by (rule thread.reachable_inv [OF refl assms])
  have "length (ts_ran s) \<le> 1"
    using inv by (cases "ts_child s") (auto simp: inv_defs)
  moreover have "ts_maker s = Joined \<longrightarrow> (\<exists>f. cb = Some f \<and> ts_ran s = [f])"
  proof
    assume "ts_maker s = Joined"
    moreover from this have "ts_child s = Returned" using inv by (simp add: thread_inv_def)
    ultimately show "\<exists>f. cb = Some f \<and> ts_ran s = [f]" using inv by (simp add: thread_inv_def)
  qed
  moreover have "ts_child s = Dangling \<longrightarrow> ts_maker s = Destroyed \<and> ts_detached s"
  proof
    assume "ts_child s = Dangling"
    moreover from this have "ts_maker s = Destroyed" using inv by (simp add: thread_inv_def)
    ultimately show "ts_maker s = Destroyed \<and> ts_detached s" using inv by (simp add: thread_inv_def) blast
  qed
  moreover have "taken_note (ts_maker s) \<longrightarrow> th_id (ts_object s) = tid \<and> Thread_GetThis s
      \<and> Thread_GetName s = (if name = [] then ''UNKNOW'' else name)
      \<and> ts_kernel_name s = kernel_name (Thread_GetName s)"
  proof
    assume tn: "taken_note (ts_maker s)"
    have name: "th_name (ts_object s) = (if name = [] then ''UNKNOW'' else name)"
      and told: "told (ts_child s)"
      and known: "told (ts_child s) \<longrightarrow> th_id (ts_object s) = tid \<and> ts_this s
        \<and> ts_thread_name s = th_name (ts_object s) \<and> ts_kernel_name s = kernel_name (th_name (ts_object s))"
      using inv tn unfolding thread_inv_def by blast+
    show "th_id (ts_object s) = tid \<and> Thread_GetThis s
        \<and> Thread_GetName s = (if name = [] then ''UNKNOW'' else name)
        \<and> ts_kernel_name s = kernel_name (Thread_GetName s)"
      unfolding Thread_GetThis_def Thread_GetName_def name [symmetric] using known told by simp
  qed
  ultimately show ?thesis using dangling_reachable by blast
qed

theorem thread_lifecycle_witness:
  "\<exists>t. (thread_step 4711)\<^sup>*\<^sup>* (Thread [] (Some 3)) t \<and> ts_child t = Dangling"
  using thread_lifecycle [of 4711 "[]" "Some 3" "Thread [] (Some 3)"] by simp

end
