(* ===== verification/Spec2Isabelle.thy ===== *)
theory Spec2Isabelle
  imports UpdateProps LoggersConfig FiberIds CallerFibers Thread
begin

text \<open>
  A model of ZnetServer (\<^verbatim>\<open>src/server\<close>): a logging system that is configured from YAML, fibers, a
  scheduler that runs fibers on threads, and the thread and lock classes below it.

  \<^bold>\<open>Parts and theories.\<close>
  \<^item> \<open>ZPrelude\<close>: results (\<open>err + 'a\<close>), loops over them (\<open>fold_res\<close>), the collections of facts.
    \<open>OrderedMap\<close>: \<^verbatim>\<open>std::map\<close> and \<^verbatim>\<open>std::set\<close> as sorted lists. \<open>Transitions\<close>: the locales
    \<open>transition_system\<close>, \<open>tracked_system\<close> and \<open>refined_system\<close>, interpreted as \<open>mgr\<close>
    (\<open>LogProps\<close>), \<open>mgr_track\<close> (\<open>ManagerNames\<close>), \<open>cfg\<close> (\<open>ConfigProps\<close>), \<open>sched\<close> (\<open>SchedulerProps\<close>), \<open>works\<close>
    (\<open>WorkersProps\<close>), \<open>caller\<close> (\<open>CallerScheduler\<close>), \<open>caller_works\<close> (\<open>CallerFibers\<close>) and
    \<open>thread\<close> (\<open>Thread\<close>).
  \<^item> \<open>Util\<close>, \<open>LogLevel\<close>, \<open>LogEvent\<close>, \<open>LogFormatter\<close>: \<^verbatim>\<open>util.h\<close> and the value classes of \<^verbatim>\<open>log.h\<close>.
    \<open>LogFormatter\<close> has the pattern parser with the indices of \<^verbatim>\<open>LogFormatter::init\<close>;
    \<open>PatternSpec\<close> has a parser without indices and the proof that the two agree.
  \<^item> \<open>LogSystem\<close>: loggers and appenders in a store (\<open>sys\<close>), every logging and setting operation;
    what goes to the console and to files is a list of effects. \<open>LogSpec\<close> has the invariant
    \<open>sys_wf\<close> and how deep a log call nests. \<open>FileProps\<close> has what files contain.
  \<^item> \<open>LogDefine\<close>, \<open>LoggerManager\<close>: definitions of loggers, the manager and the listener of \<^verbatim>\<open>LogInit\<close>.
    \<open>ManagerSpec\<close> states what the operations do to a logger as it is seen from outside
    (\<open>aview\<close>); \<open>ManagerNames\<close>, \<open>ManagerProps\<close>, \<open>UpdateProps\<close> have the promises of the manager.
  \<^item> \<open>Yaml\<close>: the part of yaml-cpp the code calls, a record of functions, with its laws and a
    concrete instance that has them. \<open>LexicalCast\<close>, \<open>LogCast\<close>: the casts over it.
  \<^item> \<open>ConfigVar\<close>, \<open>ConfigRegistry\<close>, \<open>ConfigProps\<close>, \<open>ConfigLoad\<close>: \<^verbatim>\<open>config.h\<close> and \<^verbatim>\<open>config.cpp\<close>;
    \<open>LoggersConfig\<close> joins them with the manager: from a YAML document to the loggers.
  \<^item> \<open>Fiber\<close>: \<^verbatim>\<open>fiber.cpp\<close> on one thread, with the scheduler as that thread runs it. A context is
    the list of statements left to do. \<open>FiberProps\<close> has coroutines and the refinement, \<open>FiberIds\<close>
    the ids and the count of fibers.
  \<^item> \<open>Scheduler\<close>: the scheduler with its threads, callers and owner as a step relation;
    \<open>SchedulerProps\<close> has its invariant and that \<^verbatim>\<open>stop\<close> ends, \<open>SchedulerRuns\<close> an executable form of the
    steps with runs that show gaps. \<open>SchedulerFibers\<close> puts the fibers on the scheduler's
    threads (\<open>works\<close>: the scheduler, one fiber memory, a \<open>tls\<close> per thread), and \<open>WorkersProps\<close> has
    what the threads together do with them.
    \<open>CallerScheduler\<close> and \<open>CallerFibers\<close> have the same for a scheduler made with \<^verbatim>\<open>user_caller\<close>: the
    root fiber is worker \<open>n\<close>, and \<open>as_threads\<close> shows it as one thread more.
  \<^item> \<open>Mutex\<close>, \<open>Thread\<close>: \<^verbatim>\<open>mutex.h\<close> and \<^verbatim>\<open>thread.cpp\<close>.

  \<^bold>\<open>How the parts interact.\<close> \<^verbatim>\<open>Config::LoadFromYaml\<close> lists the members of a document and gives each
  its text to the variable of that name; the variable \<^verbatim>\<open>loggers\<close> has the listener that removes,
  makes and updates loggers; loggers format events through their appenders. A scheduler's threads
  take fibers from a queue under \<^verbatim>\<open>m_mutex\<close>, sleep on \<^verbatim>\<open>m_condition\<close> and swap into fibers, which come
  back by \<^verbatim>\<open>Yield\<close> or by their end.

  \<^bold>\<open>What is proved.\<close> C1 to C5: levels, the pattern language, times, the set of definitions. C6 to C11:
  what a log call does, in every reachable state, and what reaches console and files. Reachable is
  what the steps \<open>mgr_step\<close> lead to: the manager's operations, the setters of loggers (renaming by
  \<^verbatim>\<open>setName\<close> included) and those of appenders that stand alone. C12 to C16: the manager; the handle a
  lookup yields stays valid, its name is until \<^verbatim>\<open>setName\<close> is called (the loggers ever renamed are the
  set \<open>R\<close> of \<open>mgr_step\<close>), and a renamed logger keeps its key. C17 to C20: the casts and their round trips. C21 to C28: variables, the registry,
  loading, and the way from a document to the loggers and back. C29 to C31: fibers as coroutines,
  the scheduler on its caller's thread, and the numbers of fibers; a fiber has a stack of the size
  it was made with, what runs in it takes \<open>fs_need\<close> bytes, and switching to a fiber with less ends
  in \<open>StackOverflow\<close>. C32 to C34: safety of the
  scheduler with threads, that \<^verbatim>\<open>stop\<close> drains the queue and returns, and what it does not promise.
  C35: threads that run fibers refine coroutines, when nobody schedules a fiber that somebody has;
  \<open>double_schedule_races\<close> is a run in which somebody does and two threads enter one fiber. C36 to
  C38: the scheduler with threads and its caller, which does what one thread more would do, and
  loses no fiber when \<^verbatim>\<open>stop\<close> is called, but ends the caller's thread; and how many threads it makes,
  what it leaves when \<^verbatim>\<open>pthread_create\<close> refuses one, and what \<^verbatim>\<open>stop\<close> does then.
  C39 and C40: scoped locks and threads.

  \<^bold>\<open>Bounds.\<close> \<open>Logger_log\<close> recurses on the room for nested calls, since a failing file appender
  reports to the root logger: two calls suffice when the root logger's own appenders do not fail, and
  no number does when one of them fails. \<open>ListAllYamlMember\<close> recurses on the depth of the stack, and
  returns where the document is nested less deep. The machine of \<open>Fiber\<close> runs for a number of
  steps; what is claimed is that some number leads to the state in question. \<^verbatim>\<open>stop\<close> makes at most
  \<open>4 * q + 6 * n + 5\<close> steps with \<open>q\<close> fibers and \<open>n\<close> threads, and \<open>4 * q + 6 * n + 13\<close> with \<^verbatim>\<open>user_caller\<close>.

  \<^bold>\<open>Parameters.\<close> The clock, time zone and unusual conversions of \<^verbatim>\<open>strftime\<close>, which files can be
  opened, the names of the source files (\<open>env\<close>); yaml-cpp (\<open>yaml\<close>) and \<^verbatim>\<open>boost::lexical_cast\<close> (the
  casts of the elements); the order in which unordered containers are iterated; thread ids; which
  threads \<^verbatim>\<open>pthread_create\<close> refuses; the bytes of stack a fiber's code takes.

  \<^bold>\<open>What is taken for granted.\<close> A path is written through one stream at a time (\<open>file_content\<close>);
  strings that go through YAML are texts yaml-cpp writes back unchanged, that is valid UTF-8; a
  copied \<^verbatim>\<open>pthread_mutex_t\<close> behaves as its bytes say, which POSIX leaves undefined; \<^verbatim>\<open>localtime_r\<close>
  gives a calendar time with a 32-bit year; a client sets no null formatter, and does not change an
  installed one by \<^verbatim>\<open>setPattern\<close>; a scheduler is started once and then stopped once.

  \<^bold>\<open>Not modelled.\<close> \<^verbatim>\<open>Singleton\<close> and \<^verbatim>\<open>Noncopyable\<close> (no logic), the programs under \<^verbatim>\<open>tests\<close>; destructors
  that only free memory; the closing of a file by the destructor of its appender;
  listeners that change the registry they are called from; the log lines, debug and error, of
  fibers and the scheduler, and its idle fiber, which is made but never entered; in the
  scheduler with threads, what follows once two threads are in one fiber or a fiber has ended its
  thread or left its stack (\<open>wk_race\<close>, \<open>wk_ended\<close>; both are undefined or fatal in the code), the statements of two fibers
  interleaved (a resumption is one step, since fibers share nothing but the output), and resets of
  fibers while threads run them; joining a thread twice, which pthreads leaves undefined.
\<close>

end
